(* ===== verification/Rtl_Prelude.thy ===== *)
theory Rtl_Prelude
  imports Main "HOL-Library.Word" "HOL-Library.Multiset"
begin

text \<open>
  Shared vocabulary of the development: the machine types of the C++ sources, the result type
  that stands for "returns a value or throws", reachability of a state machine, and the generic
  facts on lists, options and 64-bit words that the component theories use.
\<close>

section \<open>Types shared by the components\<close>

text \<open>\<open>std::size_t\<close> of the 64-bit targets the library is built for: \<open>+\<close> and \<open>-\<close> wrap.\<close>

type_synonym size_t = "64 word"

type_synonym byte = "8 word"

text \<open>A call that throws \<open>Inl e\<close> or returns \<open>Inr v\<close>.\<close>

type_synonym ('e, 'a) result = "'e + 'a"

text \<open>One section of code run under a mutex: it is done with a result, or it reached a
  condition-variable wait that does not return yet, or its behaviour is undefined in C++.\<close>

datatype 'r locked_section = Done 'r | Wait | Undef

text \<open>Facts the component proofs collect: preservation of an invariant by an operation, and the
  unfolding of the small accessors of a component.\<close>

named_theorems rtl_inv
named_theorems rtl_simps

section \<open>Reachable states of a machine\<close>

inductive reach :: "('s \<Rightarrow> bool) \<Rightarrow> ('s \<Rightarrow> 's \<Rightarrow> bool) \<Rightarrow> 's \<Rightarrow> bool"
  for start :: "'s \<Rightarrow> bool" and step :: "'s \<Rightarrow> 's \<Rightarrow> bool" where
  reach_start: "start s \<Longrightarrow> reach start step s"
| reach_step: "reach start step s \<Longrightarrow> step s t \<Longrightarrow> reach start step t"

text \<open>The contract between a component's step relation and its invariant; a component interprets
  it on its own steps and gets the invariant in every reachable state.\<close>

locale invariant_machine =
  fixes start :: "'s \<Rightarrow> bool"
    and step :: "'s \<Rightarrow> 's \<Rightarrow> bool"
    and inv :: "'s \<Rightarrow> bool"
  assumes inv_start: "start s \<Longrightarrow> inv s"
    and inv_step: "inv s \<Longrightarrow> step s t \<Longrightarrow> inv t"
begin

lemma reach_inv: "reach start step s \<Longrightarrow> inv s"
  by (induction rule: reach.induct) (auto intro: inv_start inv_step)

lemma steps_inv: "step\<^sup>*\<^sup>* s t \<Longrightarrow> inv s \<Longrightarrow> inv t"
  by (induction rule: rtranclp_induct) (auto intro: inv_step)

end

lemma reach_steps: "reach start step s \<Longrightarrow> step\<^sup>*\<^sup>* s t \<Longrightarrow> reach start step t"
  by (rotate_tac 1, induction rule: rtranclp_induct) (auto intro: reach_step)

section \<open>Histories of visible events\<close>

text \<open>The events a machine has shown on the way to a state.  A step shows a list of them, the empty list when it is
  internal.\<close>

inductive shows_events :: "('s \<Rightarrow> bool) \<Rightarrow> ('s \<Rightarrow> 'e list \<Rightarrow> 's \<Rightarrow> bool) \<Rightarrow> 'e list \<Rightarrow> 's \<Rightarrow> bool"
  for start :: "'s \<Rightarrow> bool" and step :: "'s \<Rightarrow> 'e list \<Rightarrow> 's \<Rightarrow> bool" where
  shows_start: "start s \<Longrightarrow> shows_events start step [] s"
| shows_step: "shows_events start step es s \<Longrightarrow> step s fs s' \<Longrightarrow> shows_events start step (es @ fs) s'"

text \<open>The contract of a refinement mapping: each step is a step of the specification with the same events, for as
  long as a condition on the run holds, which does not come back once it is lost.\<close>

locale refinement_map =
  fixes cstart :: "'c \<Rightarrow> bool" and cstep :: "'c \<Rightarrow> 'e list \<Rightarrow> 'c \<Rightarrow> bool"
    and astart :: "'a \<Rightarrow> bool" and astep :: "'a \<Rightarrow> 'e list \<Rightarrow> 'a \<Rightarrow> bool"
    and cond :: "'c \<Rightarrow> bool" and inv :: "'c \<Rightarrow> bool" and abs :: "'c \<Rightarrow> 'a"
  assumes map_start: "cstart s \<Longrightarrow> inv s \<and> astart (abs s)"
    and map_step: "inv s \<Longrightarrow> cstep s es s' \<Longrightarrow> cond s' \<Longrightarrow> inv s' \<and> astep (abs s) es (abs s')"
    and cond_back: "cstep s es s' \<Longrightarrow> cond s' \<Longrightarrow> cond s"
begin

lemma refined: "shows_events cstart cstep es s \<Longrightarrow> cond s \<Longrightarrow> inv s \<and> shows_events astart astep es (abs s)"
proof (induction rule: shows_events.induct)
  case (shows_start s)
  then show ?case using map_start by (auto intro: shows_events.shows_start)
next
  case (shows_step es s fs s')
  then show ?case using map_step cond_back by (blast intro: shows_events.shows_step)
qed

end

section \<open>Unsigned 64-bit arithmetic without wrap-around\<close>

lemma unat_size_bound [simp]: "unat (n :: size_t) < 18446744073709551616"
proof -
  have "unat n < 2 ^ LENGTH(64)" by (rule unsigned_less)
  then show ?thesis by simp
qed

lemma unat_add_nowrap:
  "unat (a :: size_t) + unat b < 18446744073709551616 \<Longrightarrow> unat (a + b) = unat a + unat b"
  by (simp add: unat_word_ariths)

lemma unat_inc_nowrap:
  "unat (a :: size_t) < 18446744073709551615 \<Longrightarrow> unat (a + 1) = unat a + 1"
  using unat_add_nowrap [of a 1] by simp

lemma unat_sub_nowrap:
  "unat (b :: size_t) \<le> unat a \<Longrightarrow> unat (a - b) = unat a - unat b"
  by (simp add: unat_sub word_le_nat_alt)

lemma unat_dec_nowrap: "0 < unat (a :: size_t) \<Longrightarrow> unat (a - 1) = unat a - 1"
  using unat_sub_nowrap [of 1 a] by simp

lemma unat_of_nat_size:
  "n < 18446744073709551616 \<Longrightarrow> unat (of_nat n :: size_t) = n"
  by (simp add: unat_of_nat)

lemma size_zero_iff: "(a :: size_t) = 0 \<longleftrightarrow> unat a = 0"
  by (simp add: unat_eq_0)

section \<open>Decimal numbers\<close>

text \<open>What \<open>std::format("{}", n)\<close> and \<open>std::to_string\<close> print for an integer.\<close>

definition digit_char :: "nat \<Rightarrow> char" where
  "digit_char d = char_of (48 + d)"

fun nat_dec :: "nat \<Rightarrow> string" where
  "nat_dec n = (if n < 10 then [digit_char n] else nat_dec (n div 10) @ [digit_char (n mod 10)])"

declare nat_dec.simps [simp del]

definition int_dec :: "int \<Rightarrow> string" where
  "int_dec i = (if i < 0 then CHR ''-'' # nat_dec (nat (- i)) else nat_dec (nat i))"

text \<open>Reading a decimal number back.\<close>

definition dec_value :: "string \<Rightarrow> nat" where
  "dec_value s = foldl (\<lambda>v c. 10 * v + (of_char c - 48)) 0 s"

lemma dec_value_nat_dec [simp]: "dec_value (nat_dec n) = n"
proof (induction n rule: nat_dec.induct)
  case (1 n)
  show ?case
  proof (cases "n < 10")
    case True
    then show ?thesis by (simp add: nat_dec.simps dec_value_def digit_char_def)
  next
    case False
    with 1 show ?thesis
      by (subst nat_dec.simps) (simp add: dec_value_def digit_char_def)
  qed
qed

lemma nat_dec_inject [simp]: "nat_dec m = nat_dec n \<longleftrightarrow> m = n"
  by (metis dec_value_nat_dec)

section \<open>Lists\<close>

lemma mset_update_swap:
  "i < length xs \<Longrightarrow> mset (xs[i := v]) + {#xs ! i#} = mset xs + {#v#}"
  by (simp add: mset_update)

lemma sum_list_map_update:
  fixes f :: "'a \<Rightarrow> 'b :: comm_monoid_add"
  shows "i < length xs \<Longrightarrow> sum_list (map f (xs[i := v])) + f (xs ! i) = sum_list (map f xs) + f v"
  by (induction xs arbitrary: i) (auto simp: ac_simps split: nat.split)

lemma list_all_update: "list_all P xs \<Longrightarrow> P v \<Longrightarrow> list_all P (xs[i := v])"
  by (auto simp: list_all_iff dest!: set_update_subset_insert [THEN subsetD])

lemma in_mset_remove: "x \<in># A \<Longrightarrow> A = add_mset x (A - {#x#})"
  by simp

end
