(* ===== verification/Containers.thy ===== *)
theory Containers
  imports Rtl_Prelude
begin

text \<open>
  The containers the queue template of \<^verbatim>\<open>stp/UnbMpMcTemplateQueue.hpp\<close> can be instantiated with:
  the binary heap \<open>MovablePriorityQueue\<close> and the traits struct \<open>ContainerOps\<close> with its
  specialisations for \<open>std::deque\<close>, \<open>std::list\<close>, \<open>std::vector\<close>, \<open>std::priority_queue\<close> and
  \<open>MovablePriorityQueue\<close>.  A container is the list of its elements in storage order.  Popping an
  empty container is undefined in C++ and is \<open>None\<close> here.  The traits contract is the locale
  \<open>container\<close>, with \<open>fifo_container\<close> and \<open>priority_container\<close> for what deques and heaps promise
  beyond it; every specialisation is interpreted.
\<close>

section \<open>Binary heaps: \<open>std::push_heap\<close> and \<open>std::pop_heap\<close>\<close>

text \<open>The standard fixes the contract of the two algorithms (the range is a heap afterwards), not
  the permutation; the model sifts one step at a time.  \<open>lt\<close> is the comparison object.\<close>

abbreviation heap_parent :: "nat \<Rightarrow> nat" where
  "heap_parent i \<equiv> (i - 1) div 2"

definition swap_at :: "'a list \<Rightarrow> nat \<Rightarrow> nat \<Rightarrow> 'a list" where
  "swap_at h i j = h[i := h ! j, j := h ! i]"

fun sift_up :: "('a \<Rightarrow> 'a \<Rightarrow> bool) \<Rightarrow> 'a list \<Rightarrow> nat \<Rightarrow> 'a list" where
  "sift_up lt h i =
     (if i = 0 then h
      else if lt (h ! heap_parent i) (h ! i)
           then sift_up lt (swap_at h i (heap_parent i)) (heap_parent i)
           else h)"

definition push_heap :: "('a \<Rightarrow> 'a \<Rightarrow> bool) \<Rightarrow> 'a list \<Rightarrow> 'a list" where
  "push_heap lt h = sift_up lt h (length h - 1)"

definition larger_child :: "('a \<Rightarrow> 'a \<Rightarrow> bool) \<Rightarrow> 'a list \<Rightarrow> nat \<Rightarrow> nat \<Rightarrow> nat" where
  "larger_child lt h n i =
     (if 2 * i + 2 < n \<and> lt (h ! (2 * i + 1)) (h ! (2 * i + 2)) then 2 * i + 2 else 2 * i + 1)"

function sift_down :: "('a \<Rightarrow> 'a \<Rightarrow> bool) \<Rightarrow> 'a list \<Rightarrow> nat \<Rightarrow> nat \<Rightarrow> 'a list" where
  "sift_down lt h n i =
     (if 2 * i + 1 < n \<and> lt (h ! i) (h ! larger_child lt h n i)
      then sift_down lt (swap_at h i (larger_child lt h n i)) n (larger_child lt h n i)
      else h)"
  by pat_completeness auto
termination
  by (relation "measure (\<lambda>(lt, h, n, i). n - i)") (auto simp: larger_child_def)

definition pop_heap :: "('a \<Rightarrow> 'a \<Rightarrow> bool) \<Rightarrow> 'a list \<Rightarrow> 'a list" where
  "pop_heap lt h =
     (if h = [] then [] else sift_down lt (swap_at h 0 (length h - 1)) (length h - 1) 0)"

declare sift_up.simps [simp del] sift_down.simps [simp del]

section \<open>\<open>MovablePriorityQueue\<close>\<close>

record 'a movable_priority_queue =
  m_compare :: "'a \<Rightarrow> 'a \<Rightarrow> bool"
  m_heap :: "'a list"

definition mpq_emplace :: "'a movable_priority_queue \<Rightarrow> 'a \<Rightarrow> 'a movable_priority_queue" where
  "mpq_emplace q v = q\<lparr>m_heap := push_heap (m_compare q) (m_heap q @ [v])\<rparr>"

definition mpq_pop_move ::
  "'a movable_priority_queue \<Rightarrow> ('a \<times> 'a movable_priority_queue) option" where
  "mpq_pop_move q =
     (if m_heap q = [] then None
      else let h = pop_heap (m_compare q) (m_heap q)
           in Some (last h, q\<lparr>m_heap := butlast h\<rparr>))"

definition mpq_empty :: "'a movable_priority_queue \<Rightarrow> bool" where
  "mpq_empty q \<longleftrightarrow> m_heap q = []"

definition mpq_size :: "'a movable_priority_queue \<Rightarrow> nat" where
  "mpq_size q = length (m_heap q)"

definition mpq_clear :: "'a movable_priority_queue \<Rightarrow> 'a movable_priority_queue" where
  "mpq_clear q = q\<lparr>m_heap := []\<rparr>"

section \<open>The traits struct \<open>ContainerOps\<close>\<close>

record ('c, 'a) container_ops =
  ops_push :: "'c \<Rightarrow> 'a \<Rightarrow> 'c"
  ops_pop :: "'c \<Rightarrow> ('a \<times> 'c) option"
  ops_empty :: "'c \<Rightarrow> bool"
  ops_size :: "'c \<Rightarrow> nat"
  ops_clear :: "'c \<Rightarrow> 'c"

definition pop_front_of :: "'a list \<Rightarrow> ('a \<times> 'a list) option" where
  "pop_front_of b = (case b of [] \<Rightarrow> None | x # xs \<Rightarrow> Some (x, xs))"

definition pop_back_of :: "'a list \<Rightarrow> ('a \<times> 'a list) option" where
  "pop_back_of b = (if b = [] then None else Some (last b, butlast b))"

definition deque_ops :: "('a list, 'a) container_ops" where
  "deque_ops =
     \<lparr>ops_push = (\<lambda>b x. b @ [x]), ops_pop = pop_front_of, ops_empty = (\<lambda>b. b = []),
      ops_size = length, ops_clear = (\<lambda>_. [])\<rparr>"

definition list_ops :: "('a list, 'a) container_ops" where
  "list_ops =
     \<lparr>ops_push = (\<lambda>b x. b @ [x]), ops_pop = pop_front_of, ops_empty = (\<lambda>b. b = []),
      ops_size = length, ops_clear = (\<lambda>_. [])\<rparr>"

definition vector_ops :: "('a list, 'a) container_ops" where
  "vector_ops =
     \<lparr>ops_push = (\<lambda>b x. b @ [x]), ops_pop = pop_back_of, ops_empty = (\<lambda>b. b = []),
      ops_size = length, ops_clear = (\<lambda>_. [])\<rparr>"

text \<open>\<open>std::priority_queue\<close> is \<open>push_back\<close> and \<open>push_heap\<close>, \<open>front\<close> as \<open>top\<close>, \<open>pop_heap\<close> and
  \<open>pop_back\<close> over its sequence container; \<open>clear\<close> pops until it is empty.\<close>

definition pq_pop :: "('a \<Rightarrow> 'a \<Rightarrow> bool) \<Rightarrow> 'a list \<Rightarrow> ('a \<times> 'a list) option" where
  "pq_pop lt b = (case b of [] \<Rightarrow> None | x # _ \<Rightarrow> Some (x, butlast (pop_heap lt b)))"

fun pq_clear_loop :: "('a \<Rightarrow> 'a \<Rightarrow> bool) \<Rightarrow> nat \<Rightarrow> 'a list \<Rightarrow> 'a list" where
  "pq_clear_loop lt 0 b = b"
| "pq_clear_loop lt (Suc n) b = (if b = [] then b else pq_clear_loop lt n (butlast (pop_heap lt b)))"

definition priority_queue_ops :: "('a \<Rightarrow> 'a \<Rightarrow> bool) \<Rightarrow> ('a list, 'a) container_ops" where
  "priority_queue_ops lt =
     \<lparr>ops_push = (\<lambda>b x. push_heap lt (b @ [x])), ops_pop = pq_pop lt, ops_empty = (\<lambda>b. b = []),
      ops_size = length, ops_clear = (\<lambda>b. pq_clear_loop lt (length b) b)\<rparr>"

definition movable_pq_ops :: "('a movable_priority_queue, 'a) container_ops" where
  "movable_pq_ops =
     \<lparr>ops_push = mpq_emplace, ops_pop = mpq_pop_move, ops_empty = mpq_empty,
      ops_size = mpq_size, ops_clear = mpq_clear\<rparr>"

section \<open>What the comparison object promises, and the heap invariant\<close>

definition strict_weak_order :: "('a \<Rightarrow> 'a \<Rightarrow> bool) \<Rightarrow> bool" where
  "strict_weak_order lt \<longleftrightarrow>
     (\<forall>a b. lt a b \<longrightarrow> \<not> lt b a) \<and> (\<forall>a b c. \<not> lt a b \<longrightarrow> \<not> lt b c \<longrightarrow> \<not> lt a c)"

definition is_heap :: "('a \<Rightarrow> 'a \<Rightarrow> bool) \<Rightarrow> nat \<Rightarrow> 'a list \<Rightarrow> bool" where
  "is_heap lt n h \<longleftrightarrow> (\<forall>i<n. 0 < i \<longrightarrow> \<not> lt (h ! heap_parent i) (h ! i))"

definition mpq_ok :: "'a movable_priority_queue \<Rightarrow> bool" where
  "mpq_ok q \<longleftrightarrow> strict_weak_order (m_compare q) \<and> is_heap (m_compare q) (length (m_heap q)) (m_heap q)"

lemma swo_asym: "strict_weak_order lt \<Longrightarrow> lt a b \<Longrightarrow> \<not> lt b a"
  unfolding strict_weak_order_def by blast

lemma swo_negtrans: "strict_weak_order lt \<Longrightarrow> \<not> lt a b \<Longrightarrow> \<not> lt b c \<Longrightarrow> \<not> lt a c"
  unfolding strict_weak_order_def by blast

lemma swo_linorder: "strict_weak_order ((<) :: 'a::linorder \<Rightarrow> 'a \<Rightarrow> bool)"
  by (auto simp: strict_weak_order_def)

lemma heap_parent_less: "0 < i \<Longrightarrow> heap_parent i < i"
  by auto

section \<open>Sifting\<close>

lemma length_swap_at [simp]: "length (swap_at h i j) = length h"
  by (simp add: swap_at_def)

lemma swap_at_nth:
  "i < length h \<Longrightarrow> j < length h \<Longrightarrow> k < length h \<Longrightarrow>
   swap_at h i j ! k = (if k = i then h ! j else if k = j then h ! i else h ! k)"
  by (auto simp: swap_at_def nth_list_update)

lemma mset_swap_at: "i < length h \<Longrightarrow> j < length h \<Longrightarrow> mset (swap_at h i j) = mset h"
  by (simp add: swap_at_def mset_swap)

lemma mset_sift_up: "i < length h \<Longrightarrow> mset (sift_up lt h i) = mset h"
proof (induction lt h i rule: sift_up.induct)
  case (1 lt h i)
  show ?case
  proof (cases "i \<noteq> 0 \<and> lt (h ! heap_parent i) (h ! i)")
    case True
    have p: "heap_parent i < length h" using "1.prems" by linarith
    have "mset (sift_up lt (swap_at h i (heap_parent i)) (heap_parent i)) = mset h"
      using "1.IH" True p "1.prems" by (simp add: mset_swap_at)
    with True show ?thesis by (simp add: sift_up.simps [of lt h i])
  next
    case False
    then show ?thesis by (auto simp add: sift_up.simps [of lt h i])
  qed
qed

lemma length_sift_up: "i < length h \<Longrightarrow> length (sift_up lt h i) = length h"
  using mset_eq_length [OF mset_sift_up] .

definition heap_but :: "('a \<Rightarrow> 'a \<Rightarrow> bool) \<Rightarrow> 'a list \<Rightarrow> nat \<Rightarrow> bool" where
  "heap_but lt h i \<longleftrightarrow>
     (\<forall>j<length h. 0 < j \<longrightarrow> j \<noteq> i \<longrightarrow> \<not> lt (h ! heap_parent j) (h ! j)) \<and>
     (\<forall>j<length h. 0 < j \<longrightarrow> 0 < i \<longrightarrow> heap_parent j = i \<longrightarrow> \<not> lt (h ! heap_parent i) (h ! j))"

lemma heap_butD1: "heap_but lt h i \<Longrightarrow> j < length h \<Longrightarrow> 0 < j \<Longrightarrow> j \<noteq> i \<Longrightarrow> \<not> lt (h ! heap_parent j) (h ! j)"
  by (simp add: heap_but_def)

lemma heap_butD2:
  "heap_but lt h i \<Longrightarrow> j < length h \<Longrightarrow> 0 < j \<Longrightarrow> 0 < i \<Longrightarrow> heap_parent j = i \<Longrightarrow>
   \<not> lt (h ! heap_parent i) (h ! j)"
  unfolding heap_but_def by blast

text \<open>After the exchange of \<open>i\<close> with its parent the order can be wrong at the parent only.\<close>

lemma swap_parent_order:
  assumes swo: "strict_weak_order lt" and i: "0 < i" "i < length h"
    and lt: "lt (h ! heap_parent i) (h ! i)" and but: "heap_but lt h i"
    and j: "j < length h" "0 < j" "j \<noteq> heap_parent i"
  shows "\<not> lt (swap_at h i (heap_parent i) ! heap_parent j) (swap_at h i (heap_parent i) ! j)"
proof -
  let ?p = "heap_parent i"
  let ?h = "swap_at h i ?p"
  have p: "?p < i" "?p < length h" using i by linarith+
  have nth: "k < length h \<Longrightarrow> ?h ! k = (if k = i then h ! ?p else if k = ?p then h ! i else h ! k)" for k
    using swap_at_nth [of i h ?p k] i p by blast
  have nback: "\<not> lt (h ! i) (h ! ?p)" using swo lt by (rule swo_asym)
  have pj: "heap_parent j < j" "heap_parent j < length h" using j by linarith+
  consider "j = i" | "j \<noteq> i" "heap_parent j = i" | "j \<noteq> i" "heap_parent j = ?p"
    | "j \<noteq> i" "heap_parent j \<noteq> i" "heap_parent j \<noteq> ?p" by blast
  then show ?thesis
  proof cases
    case 1
    then show ?thesis using nback nth [of i] nth [of ?p] i p by simp
  next
    case 2
    then have "\<not> lt (h ! ?p) (h ! j)" using heap_butD2 [OF but] j i by blast
    then show ?thesis using 2 nth [OF pj(2)] nth [OF j(1)] j(3) by simp
  next
    case 3
    then have "\<not> lt (h ! ?p) (h ! j)" using heap_butD1 [OF but j(1,2)] by simp
    then have "\<not> lt (h ! i) (h ! j)" using swo_negtrans [OF swo nback] by blast
    then show ?thesis using 3 nth [OF pj(2)] nth [OF j(1)] j(3) p(1) by simp
  next
    case 4
    then show ?thesis using heap_butD1 [OF but j(1,2)] nth [OF pj(2)] nth [OF j(1)] j(3) by simp
  qed
qed

lemma heap_but_swap:
  assumes swo: "strict_weak_order lt" and i: "0 < i" "i < length h"
    and lt: "lt (h ! heap_parent i) (h ! i)" and but: "heap_but lt h i"
  shows "heap_but lt (swap_at h i (heap_parent i)) (heap_parent i)"
proof -
  let ?p = "heap_parent i"
  let ?h = "swap_at h i ?p"
  have p: "?p < i" "?p < length h" using i by linarith+
  have nth: "k < length h \<Longrightarrow> ?h ! k = (if k = i then h ! ?p else if k = ?p then h ! i else h ! k)" for k
    using swap_at_nth [of i h ?p k] i p by blast
  have two: "\<not> lt (?h ! heap_parent ?p) (?h ! j)"
    if j: "j < length h" "0 < j" "0 < ?p" "heap_parent j = ?p" for j
  proof -
    have pp: "heap_parent ?p < ?p" "heap_parent ?p < length h" using j(3) p by linarith+
    have gp: "\<not> lt (h ! heap_parent ?p) (h ! ?p)"
      using heap_butD1 [OF but p(2) j(3)] p(1) by simp
    have gj: "\<not> lt (h ! heap_parent ?p) (h ! j)" if "j \<noteq> i"
      using swo_negtrans [OF swo gp] heap_butD1 [OF but j(1,2) that] j(4) by simp
    have jp: "j \<noteq> ?p" using j(2,4) heap_parent_less [OF j(2)] by simp
    show ?thesis
      using gp gj nth [OF pp(2)] nth [OF j(1)] pp(1) p(1) jp by (cases "j = i") auto
  qed
  show ?thesis unfolding heap_but_def using swap_parent_order [OF swo i lt but] two by simp
qed

lemma sift_up_heap:
  "strict_weak_order lt \<Longrightarrow> i < length h \<Longrightarrow> heap_but lt h i \<Longrightarrow> is_heap lt (length h) (sift_up lt h i)"
proof (induction lt h i rule: sift_up.induct)
  case (1 lt h i)
  let ?p = "heap_parent i"
  show ?case
  proof (cases "i \<noteq> 0 \<and> lt (h ! ?p) (h ! i)")
    case True
    have p: "?p < length h" using "1.prems" True by linarith
    have "heap_but lt (swap_at h i ?p) ?p"
      using heap_but_swap "1.prems" True by blast
    then have "is_heap lt (length h) (sift_up lt (swap_at h i ?p) ?p)"
      using "1.IH" True p "1.prems"(1) by simp
    with True show ?thesis by (simp add: sift_up.simps [of lt h i])
  next
    case False
    then have "sift_up lt h i = h" by (auto simp add: sift_up.simps [of lt h i])
    then show ?thesis
      using "1.prems" False unfolding is_heap_def heap_but_def by (metis less_nat_zero_code)
  qed
qed

lemma push_heap_heap:
  assumes "strict_weak_order lt" and "is_heap lt (length h) h"
  shows "is_heap lt (Suc (length h)) (push_heap lt (h @ [x]))"
proof -
  have nth: "j < length h \<Longrightarrow> (h @ [x]) ! j = h ! j" for j by (simp add: nth_append)
  have "heap_but lt (h @ [x]) (length h)"
  proof -
    have "\<not> lt ((h @ [x]) ! heap_parent j) ((h @ [x]) ! j)" if "j < length h" "0 < j" for j
      using assms(2) that nth [of j] nth [of "heap_parent j"] heap_parent_less [of j]
      by (simp add: is_heap_def)
    moreover have "heap_parent j \<noteq> length h" if "j < Suc (length h)" "0 < j" for j
      using that by linarith
    ultimately show ?thesis unfolding heap_but_def by (auto simp: less_Suc_eq)
  qed
  then show ?thesis
    using sift_up_heap [OF assms(1), of "length h" "h @ [x]"] by (simp add: push_heap_def)
qed

lemma mset_push_heap: "h \<noteq> [] \<Longrightarrow> mset (push_heap lt h) = mset h"
  by (simp add: push_heap_def mset_sift_up)

definition heap_below :: "('a \<Rightarrow> 'a \<Rightarrow> bool) \<Rightarrow> 'a list \<Rightarrow> nat \<Rightarrow> nat \<Rightarrow> bool" where
  "heap_below lt h n i \<longleftrightarrow>
     (\<forall>j<n. 0 < j \<longrightarrow> heap_parent j \<noteq> i \<longrightarrow> \<not> lt (h ! heap_parent j) (h ! j)) \<and>
     (\<forall>j<n. 0 < j \<longrightarrow> 0 < i \<longrightarrow> heap_parent j = i \<longrightarrow> \<not> lt (h ! heap_parent i) (h ! j))"

lemma heap_belowD1:
  "heap_below lt h n i \<Longrightarrow> j < n \<Longrightarrow> 0 < j \<Longrightarrow> heap_parent j \<noteq> i \<Longrightarrow> \<not> lt (h ! heap_parent j) (h ! j)"
  by (simp add: heap_below_def)

lemma heap_belowD2:
  "heap_below lt h n i \<Longrightarrow> j < n \<Longrightarrow> 0 < j \<Longrightarrow> 0 < i \<Longrightarrow> heap_parent j = i \<Longrightarrow>
   \<not> lt (h ! heap_parent i) (h ! j)"
  unfolding heap_below_def by blast

lemma larger_child_bounds:
  "2 * i + 1 < n \<Longrightarrow> larger_child lt h n i < n \<and> i < larger_child lt h n i \<and>
     heap_parent (larger_child lt h n i) = i"
  by (auto simp: larger_child_def)

lemma larger_child_ge:
  assumes "strict_weak_order lt" "j < n" "0 < j" "heap_parent j = i"
  shows "\<not> lt (h ! larger_child lt h n i) (h ! j)"
proof -
  have j: "j = 2 * i + 1 \<or> j = 2 * i + 2" using assms(3,4) by linarith
  let ?a = "h ! (2 * i + 1)" and ?b = "h ! (2 * i + 2)"
  have "\<not> lt ?a ?a" "\<not> lt ?b ?b" "lt ?a ?b \<Longrightarrow> \<not> lt ?b ?a"
    using swo_asym [OF assms(1)] by blast+
  then show ?thesis
    using j assms(2) unfolding larger_child_def by (elim disjE) simp_all
qed

lemma heap_below_swap:
  assumes swo: "strict_weak_order lt" and n: "n \<le> length h" and l: "2 * i + 1 < n"
    and lt: "lt (h ! i) (h ! larger_child lt h n i)" and below: "heap_below lt h n i"
  shows "heap_below lt (swap_at h i (larger_child lt h n i)) n (larger_child lt h n i)"
proof -
  let ?c = "larger_child lt h n i"
  let ?h = "swap_at h i ?c"
  have c: "?c < n" "i < ?c" "heap_parent ?c = i" using larger_child_bounds [OF l] by blast+
  have nth: "k < n \<Longrightarrow> ?h ! k = (if k = i then h ! ?c else if k = ?c then h ! i else h ! k)" for k
    using swap_at_nth [of i h ?c k] c n by simp
  have nlt: "\<not> lt (h ! ?c) (h ! i)" using swo lt by (rule swo_asym)
  have one: "\<not> lt (?h ! heap_parent j) (?h ! j)" if j: "j < n" "0 < j" "heap_parent j \<noteq> ?c" for j
  proof -
    have pj: "heap_parent j < j" "heap_parent j < n" using j by linarith+
    consider "j = ?c" | "j \<noteq> ?c" "heap_parent j = i" | "j = i" | "j \<noteq> i" "j \<noteq> ?c" "heap_parent j \<noteq> i"
      by blast
    then show ?thesis
    proof cases
      case 1
      then show ?thesis using nlt nth [OF c(1)] nth [of i] c by simp
    next
      case 2
      have "\<not> lt (h ! ?c) (h ! j)" using larger_child_ge [OF swo j(1,2) 2(2)] .
      then show ?thesis using 2 nth [OF pj(2)] nth [OF j(1)] pj(1) by simp
    next
      case 3
      have "\<not> lt (h ! heap_parent i) (h ! ?c)" using heap_belowD2 [OF below c(1)] c 3 j(2) by simp
      then show ?thesis using 3 nth [OF pj(2)] nth [OF j(1)] pj(1) j(3) by simp
    next
      case 4
      then show ?thesis using heap_belowD1 [OF below j(1,2)] nth [OF pj(2)] nth [OF j(1)] j(3) by simp
    qed
  qed
  have two: "\<not> lt (?h ! heap_parent ?c) (?h ! j)" if j: "j < n" "0 < j" "heap_parent j = ?c" for j
  proof -
    have pj: "?c < j" using heap_parent_less [OF j(2)] j(3) by simp
    have "\<not> lt (h ! ?c) (h ! j)" using heap_belowD1 [OF below j(1,2)] j(3) c(2) by simp
    then show ?thesis using nth [OF j(1)] nth [of i] c pj by simp
  qed
  show ?thesis unfolding heap_below_def using one two by simp
qed

lemma sift_down_props:
  "strict_weak_order lt \<Longrightarrow> n \<le> length h \<Longrightarrow> i < n \<or> n = 0 \<Longrightarrow> heap_below lt h n i \<Longrightarrow>
   is_heap lt n (sift_down lt h n i) \<and> mset (sift_down lt h n i) = mset h \<and>
   length (sift_down lt h n i) = length h \<and> (\<forall>k\<ge>n. k < length h \<longrightarrow> sift_down lt h n i ! k = h ! k)"
proof (induction lt h n i rule: sift_down.induct)
  case (1 lt h n i)
  let ?c = "larger_child lt h n i"
  let ?h = "swap_at h i ?c"
  show ?case
  proof (cases "2 * i + 1 < n \<and> lt (h ! i) (h ! ?c)")
    case True
    then have c: "?c < n" "i < ?c" using larger_child_bounds [of i n lt h] by blast+
    have "heap_below lt ?h n ?c" using heap_below_swap "1.prems" True by blast
    then have IH: "is_heap lt n (sift_down lt ?h n ?c) \<and> mset (sift_down lt ?h n ?c) = mset ?h \<and>
       length (sift_down lt ?h n ?c) = length ?h \<and>
       (\<forall>k\<ge>n. k < length ?h \<longrightarrow> sift_down lt ?h n ?c ! k = ?h ! k)"
      using "1.IH" True "1.prems"(1,2) c by simp
    have "mset ?h = mset h" using mset_swap_at [of i h ?c] c "1.prems"(2) by simp
    moreover have "\<forall>k\<ge>n. k < length h \<longrightarrow> ?h ! k = h ! k"
      using swap_at_nth [of i h ?c] c "1.prems"(2) by auto
    ultimately show ?thesis using IH True by (simp add: sift_down.simps [of lt h n i])
  next
    case False
    then have eq: "sift_down lt h n i = h" by (auto simp add: sift_down.simps [of lt h n i])
    have "\<not> lt (h ! heap_parent j) (h ! j)" if j: "j < n" "0 < j" for j
    proof (cases "heap_parent j = i")
      case True
      then have "2 * i + 1 < n" using j by linarith
      then have "\<not> lt (h ! i) (h ! ?c)" using False by blast
      then show ?thesis
        using swo_negtrans [OF "1.prems"(1)] larger_child_ge [OF "1.prems"(1) j True] True by blast
    next
      case False
      then show ?thesis using heap_belowD1 [OF "1.prems"(4) j] by blast
    qed
    then show ?thesis using eq by (simp add: is_heap_def)
  qed
qed

lemma heap_root_max:
  assumes "strict_weak_order lt" "is_heap lt n h"
  shows "i < n \<Longrightarrow> \<not> lt (h ! 0) (h ! i)"
proof (induction i rule: less_induct)
  case (less i)
  show ?case
  proof (cases "i = 0")
    case True
    then show ?thesis using swo_asym [OF assms(1)] by blast
  next
    case False
    then have "heap_parent i < i" "heap_parent i < n" using less.prems by linarith+
    then have "\<not> lt (h ! 0) (h ! heap_parent i)" using less.IH by blast
    moreover have "\<not> lt (h ! heap_parent i) (h ! i)"
      using assms(2) less.prems False by (simp add: is_heap_def)
    ultimately show ?thesis by (rule swo_negtrans [OF assms(1)])
  qed
qed

lemma pop_heap_props:
  assumes swo: "strict_weak_order lt" and heap: "is_heap lt (length h) h" and ne: "h \<noteq> []"
  shows "length (pop_heap lt h) = length h" "mset (pop_heap lt h) = mset h"
    "last (pop_heap lt h) = h ! 0" "is_heap lt (length h - 1) (butlast (pop_heap lt h))"
proof -
  let ?n = "length h - 1"
  let ?h = "swap_at h 0 ?n"
  have n: "?n < length h" "0 < length h" using ne by (simp_all add: length_greater_0_conv)
  have nth: "k < length h \<Longrightarrow> ?h ! k = (if k = 0 then h ! ?n else if k = ?n then h ! 0 else h ! k)" for k
    using swap_at_nth [of 0 h ?n k] n by blast
  have "heap_below lt ?h ?n 0"
  proof -
    have "\<not> lt (?h ! heap_parent j) (?h ! j)" if j: "j < ?n" "0 < j" "heap_parent j \<noteq> 0" for j
    proof -
      have "heap_parent j < j" using j(2) by (rule heap_parent_less)
      then have "?h ! heap_parent j = h ! heap_parent j" "?h ! j = h ! j"
        using nth [of j] nth [of "heap_parent j"] j by simp_all
      then show ?thesis using heap j by (simp add: is_heap_def)
    qed
    then show ?thesis unfolding heap_below_def by simp
  qed
  moreover have "0 < ?n \<or> ?n = 0" "?n \<le> length ?h" by auto
  moreover have "pop_heap lt h = sift_down lt ?h ?n 0" using ne by (simp add: pop_heap_def)
  ultimately have *: "is_heap lt ?n (pop_heap lt h) \<and> mset (pop_heap lt h) = mset ?h \<and>
     length (pop_heap lt h) = length ?h \<and> (\<forall>k\<ge>?n. k < length ?h \<longrightarrow> pop_heap lt h ! k = ?h ! k)"
    using sift_down_props [OF swo, of ?n ?h 0] by presburger
  then show len: "length (pop_heap lt h) = length h" by simp
  show "mset (pop_heap lt h) = mset h" using * mset_swap_at [OF n(2) n(1)] by simp
  have "pop_heap lt h ! ?n = h ! 0" using * nth [OF n(1)] n by auto
  then show "last (pop_heap lt h) = h ! 0" using len ne by (metis last_conv_nth length_0_conv)
  show "is_heap lt ?n (butlast (pop_heap lt h))"
  proof -
    have "\<not> lt (pop_heap lt h ! heap_parent j) (pop_heap lt h ! j)" if "j < ?n" "0 < j" for j
      using * that by (simp add: is_heap_def)
    moreover have "heap_parent j < ?n" if "j < ?n" "0 < j" for j using that by linarith
    ultimately show ?thesis using len by (simp add: is_heap_def nth_butlast)
  qed
qed

section \<open>The contract of the traits struct\<close>

locale container =
  fixes Ops :: "('c, 'a) container_ops"
    and ok :: "'c \<Rightarrow> bool"
    and elems :: "'c \<Rightarrow> 'a multiset"
  assumes size_elems: "ok c \<Longrightarrow> ops_size Ops c = size (elems c)"
    and empty_elems: "ok c \<Longrightarrow> ops_empty Ops c \<longleftrightarrow> elems c = {#}"
    and push_ok: "ok c \<Longrightarrow> ok (ops_push Ops c x)"
    and push_elems: "ok c \<Longrightarrow> elems (ops_push Ops c x) = add_mset x (elems c)"
    and pop_ok: "ok c \<Longrightarrow> ops_pop Ops c = Some (x, c') \<Longrightarrow> ok c'"
    and pop_elems: "ok c \<Longrightarrow> ops_pop Ops c = Some (x, c') \<Longrightarrow> elems c = add_mset x (elems c')"
    and pop_defined: "ok c \<Longrightarrow> elems c \<noteq> {#} \<Longrightarrow> \<exists>x c'. ops_pop Ops c = Some (x, c')"
    and clear_ok: "ok c \<Longrightarrow> ok (ops_clear Ops c)"
    and clear_elems: "ok c \<Longrightarrow> elems (ops_clear Ops c) = {#}"
begin

lemma push_size: "ok c \<Longrightarrow> ops_size Ops (ops_push Ops c x) = Suc (ops_size Ops c)"
  by (simp add: size_elems push_ok push_elems)

lemma pop_size: "ok c \<Longrightarrow> ops_pop Ops c = Some (x, c') \<Longrightarrow> ops_size Ops c = Suc (ops_size Ops c')"
  by (simp add: size_elems pop_elems pop_ok)

lemma empty_size: "ok c \<Longrightarrow> ops_empty Ops c \<longleftrightarrow> ops_size Ops c = 0"
  by (simp add: size_elems empty_elems)

lemma pop_nonempty: "ok c \<Longrightarrow> \<not> ops_empty Ops c \<Longrightarrow> \<exists>x c'. ops_pop Ops c = Some (x, c')"
  by (simp add: empty_elems pop_defined)

end

text \<open>A deque or a list gives elements back in the order they came.\<close>

locale fifo_container = container Ops ok elems
  for Ops :: "('c, 'a) container_ops" and ok elems +
  fixes contents :: "'c \<Rightarrow> 'a list"
  assumes elems_contents: "ok c \<Longrightarrow> elems c = mset (contents c)"
    and push_contents: "ok c \<Longrightarrow> contents (ops_push Ops c x) = contents c @ [x]"
    and pop_contents: "ok c \<Longrightarrow> ops_pop Ops c = Some (x, c') \<Longrightarrow> contents c = x # contents c'"
    and clear_contents: "ok c \<Longrightarrow> contents (ops_clear Ops c) = []"

text \<open>A heap gives back an element no other element is greater than.\<close>

locale priority_container = container Ops ok elems
  for Ops :: "('c, 'a) container_ops" and ok elems +
  fixes lt :: "'a \<Rightarrow> 'a \<Rightarrow> bool"
  assumes pop_max: "ok c \<Longrightarrow> ops_pop Ops c = Some (x, c') \<Longrightarrow> y \<in># elems c \<Longrightarrow> \<not> lt x y"

interpretation deque: fifo_container deque_ops "\<lambda>_. True" mset "\<lambda>c. c"
  by unfold_locales (auto simp: deque_ops_def pop_front_of_def split: list.splits)

interpretation stdlist: fifo_container list_ops "\<lambda>_. True" mset "\<lambda>c. c"
  by unfold_locales (auto simp: list_ops_def pop_front_of_def split: list.splits)

lemma mset_last_butlast: "b \<noteq> [] \<Longrightarrow> mset b = add_mset (last b) (mset (butlast b))"
  by (induction b) auto

interpretation vector: container vector_ops "\<lambda>_. True" mset
  by unfold_locales (auto simp: vector_ops_def pop_back_of_def mset_last_butlast split: if_splits)

lemma mpq_emplace_ok:
  assumes "mpq_ok q"
  shows "mpq_ok (mpq_emplace q v)" "mset (m_heap (mpq_emplace q v)) = add_mset v (mset (m_heap q))"
proof -
  have "length (push_heap (m_compare q) (m_heap q @ [v])) = Suc (length (m_heap q))"
    by (simp add: push_heap_def length_sift_up)
  then show "mpq_ok (mpq_emplace q v)"
    using assms push_heap_heap by (auto simp: mpq_ok_def mpq_emplace_def)
  show "mset (m_heap (mpq_emplace q v)) = add_mset v (mset (m_heap q))"
    by (simp add: mpq_emplace_def mset_push_heap)
qed

lemma mpq_pop_move_ok:
  assumes ok: "mpq_ok q" and pop: "mpq_pop_move q = Some (x, q')"
  shows "mpq_ok q'" "mset (m_heap q) = add_mset x (mset (m_heap q'))"
    "\<forall>y \<in> set (m_heap q). \<not> m_compare q x y" "m_compare q' = m_compare q"
proof -
  let ?lt = "m_compare q" and ?h = "m_heap q"
  have ne: "?h \<noteq> []" and x: "x = last (pop_heap ?lt ?h)"
    and q': "q' = q\<lparr>m_heap := butlast (pop_heap ?lt ?h)\<rparr>"
    using pop by (auto simp: mpq_pop_move_def Let_def split: if_splits)
  have swo: "strict_weak_order ?lt" and heap: "is_heap ?lt (length ?h) ?h"
    using ok by (auto simp: mpq_ok_def)
  note props = pop_heap_props [OF swo heap ne]
  show "mpq_ok q'" using swo props(1,4) q' by (simp add: mpq_ok_def)
  have "pop_heap ?lt ?h \<noteq> []" using props(1) ne by (metis length_0_conv)
  then show "mset ?h = add_mset x (mset (m_heap q'))"
    using mset_last_butlast [of "pop_heap ?lt ?h"] props(2) x q' by simp
  show "\<forall>y \<in> set ?h. \<not> ?lt x y"
    using heap_root_max [OF swo heap] props(3) x by (auto simp: in_set_conv_nth)
  show "m_compare q' = ?lt" using q' by simp
qed

lemma mpq_pop_move_defined: "m_heap q \<noteq> [] \<Longrightarrow> \<exists>x q'. mpq_pop_move q = Some (x, q')"
  by (simp add: mpq_pop_move_def Let_def)

lemma mpq_clear_ok: "mpq_ok q \<Longrightarrow> mpq_ok (mpq_clear q)"
  by (simp add: mpq_ok_def mpq_clear_def is_heap_def)

lemma mpq_fields [simp]:
  "m_heap (mpq_clear q) = []" "m_compare (mpq_clear q) = m_compare q"
  "m_compare (mpq_emplace q v) = m_compare q"
  by (simp_all add: mpq_clear_def mpq_emplace_def)

lemmas movable_pq_simps = movable_pq_ops_def mpq_size_def mpq_empty_def mpq_emplace_ok
  mpq_pop_move_defined mpq_clear_ok

interpretation movable_pq: container movable_pq_ops mpq_ok "\<lambda>q. mset (m_heap q)"
  by unfold_locales (auto simp: movable_pq_simps dest: mpq_pop_move_ok)

text \<open>With the default comparison \<open>std::less\<close>.\<close>

interpretation less_pq: priority_container movable_pq_ops
  "\<lambda>q. mpq_ok q \<and> m_compare q = ((<) :: 'a::linorder \<Rightarrow> 'a \<Rightarrow> bool)" "\<lambda>q. mset (m_heap q)" "(<)"
proof (unfold_locales, goal_cases)
  case (10 c x c' y)
  then have "\<forall>y \<in> set (m_heap c). \<not> m_compare c x y"
    using mpq_pop_move_ok(3) [of c x c'] by (simp add: movable_pq_ops_def)
  with 10 show ?case by auto
qed (auto simp: movable_pq_simps dest: mpq_pop_move_ok)

lemma length_sift_down: "length (sift_down lt h n i) = length h"
proof (induction lt h n i rule: sift_down.induct)
  case (1 lt h n i)
  then show ?case by (simp add: sift_down.simps [of lt h n i])
qed

lemma length_pop_heap: "length (pop_heap lt h) = length h"
  by (simp add: pop_heap_def length_sift_down)

lemma pq_clear_loop_empty: "length b \<le> n \<Longrightarrow> pq_clear_loop lt n b = []"
  by (induction n arbitrary: b) (auto simp: length_pop_heap)

lemma pq_pop_ok:
  assumes swo: "strict_weak_order lt" and heap: "is_heap lt (length b) b" and pop: "pq_pop lt b = Some (x, b')"
  shows "is_heap lt (length b') b'" "mset b = add_mset x (mset b')" "\<forall>y \<in> set b. \<not> lt x y"
proof -
  have ne: "b \<noteq> []" and x: "x = b ! 0" and b': "b' = butlast (pop_heap lt b)"
    using pop by (auto simp: pq_pop_def split: list.splits)
  note props = pop_heap_props [OF swo heap ne]
  show "is_heap lt (length b') b'" using props(1,4) b' by simp
  have "pop_heap lt b \<noteq> []" using props(1) ne by (metis length_0_conv)
  then show "mset b = add_mset x (mset b')"
    using mset_last_butlast [of "pop_heap lt b"] props(2,3) x b' by simp
  show "\<forall>y \<in> set b. \<not> lt x y"
    using heap_root_max [OF swo heap] x by (auto simp: in_set_conv_nth)
qed

interpretation std_pq: priority_container "priority_queue_ops ((<) :: 'a::linorder \<Rightarrow> 'a \<Rightarrow> bool)"
  "\<lambda>b. is_heap (<) (length b) b" mset "(<)"
proof (unfold_locales, goal_cases)
  case (3 c x)
  then show ?case
    using push_heap_heap [OF swo_linorder, of c x] length_sift_up [of "length c" "c @ [x]" "(<)"]
    by (simp add: priority_queue_ops_def push_heap_def)
next
  case (5 c x c')
  then show ?case using pq_pop_ok(1) [OF swo_linorder] by (simp add: priority_queue_ops_def)
next
  case (6 c x c')
  then show ?case using pq_pop_ok(2) [OF swo_linorder] by (simp add: priority_queue_ops_def)
next
  case (10 c x c' y)
  then show ?case using pq_pop_ok(3) [OF swo_linorder, of c x c'] by (auto simp: priority_queue_ops_def)
qed (auto simp: priority_queue_ops_def mset_push_heap pq_pop_def pq_clear_loop_empty is_heap_def
      split: list.splits)

section \<open>Properties\<close>

text \<open>C30: On a \<open>MovablePriorityQueue\<close> whose comparison is a strict weak order and whose vector is a
  heap, \<open>emplace\<close> keeps the heap and adds the element, and \<open>pop_move\<close> on a non-empty queue removes
  exactly one element, one that no stored element exceeds, and leaves a heap.\<close>

theorem movable_pq_pop_max:
  assumes "mpq_ok q"
  shows "mpq_ok (mpq_emplace q v) \<and> mset (m_heap (mpq_emplace q v)) = add_mset v (mset (m_heap q)) \<and>
    (m_heap q \<noteq> [] \<longrightarrow> (\<exists>x q'. mpq_pop_move q = Some (x, q') \<and> mpq_ok q' \<and>
       mset (m_heap q) = add_mset x (mset (m_heap q')) \<and> (\<forall>y \<in> set (m_heap q). \<not> m_compare q x y)))"
proof -
  have "\<exists>x q'. mpq_pop_move q = Some (x, q') \<and> mpq_ok q' \<and>
      mset (m_heap q) = add_mset x (mset (m_heap q')) \<and> (\<forall>y \<in> set (m_heap q). \<not> m_compare q x y)"
    if "m_heap q \<noteq> []"
    using mpq_pop_move_defined [OF that] mpq_pop_move_ok [OF assms] by metis
  then show ?thesis using mpq_emplace_ok [OF assms] by blast
qed

theorem movable_pq_pop_max_witness:
  "mpq_ok \<lparr>m_compare = ((<) :: nat \<Rightarrow> nat \<Rightarrow> bool), m_heap = [5, 2]\<rparr> \<and>
   (\<exists>x q'. mpq_pop_move \<lparr>m_compare = ((<) :: nat \<Rightarrow> nat \<Rightarrow> bool), m_heap = [5, 2]\<rparr> = Some (x, q') \<and>
      mpq_ok q' \<and> (\<forall>y \<in> {5, 2}. \<not> x < y))"
proof -
  let ?q = "\<lparr>m_compare = ((<) :: nat \<Rightarrow> nat \<Rightarrow> bool), m_heap = [5, 2]\<rparr>"
  have ok: "mpq_ok ?q" by (auto simp: mpq_ok_def swo_linorder is_heap_def less_Suc_eq)
  with movable_pq_pop_max [OF ok, of 0] show ?thesis by auto
qed

end
