(* ===== verification/Mpmc_Queue.thy ===== *)
theory Mpmc_Queue
  imports Containers
begin

text \<open>
  The bounded multi-producer multi-consumer queue \<open>UnbMpMcTemplateQueue\<close> of
  \<^verbatim>\<open>stp/UnbMpMcTemplateQueue.hpp\<close>, generic in its traits struct \<open>Ops\<close>.  Every function is one
  section run under \<open>m_mutex\<close>.  A blocking operation is cut where it releases the mutex in a
  condition-variable wait: its first section either is \<open>Done\<close> or ends in \<open>Wait\<close>, a \<open>_wake\<close> section
  runs when the thread owns the mutex again after a notification (or a spurious wake-up), a
  \<open>_timeout\<close> section when the deadline of a timed wait has passed.  \<open>Undef\<close> marks a pop of an empty
  container.  The second half puts any number of threads on one queue and follows the sleeping and
  the notified threads of both condition variables.
\<close>

section \<open>The queue object\<close>

datatype container_state = q_open | q_closing

datatype put_result = put_accepted | put_closed | put_full | put_timeout

datatype take_erc = take_item | take_timeout | take_closed

record 'a take_result =
  tr_result :: "'a option"
  tr_erc :: take_erc

record 'c mpmc =
  q_state :: container_state
  q_maxQueueSize :: nat
  q_buffer :: 'c

definition over_limit :: "('c, 'a) container_ops \<Rightarrow> 'c mpmc \<Rightarrow> bool" where
  "over_limit Ops q \<longleftrightarrow>
     ops_size Ops (q_buffer q) + 1 > q_maxQueueSize q \<and> q_maxQueueSize q \<noteq> 0"

definition push_task :: "('c, 'a) container_ops \<Rightarrow> 'c mpmc \<Rightarrow> 'a \<Rightarrow> 'c mpmc" where
  "push_task Ops q x = q\<lparr>q_buffer := ops_push Ops (q_buffer q) x\<rparr>"

definition queue_put ::
  "('c, 'a) container_ops \<Rightarrow> 'c mpmc \<Rightarrow> 'a \<Rightarrow> 'c mpmc \<times> put_result" where
  "queue_put Ops q x =
     (if q_state q \<noteq> q_open then (q, put_closed)
      else if over_limit Ops q then (q, put_full)
      else (push_task Ops q x, put_accepted))"

text \<open>The loop head shared by \<open>put_wait\<close> and \<open>put_wait_for\<close>, and the predicate both waits carry.\<close>

definition put_wait_loop ::
  "('c, 'a) container_ops \<Rightarrow> 'c mpmc \<Rightarrow> 'a \<Rightarrow> ('c mpmc \<times> put_result) locked_section" where
  "put_wait_loop Ops q x =
     (if over_limit Ops q
      then if q_state q = q_closing then Done (q, put_closed) else Wait
      else Done (push_task Ops q x, put_accepted))"

definition put_wait_pred :: "('c, 'a) container_ops \<Rightarrow> 'c mpmc \<Rightarrow> bool" where
  "put_wait_pred Ops q \<longleftrightarrow>
     q_state q = q_closing \<or> ops_size Ops (q_buffer q) < q_maxQueueSize q"

definition put_wait ::
  "('c, 'a) container_ops \<Rightarrow> 'c mpmc \<Rightarrow> 'a \<Rightarrow> ('c mpmc \<times> put_result) locked_section" where
  "put_wait Ops q x =
     (if q_state q \<noteq> q_open then Done (q, put_closed) else put_wait_loop Ops q x)"

definition put_wait_wake ::
  "('c, 'a) container_ops \<Rightarrow> 'c mpmc \<Rightarrow> 'a \<Rightarrow> ('c mpmc \<times> put_result) locked_section" where
  "put_wait_wake Ops q x =
     (if \<not> put_wait_pred Ops q then Wait
      else if q_state q = q_closing then Done (q, put_closed)
      else put_wait_loop Ops q x)"

text \<open>\<open>put_wait_for\<close> enters and wakes as \<open>put_wait\<close> does; its deadline ends the wait.\<close>

definition put_wait_for ::
  "('c, 'a) container_ops \<Rightarrow> 'c mpmc \<Rightarrow> 'a \<Rightarrow> ('c mpmc \<times> put_result) locked_section" where
  "put_wait_for Ops q x =
     (if q_state q \<noteq> q_open then Done (q, put_closed) else put_wait_loop Ops q x)"

definition put_wait_for_timeout ::
  "('c, 'a) container_ops \<Rightarrow> 'c mpmc \<Rightarrow> 'a \<Rightarrow> ('c mpmc \<times> put_result) locked_section" where
  "put_wait_for_timeout Ops q x =
     (if \<not> put_wait_pred Ops q then Done (q, put_timeout)
      else if q_state q = q_closing then Done (q, put_closed)
      else put_wait_loop Ops q x)"

definition takeLocked :: "('c, 'a) container_ops \<Rightarrow> 'c mpmc \<Rightarrow> ('a \<times> 'c mpmc) locked_section" where
  "takeLocked Ops q =
     (case ops_pop Ops (q_buffer q) of
        None \<Rightarrow> Undef
      | Some (x, b) \<Rightarrow> Done (x, q\<lparr>q_buffer := b\<rparr>))"

text \<open>The deprecated \<open>take\<close>: it neither looks at the queue's state nor notifies \<open>m_notFull\<close>.\<close>

definition queue_take :: "('c, 'a) container_ops \<Rightarrow> 'c mpmc \<Rightarrow> ('a \<times> 'c mpmc) locked_section" where
  "queue_take Ops q = (if ops_empty Ops (q_buffer q) then Wait else takeLocked Ops q)"

definition take_item_of ::
  "('a \<times> 'c mpmc) locked_section \<Rightarrow> ('c mpmc \<times> 'a take_result) locked_section" where
  "take_item_of r =
     (case r of
        Done (x, q) \<Rightarrow> Done (q, \<lparr>tr_result = Some x, tr_erc = take_item\<rparr>)
      | Wait \<Rightarrow> Wait
      | Undef \<Rightarrow> Undef)"

definition tryTake_wake ::
  "('c, 'a) container_ops \<Rightarrow> 'c mpmc \<Rightarrow> ('c mpmc \<times> 'a take_result) locked_section" where
  "tryTake_wake Ops q =
     (if \<not> (q_state q = q_closing \<or> \<not> ops_empty Ops (q_buffer q)) then Wait
      else if q_state q = q_closing \<and> ops_empty Ops (q_buffer q)
           then Done (q, \<lparr>tr_result = None, tr_erc = take_closed\<rparr>)
      else take_item_of (takeLocked Ops q))"

definition tryTake ::
  "('c, 'a) container_ops \<Rightarrow> 'c mpmc \<Rightarrow> ('c mpmc \<times> 'a take_result) locked_section" where
  "tryTake Ops q =
     (if \<not> ops_empty Ops (q_buffer q) then take_item_of (takeLocked Ops q)
      else tryTake_wake Ops q)"

definition tryTake_timeout ::
  "('c, 'a) container_ops \<Rightarrow> 'c mpmc \<Rightarrow> ('c mpmc \<times> 'a take_result) locked_section" where
  "tryTake_timeout Ops q =
     (if \<not> (q_state q = q_closing \<or> \<not> ops_empty Ops (q_buffer q))
      then Done (q, \<lparr>tr_result = None, tr_erc = take_timeout\<rparr>)
      else tryTake_wake Ops q)"

definition queue_empty :: "('c, 'a) container_ops \<Rightarrow> 'c mpmc \<Rightarrow> bool" where
  "queue_empty Ops q = ops_empty Ops (q_buffer q)"

definition queue_size :: "('c, 'a) container_ops \<Rightarrow> 'c mpmc \<Rightarrow> nat" where
  "queue_size Ops q = ops_size Ops (q_buffer q)"

definition queue_clear :: "('c, 'a) container_ops \<Rightarrow> 'c mpmc \<Rightarrow> 'c mpmc" where
  "queue_clear Ops q = q\<lparr>q_buffer := ops_clear Ops (q_buffer q)\<rparr>"

definition queue_close :: "'c mpmc \<Rightarrow> 'c mpmc" where
  "queue_close q = q\<lparr>q_state := q_closing\<rparr>"

definition set_queue_max_size :: "'c mpmc \<Rightarrow> nat \<Rightarrow> 'c mpmc" where
  "set_queue_max_size q n = q\<lparr>q_maxQueueSize := n\<rparr>"

definition new_queue :: "'c \<Rightarrow> nat \<Rightarrow> 'c mpmc" where
  "new_queue b n = \<lparr>q_state = q_open, q_maxQueueSize = n, q_buffer = b\<rparr>"

section \<open>Threads on one queue\<close>

text \<open>
  \<open>m_notFull\<close> has the payloads of the submitters asleep on it and of those already notified;
  \<open>m_notEmptyQueue\<close> counts takers the same way.  \<open>notFull_due\<close> counts takers that have unlocked the
  mutex and not yet called \<open>m_notFull.notify_one()\<close>, \<open>close_due\<close> closers before their two
  \<open>notify_all()\<close> calls.  \<open>g_accepted\<close> and \<open>g_taken\<close> are the history of the elements.
\<close>

record ('c, 'a) queue_sys =
  sys_q :: "'c mpmc"
  putters_blocked :: "'a multiset"
  putters_woken :: "'a multiset"
  takers_blocked :: nat
  takers_woken :: nat
  notFull_due :: nat
  close_due :: nat
  g_accepted :: "'a list"
  g_taken :: "'a list"

definition queue_sys_init :: "'c \<Rightarrow> nat \<Rightarrow> ('c, 'a) queue_sys" where
  "queue_sys_init b n =
     \<lparr>sys_q = new_queue b n, putters_blocked = {#}, putters_woken = {#}, takers_blocked = 0,
      takers_woken = 0, notFull_due = 0, close_due = 0, g_accepted = [], g_taken = []\<rparr>"

text \<open>\<open>m_notEmptyQueue.notify_one()\<close>.\<close>

definition notify_taker :: "('c, 'a) queue_sys \<Rightarrow> ('c, 'a) queue_sys" where
  "notify_taker s =
     (if takers_blocked s = 0 then s
      else s\<lparr>takers_blocked := takers_blocked s - 1, takers_woken := takers_woken s + 1\<rparr>)"

text \<open>The end of a put section: an accepted element is recorded and one taker is notified.\<close>

definition finish_put :: "('c, 'a) queue_sys \<Rightarrow> 'a \<Rightarrow> 'c mpmc \<times> put_result \<Rightarrow> ('c, 'a) queue_sys" where
  "finish_put s x r =
     (case r of (q, e) \<Rightarrow>
        if e = put_accepted
        then notify_taker (s\<lparr>sys_q := q, g_accepted := g_accepted s @ [x]\<rparr>)
        else s\<lparr>sys_q := q\<rparr>)"

text \<open>The end of a take section: a taken element owes \<open>m_notFull\<close> a notification.\<close>

definition finish_take :: "('c, 'a) queue_sys \<Rightarrow> 'c mpmc \<times> 'a take_result \<Rightarrow> ('c, 'a) queue_sys" where
  "finish_take s r =
     (case r of (q, t) \<Rightarrow>
        (case tr_result t of
           Some x \<Rightarrow> s\<lparr>sys_q := q, g_taken := g_taken s @ [x], notFull_due := notFull_due s + 1\<rparr>
         | None \<Rightarrow> s\<lparr>sys_q := q\<rparr>))"

inductive queue_step ::
  "('c, 'a) container_ops \<Rightarrow> ('c, 'a) queue_sys \<Rightarrow> ('c, 'a) queue_sys \<Rightarrow> bool"
  for Ops :: "('c, 'a) container_ops" where
  step_put: "queue_step Ops s (finish_put s x (queue_put Ops (sys_q s) x))"
| step_put_wait: "put_wait Ops (sys_q s) x = Done r \<Longrightarrow> queue_step Ops s (finish_put s x r)"
| step_put_sleep: "put_wait Ops (sys_q s) x = Wait \<Longrightarrow>
    queue_step Ops s (s\<lparr>putters_blocked := add_mset x (putters_blocked s)\<rparr>)"
| step_put_wake: "x \<in># putters_woken s \<Longrightarrow> put_wait_wake Ops (sys_q s) x = Done r \<Longrightarrow>
    queue_step Ops s (finish_put (s\<lparr>putters_woken := putters_woken s - {#x#}\<rparr>) x r)"
| step_put_sleep_again: "x \<in># putters_woken s \<Longrightarrow> put_wait_wake Ops (sys_q s) x = Wait \<Longrightarrow>
    queue_step Ops s (s\<lparr>putters_woken := putters_woken s - {#x#},
                        putters_blocked := add_mset x (putters_blocked s)\<rparr>)"
| step_put_timeout: "x \<in># putters_blocked s \<Longrightarrow> put_wait_for_timeout Ops (sys_q s) x = Done r \<Longrightarrow>
    queue_step Ops s (finish_put (s\<lparr>putters_blocked := putters_blocked s - {#x#}\<rparr>) x r)"
| step_put_woken_timeout: "x \<in># putters_woken s \<Longrightarrow> put_wait_for_timeout Ops (sys_q s) x = Done r \<Longrightarrow>
    queue_step Ops s (finish_put (s\<lparr>putters_woken := putters_woken s - {#x#}\<rparr>) x r)"
| step_put_spurious: "x \<in># putters_blocked s \<Longrightarrow>
    queue_step Ops s (s\<lparr>putters_blocked := putters_blocked s - {#x#},
                        putters_woken := add_mset x (putters_woken s)\<rparr>)"
| step_take: "tryTake Ops (sys_q s) = Done r \<Longrightarrow> queue_step Ops s (finish_take s r)"
| step_take_sleep: "tryTake Ops (sys_q s) = Wait \<Longrightarrow>
    queue_step Ops s (s\<lparr>takers_blocked := takers_blocked s + 1\<rparr>)"
| step_take_wake: "0 < takers_woken s \<Longrightarrow> tryTake_wake Ops (sys_q s) = Done r \<Longrightarrow>
    queue_step Ops s (finish_take (s\<lparr>takers_woken := takers_woken s - 1\<rparr>) r)"
| step_take_sleep_again: "0 < takers_woken s \<Longrightarrow> tryTake_wake Ops (sys_q s) = Wait \<Longrightarrow>
    queue_step Ops s (s\<lparr>takers_woken := takers_woken s - 1, takers_blocked := takers_blocked s + 1\<rparr>)"
| step_take_timeout: "0 < takers_blocked s \<Longrightarrow> tryTake_timeout Ops (sys_q s) = Done r \<Longrightarrow>
    queue_step Ops s (finish_take (s\<lparr>takers_blocked := takers_blocked s - 1\<rparr>) r)"
| step_take_woken_timeout: "0 < takers_woken s \<Longrightarrow> tryTake_timeout Ops (sys_q s) = Done r \<Longrightarrow>
    queue_step Ops s (finish_take (s\<lparr>takers_woken := takers_woken s - 1\<rparr>) r)"
| step_take_spurious: "0 < takers_blocked s \<Longrightarrow>
    queue_step Ops s (s\<lparr>takers_blocked := takers_blocked s - 1, takers_woken := takers_woken s + 1\<rparr>)"
| step_notify_notFull: "0 < notFull_due s \<Longrightarrow> x \<in># putters_blocked s \<Longrightarrow>
    queue_step Ops s (s\<lparr>notFull_due := notFull_due s - 1, putters_blocked := putters_blocked s - {#x#},
                        putters_woken := add_mset x (putters_woken s)\<rparr>)"
| step_notify_nobody: "0 < notFull_due s \<Longrightarrow> putters_blocked s = {#} \<Longrightarrow>
    queue_step Ops s (s\<lparr>notFull_due := notFull_due s - 1\<rparr>)"
| step_close: "queue_step Ops s (s\<lparr>sys_q := queue_close (sys_q s), close_due := close_due s + 1\<rparr>)"
| step_close_notify: "0 < close_due s \<Longrightarrow>
    queue_step Ops s (s\<lparr>close_due := close_due s - 1,
                        putters_woken := putters_woken s + putters_blocked s, putters_blocked := {#},
                        takers_woken := takers_woken s + takers_blocked s, takers_blocked := 0\<rparr>)"

text \<open>The remaining operations of the class: the deprecated \<open>take\<close>, \<open>clear\<close> and
  \<open>set_queue_max_size\<close>, none of which notifies \<open>m_notFull\<close>.\<close>

inductive queue_step_legacy ::
  "('c, 'a) container_ops \<Rightarrow> ('c, 'a) queue_sys \<Rightarrow> ('c, 'a) queue_sys \<Rightarrow> bool"
  for Ops :: "('c, 'a) container_ops" where
  legacy_queue: "queue_step Ops s t \<Longrightarrow> queue_step_legacy Ops s t"
| legacy_take: "queue_take Ops (sys_q s) = Done (x, q) \<Longrightarrow>
    queue_step_legacy Ops s (s\<lparr>sys_q := q, g_taken := g_taken s @ [x]\<rparr>)"
| legacy_clear: "queue_step_legacy Ops s (s\<lparr>sys_q := queue_clear Ops (sys_q s)\<rparr>)"
| legacy_max: "queue_step_legacy Ops s (s\<lparr>sys_q := set_queue_max_size (sys_q s) n\<rparr>)"

text \<open>Nothing is under way: no notified thread, no notification still owed.\<close>

definition quiescent :: "('c, 'a) queue_sys \<Rightarrow> bool" where
  "quiescent s \<longleftrightarrow>
     putters_woken s = {#} \<and> takers_woken s = 0 \<and> notFull_due s = 0 \<and> close_due s = 0"

section \<open>The invariant of a queue shared by threads\<close>

text \<open>
  Elements are conserved, the bound holds, and no wake-up is lost: while the queue is open, a
  submitter sleeps only if every free slot already has a notified submitter or an owed
  notification, a taker sleeps only if every queued element has a notified taker; once the queue is
  closing, a sleeper has a pending \<open>notify_all\<close>.
\<close>

definition queue_inv ::
  "('c, 'a) container_ops \<Rightarrow> ('c \<Rightarrow> bool) \<Rightarrow> ('c \<Rightarrow> 'a multiset) \<Rightarrow> nat \<Rightarrow> ('c, 'a) queue_sys \<Rightarrow> bool" where
  "queue_inv Ops ok elems n s \<longleftrightarrow>
     ok (q_buffer (sys_q s)) \<and>
     q_maxQueueSize (sys_q s) = n \<and>
     mset (g_accepted s) = mset (g_taken s) + elems (q_buffer (sys_q s)) \<and>
     (n \<noteq> 0 \<longrightarrow> queue_size Ops (sys_q s) \<le> n) \<and>
     (n = 0 \<longrightarrow> putters_blocked s = {#} \<and> putters_woken s = {#}) \<and>
     (q_state (sys_q s) = q_open \<longrightarrow> putters_blocked s \<noteq> {#} \<longrightarrow>
        n \<le> queue_size Ops (sys_q s) + size (putters_woken s) + notFull_due s) \<and>
     (q_state (sys_q s) = q_open \<longrightarrow> 0 < takers_blocked s \<longrightarrow>
        queue_size Ops (sys_q s) \<le> takers_woken s) \<and>
     (q_state (sys_q s) = q_closing \<longrightarrow> putters_blocked s \<noteq> {#} \<or> 0 < takers_blocked s \<longrightarrow>
        0 < close_due s)"

lemmas put_section_defs = queue_put_def put_wait_def put_wait_loop_def put_wait_wake_def
  put_wait_for_def put_wait_for_timeout_def put_wait_pred_def over_limit_def

lemmas take_section_defs = tryTake_def tryTake_wake_def tryTake_timeout_def take_item_of_def
  takeLocked_def

lemma push_task_fields [simp]:
  "q_state (push_task Ops q x) = q_state q"
  "q_maxQueueSize (push_task Ops q x) = q_maxQueueSize q"
  "q_buffer (push_task Ops q x) = ops_push Ops (q_buffer q) x"
  by (simp_all add: push_task_def)

lemma queue_close_fields [simp]:
  "q_state (queue_close q) = q_closing"
  "q_maxQueueSize (queue_close q) = q_maxQueueSize q"
  "q_buffer (queue_close q) = q_buffer q"
  by (simp_all add: queue_close_def)

lemma closing_iff [simp]: "q_state q = q_closing \<longleftrightarrow> q_state q \<noteq> q_open"
  by (cases "q_state q") auto

context container
begin

lemma tryTake_done_cases:
  assumes "ok (q_buffer q)"
    and "tryTake Ops q = Done r \<or> tryTake_wake Ops q = Done r \<or> tryTake_timeout Ops q = Done r"
  shows "(\<exists>e. r = (q, \<lparr>tr_result = None, tr_erc = e\<rparr>)) \<and> ops_size Ops (q_buffer q) = 0 \<or>
    (\<exists>x b. r = (q\<lparr>q_buffer := b\<rparr>, \<lparr>tr_result = Some x, tr_erc = take_item\<rparr>) \<and> ok b \<and>
       elems (q_buffer q) = add_mset x (elems b) \<and> ops_size Ops (q_buffer q) = Suc (ops_size Ops b))"
  using assms
  by (auto simp: take_section_defs empty_size intro: pop_ok pop_elems pop_size
      split: if_splits option.splits locked_section.splits)

lemma queue_inv_init:
  "ok b \<Longrightarrow> elems b = {#} \<Longrightarrow> queue_inv Ops ok elems n (queue_sys_init b n)"
  by (simp add: queue_inv_def queue_sys_init_def new_queue_def queue_size_def size_elems)

lemma queue_inv_accept:
  assumes inv: "queue_inv Ops ok elems n s" and room: "q_state (sys_q s) = q_open" "\<not> over_limit Ops (sys_q s)"
    and sleepers: "B \<noteq> {#} \<Longrightarrow> putters_blocked s \<noteq> {#}" "size (putters_woken s) \<le> size A + 1"
      "n = 0 \<Longrightarrow> A = {#}"
  shows "queue_inv Ops ok elems n (finish_put (s\<lparr>putters_woken := A, putters_blocked := B\<rparr>) x
    (push_task Ops (sys_q s) x, put_accepted))"
proof -
  have ok: "ok (q_buffer (sys_q s))" and max: "q_maxQueueSize (sys_q s) = n"
    using inv by (simp_all add: queue_inv_def)
  note push = push_ok [OF ok, of x] push_elems [OF ok, of x] push_size [OF ok, of x]
  have room': "n \<noteq> 0 \<Longrightarrow> ops_size Ops (q_buffer (sys_q s)) < n"
    using room(2) max by (simp add: over_limit_def)
  show ?thesis
  proof (cases "takers_blocked s = 0")
    case True
    then show ?thesis
      using inv push room(1) room' sleepers max
      by (auto simp: queue_inv_def queue_size_def finish_put_def notify_taker_def)
  next
    case False
    then show ?thesis
      using inv push room(1) room' sleepers max
      by (auto simp: queue_inv_def queue_size_def finish_put_def notify_taker_def)
  qed
qed

lemma queue_inv_reject:
  assumes inv: "queue_inv Ops ok elems n s" and e: "e \<noteq> put_accepted"
    and full: "q_state (sys_q s) = q_closing \<or> n \<le> ops_size Ops (q_buffer (sys_q s))"
    and sleepers: "B \<noteq> {#} \<Longrightarrow> putters_blocked s \<noteq> {#}" "n = 0 \<Longrightarrow> A = {#}"
  shows "queue_inv Ops ok elems n (finish_put (s\<lparr>putters_woken := A, putters_blocked := B\<rparr>) x (sys_q s, e))"
  using assms by (auto simp: queue_inv_def queue_size_def finish_put_def)

text \<open>Every put section that is done either accepted with room in an open queue, or changed
  nothing.\<close>

lemma put_done_cases:
  assumes "queue_put Ops q x = r \<or> put_wait Ops q x = Done r \<or> put_wait_wake Ops q x = Done r \<or>
     put_wait_for_timeout Ops q x = Done r"
  shows "(q_state q = q_open \<and> \<not> over_limit Ops q \<and> r = (push_task Ops q x, put_accepted)) \<or>
    (\<exists>e. e \<noteq> put_accepted \<and> r = (q, e) \<and>
       (q_state q = q_closing \<or> q_maxQueueSize q \<le> ops_size Ops (q_buffer q)))"
  using assms by (elim disjE) (auto simp: put_section_defs split: if_splits)

lemma put_wait_sleeps:
  assumes "put_wait Ops q x = Wait \<or> put_wait_wake Ops q x = Wait"
  shows "q_state q = q_open \<and> q_maxQueueSize q \<le> ops_size Ops (q_buffer q)"
  using assms by (elim disjE) (auto simp: put_section_defs split: if_splits)

lemma queue_inv_finish_put:
  assumes inv: "queue_inv Ops ok elems n s"
    and r: "queue_put Ops (sys_q s) x = r \<or> put_wait Ops (sys_q s) x = Done r \<or>
      put_wait_wake Ops (sys_q s) x = Done r \<or> put_wait_for_timeout Ops (sys_q s) x = Done r"
    and sleepers: "B \<noteq> {#} \<Longrightarrow> putters_blocked s \<noteq> {#}" "size (putters_woken s) \<le> size A + 1"
      "n = 0 \<Longrightarrow> A = {#}"
  shows "queue_inv Ops ok elems n (finish_put (s\<lparr>putters_woken := A, putters_blocked := B\<rparr>) x r)"
proof -
  have "q_maxQueueSize (sys_q s) = n" using inv by (simp add: queue_inv_def)
  with put_done_cases [OF r] show ?thesis
    using queue_inv_accept [OF inv _ _ sleepers] queue_inv_reject [OF inv _ _ sleepers(1,3)] by auto
qed

lemma queue_inv_unlimited: "queue_inv Ops ok elems n s \<Longrightarrow> n = 0 \<Longrightarrow> putters_blocked s = {#} \<and> putters_woken s = {#}"
  by (simp add: queue_inv_def)

lemma queue_inv_put_steps:
  assumes inv: "queue_inv Ops ok elems n s"
  shows "queue_inv Ops ok elems n (finish_put s x (queue_put Ops (sys_q s) x))"
    and "put_wait Ops (sys_q s) x = Done r \<Longrightarrow> queue_inv Ops ok elems n (finish_put s x r)"
  using queue_inv_finish_put [OF inv, where A = "putters_woken s" and B = "putters_blocked s"]
    queue_inv_unlimited [OF inv] by auto

lemma queue_inv_put_sleep:
  assumes inv: "queue_inv Ops ok elems n s"
  shows "put_wait Ops (sys_q s) x = Wait \<Longrightarrow>
      queue_inv Ops ok elems n (s\<lparr>putters_blocked := add_mset x (putters_blocked s)\<rparr>)"
    and "put_wait_wake Ops (sys_q s) x = Wait \<Longrightarrow> x \<in># putters_woken s \<Longrightarrow>
      queue_inv Ops ok elems n (s\<lparr>putters_woken := putters_woken s - {#x#},
        putters_blocked := add_mset x (putters_blocked s)\<rparr>)"
proof -
  assume w: "put_wait Ops (sys_q s) x = Wait"
  have "q_maxQueueSize (sys_q s) \<noteq> 0"
    using w by (auto simp: put_section_defs split: if_splits)
  then show "queue_inv Ops ok elems n (s\<lparr>putters_blocked := add_mset x (putters_blocked s)\<rparr>)"
    using inv put_wait_sleeps [of "sys_q s" x] w by (auto simp: queue_inv_def queue_size_def)
next
  assume "put_wait_wake Ops (sys_q s) x = Wait" "x \<in># putters_woken s"
  then show "queue_inv Ops ok elems n (s\<lparr>putters_woken := putters_woken s - {#x#},
        putters_blocked := add_mset x (putters_blocked s)\<rparr>)"
    using inv put_wait_sleeps [of "sys_q s" x] by (auto simp: queue_inv_def queue_size_def)
qed

lemma queue_inv_putter_steps:
  assumes inv: "queue_inv Ops ok elems n s" and woken: "x \<in># putters_woken s"
    and r: "put_wait_wake Ops (sys_q s) x = Done r \<or> put_wait_for_timeout Ops (sys_q s) x = Done r"
  shows "queue_inv Ops ok elems n (finish_put (s\<lparr>putters_woken := putters_woken s - {#x#}\<rparr>) x r)"
  using queue_inv_finish_put [OF inv, where A = "putters_woken s - {#x#}" and B = "putters_blocked s"] r
    queue_inv_unlimited [OF inv] woken by (auto simp: size_Diff_singleton)

lemma queue_inv_sleeper_steps:
  assumes inv: "queue_inv Ops ok elems n s" and blocked: "x \<in># putters_blocked s"
  shows "put_wait_for_timeout Ops (sys_q s) x = Done r \<Longrightarrow>
      queue_inv Ops ok elems n (finish_put (s\<lparr>putters_blocked := putters_blocked s - {#x#}\<rparr>) x r)"
    and "queue_inv Ops ok elems n (s\<lparr>putters_blocked := putters_blocked s - {#x#},
      putters_woken := add_mset x (putters_woken s)\<rparr>)"
    and "0 < notFull_due s \<Longrightarrow>
      queue_inv Ops ok elems n (s\<lparr>notFull_due := notFull_due s - 1,
        putters_blocked := putters_blocked s - {#x#}, putters_woken := add_mset x (putters_woken s)\<rparr>)"
proof -
  have ne: "putters_blocked s \<noteq> {#}" using blocked by auto
  show "put_wait_for_timeout Ops (sys_q s) x = Done r \<Longrightarrow>
      queue_inv Ops ok elems n (finish_put (s\<lparr>putters_blocked := putters_blocked s - {#x#}\<rparr>) x r)"
    using queue_inv_finish_put [OF inv, where A = "putters_woken s" and B = "putters_blocked s - {#x#}"]
      queue_inv_unlimited [OF inv] ne by simp
qed (use inv blocked in \<open>auto simp: queue_inv_def\<close>)

lemma queue_inv_finish_take:
  assumes inv: "queue_inv Ops ok elems n s"
    and r: "tryTake Ops (sys_q s) = Done r \<or> tryTake_wake Ops (sys_q s) = Done r \<or>
      tryTake_timeout Ops (sys_q s) = Done r"
    and takers: "takers_woken s \<le> w + 1" "0 < k \<Longrightarrow> 0 < takers_blocked s"
  shows "queue_inv Ops ok elems n (finish_take (s\<lparr>takers_woken := w, takers_blocked := k\<rparr>) r)"
proof -
  have "ok (q_buffer (sys_q s))" using inv by (simp add: queue_inv_def)
  from tryTake_done_cases [OF this r] show ?thesis
  proof (elim disjE conjE exE)
    fix e assume "r = (sys_q s, \<lparr>tr_result = None, tr_erc = e\<rparr>)" "ops_size Ops (q_buffer (sys_q s)) = 0"
    then show ?thesis using inv takers(2) by (simp add: finish_take_def queue_inv_def queue_size_def)
  next
    fix x b
    assume "r = (sys_q s\<lparr>q_buffer := b\<rparr>, \<lparr>tr_result = Some x, tr_erc = take_item\<rparr>)" "ok b"
      "elems (q_buffer (sys_q s)) = add_mset x (elems b)"
      "ops_size Ops (q_buffer (sys_q s)) = Suc (ops_size Ops b)"
    then show ?thesis
      using inv takers by (auto simp: finish_take_def queue_inv_def queue_size_def)
  qed
qed

lemma queue_inv_take_steps:
  assumes inv: "queue_inv Ops ok elems n s"
    and r: "tryTake Ops (sys_q s) = Done r \<or> tryTake_wake Ops (sys_q s) = Done r \<or>
      tryTake_timeout Ops (sys_q s) = Done r"
  shows "queue_inv Ops ok elems n (finish_take s r)"
    and "queue_inv Ops ok elems n (finish_take (s\<lparr>takers_woken := takers_woken s - 1\<rparr>) r)"
    and "queue_inv Ops ok elems n (finish_take (s\<lparr>takers_blocked := takers_blocked s - 1\<rparr>) r)"
  using queue_inv_finish_take [OF inv r, of "takers_woken s" "takers_blocked s"]
    queue_inv_finish_take [OF inv r, of "takers_woken s - 1" "takers_blocked s"]
    queue_inv_finish_take [OF inv r, of "takers_woken s" "takers_blocked s - 1"] by simp_all

lemma queue_inv_taker_steps:
  assumes "queue_inv Ops ok elems n s"
  shows "tryTake Ops (sys_q s) = Wait \<Longrightarrow>
      queue_inv Ops ok elems n (s\<lparr>takers_blocked := takers_blocked s + 1\<rparr>)"
    and "0 < takers_woken s \<Longrightarrow> tryTake_wake Ops (sys_q s) = Wait \<Longrightarrow>
      queue_inv Ops ok elems n
        (s\<lparr>takers_woken := takers_woken s - 1, takers_blocked := takers_blocked s + 1\<rparr>)"
    and "0 < takers_blocked s \<Longrightarrow> queue_inv Ops ok elems n
        (s\<lparr>takers_blocked := takers_blocked s - 1, takers_woken := takers_woken s + 1\<rparr>)"
  using assms
  by (auto simp: queue_inv_def queue_size_def take_section_defs empty_size
      split: if_splits option.splits locked_section.splits)

lemma queue_inv_step:
  assumes inv: "queue_inv Ops ok elems n s" and step: "queue_step Ops s t"
  shows "queue_inv Ops ok elems n t"
  using step
proof cases
  case step_notify_nobody
  then show ?thesis using inv by (auto simp: queue_inv_def)
next
  case step_close
  then show ?thesis using inv by (auto simp: queue_inv_def queue_size_def)
next
  case step_close_notify
  then show ?thesis using inv by (auto simp: queue_inv_def)
qed (blast intro: queue_inv_put_steps [OF inv] queue_inv_put_sleep [OF inv] queue_inv_putter_steps [OF inv]
    queue_inv_sleeper_steps [OF inv] queue_inv_take_steps [OF inv] queue_inv_taker_steps [OF inv])+

end

text \<open>Over a first-in first-out container the history splits into what was taken and what is
  still queued, in order.\<close>

definition fifo_inv ::
  "('c \<Rightarrow> bool) \<Rightarrow> ('c \<Rightarrow> 'a list) \<Rightarrow> ('c, 'a) queue_sys \<Rightarrow> bool" where
  "fifo_inv ok contents s \<longleftrightarrow>
     ok (q_buffer (sys_q s)) \<and> g_accepted s = g_taken s @ contents (q_buffer (sys_q s))"

lemma notify_taker_fields [simp]:
  "sys_q (notify_taker s) = sys_q s" "g_accepted (notify_taker s) = g_accepted s"
  "g_taken (notify_taker s) = g_taken s"
  by (simp_all add: notify_taker_def)

context fifo_container
begin

lemma fifo_finish_put:
  assumes inv: "ok (q_buffer (sys_q s))" "g_accepted s = g_taken s @ contents (q_buffer (sys_q s))"
    and r: "queue_put Ops (sys_q s) x = r \<or> put_wait Ops (sys_q s) x = Done r \<or>
      put_wait_wake Ops (sys_q s) x = Done r \<or> put_wait_for_timeout Ops (sys_q s) x = Done r"
  shows "fifo_inv ok contents (finish_put s x r)"
  using put_done_cases [OF r] inv
  by (auto simp: fifo_inv_def finish_put_def push_contents push_ok)

lemma fifo_finish_take:
  assumes inv: "ok (q_buffer (sys_q s))" "g_accepted s = g_taken s @ contents (q_buffer (sys_q s))"
    and r: "tryTake Ops (sys_q s) = Done r \<or> tryTake_wake Ops (sys_q s) = Done r \<or>
      tryTake_timeout Ops (sys_q s) = Done r"
  shows "fifo_inv ok contents (finish_take s r)"
proof -
  have "(\<exists>e. r = (sys_q s, \<lparr>tr_result = None, tr_erc = e\<rparr>)) \<or>
    (\<exists>x b. r = (sys_q s\<lparr>q_buffer := b\<rparr>, \<lparr>tr_result = Some x, tr_erc = take_item\<rparr>) \<and>
       ops_pop Ops (q_buffer (sys_q s)) = Some (x, b))"
    using r by (elim disjE) (auto simp: take_section_defs split: if_splits option.splits)
  then show ?thesis
    using inv pop_contents pop_ok by (auto simp: fifo_inv_def finish_take_def)
qed

lemma fifo_inv_step:
  assumes inv: "fifo_inv ok contents s" and step: "queue_step Ops s t"
  shows "fifo_inv ok contents t"
proof -
  have i: "ok (q_buffer (sys_q s))" "g_accepted s = g_taken s @ contents (q_buffer (sys_q s))"
    using inv by (simp_all add: fifo_inv_def)
  from step show ?thesis
    by cases (use i in \<open>auto intro!: fifo_finish_put fifo_finish_take\<close>, (simp add: fifo_inv_def)+)
qed

end

section \<open>The queues of the library\<close>

abbreviation deque_start :: "nat \<Rightarrow> ('a list, 'a) queue_sys \<Rightarrow> bool" where
  "deque_start n s \<equiv> s = queue_sys_init [] n"

lemma deque_reach_start: "reach (deque_start n) stp (queue_sys_init [] n)"
  by (rule reach_start) simp

interpretation deque_queue: invariant_machine "deque_start n" "queue_step deque_ops"
  "queue_inv deque_ops (\<lambda>_. True) mset n" for n
  by unfold_locales (auto intro: deque.queue_inv_init deque.queue_inv_step)

interpretation deque_fifo: invariant_machine "deque_start n" "queue_step deque_ops"
  "fifo_inv (\<lambda>_. True) (\<lambda>c. c)" for n
  by unfold_locales
    (simp add: fifo_inv_def queue_sys_init_def new_queue_def, rule deque.fifo_inv_step)

interpretation vector_queue: invariant_machine "deque_start n" "queue_step vector_ops"
  "queue_inv vector_ops (\<lambda>_. True) mset n" for n
  by unfold_locales (auto intro: vector.queue_inv_init vector.queue_inv_step)

text \<open>\<open>k\<close> calls of \<open>tryTake\<close> one after the other, as long as they do not block.\<close>

fun take_results :: "('c, 'a) container_ops \<Rightarrow> nat \<Rightarrow> 'c mpmc \<Rightarrow> 'a take_result list" where
  "take_results Ops 0 q = []"
| "take_results Ops (Suc k) q =
     (case tryTake Ops q of Done (q', r) \<Rightarrow> r # take_results Ops k q' | _ \<Rightarrow> [])"

lemma deque_ops_fields [simp]:
  "ops_push deque_ops b x = b @ [x]" "ops_empty deque_ops b \<longleftrightarrow> b = []"
  "ops_size deque_ops b = length b" "ops_clear deque_ops b = []"
  "ops_pop deque_ops [] = None" "ops_pop deque_ops (x # b) = Some (x, b)"
  by (simp_all add: deque_ops_def pop_front_of_def)

text \<open>C2: Whatever threads do with \<open>put\<close>, \<open>put_wait\<close>, \<open>put_wait_for\<close>, \<open>tryTake\<close> and \<open>close\<close> on the
  deque-backed queue, in any interleaving and with any timeouts and spurious wake-ups, elements leave
  in the order they were accepted, none is lost or duplicated, and a bounded queue never holds more
  than its limit.\<close>

theorem deque_queue_fifo_bounded:
  assumes "reach (deque_start n) (queue_step deque_ops) s"
  shows "g_accepted s = g_taken s @ q_buffer (sys_q s) \<and>
    (n \<noteq> 0 \<longrightarrow> length (q_buffer (sys_q s)) \<le> n)"
  using deque_fifo.reach_inv [OF assms] deque_queue.reach_inv [OF assms]
  by (simp add: fifo_inv_def queue_inv_def queue_size_def)

theorem deque_queue_fifo_bounded_witness:
  "let i = queue_sys_init [] 1 :: (nat list, nat) queue_sys;
       s = finish_put i 7 (queue_put deque_ops (sys_q i) 7)
   in reach (deque_start 1) (queue_step deque_ops) s \<and> g_accepted s = g_taken s @ q_buffer (sys_q s)"
proof -
  let ?i = "queue_sys_init [] 1 :: (nat list, nat) queue_sys"
  let ?s = "finish_put ?i 7 (queue_put deque_ops (sys_q ?i) 7)"
  have "reach (deque_start 1) (queue_step deque_ops) ?s"
    by (rule reach_step [OF deque_reach_start]) (rule step_put)
  with deque_queue_fifo_bounded [OF this] show ?thesis by (simp add: Let_def)
qed

text \<open>C3: No wake-up is lost on either condition variable of the deque-backed queue: when no notified
  thread is still running and no notification is owed, a submitter sleeps only on a full queue, a
  taker sleeps only on an empty queue, and nobody sleeps on a closing queue.\<close>

theorem queue_no_lost_wakeup:
  assumes "reach (deque_start n) (queue_step deque_ops) s" and "quiescent s"
  shows "(q_state (sys_q s) = q_open \<longrightarrow>
      (putters_blocked s \<noteq> {#} \<longrightarrow> n \<noteq> 0 \<and> length (q_buffer (sys_q s)) = n) \<and>
      (0 < takers_blocked s \<longrightarrow> q_buffer (sys_q s) = [])) \<and>
    (q_state (sys_q s) = q_closing \<longrightarrow> putters_blocked s = {#} \<and> takers_blocked s = 0)"
  using deque_queue.reach_inv [OF assms(1)] assms(2)
  by (auto simp: queue_inv_def queue_size_def quiescent_def)

theorem queue_no_lost_wakeup_witness:
  "let s = (queue_sys_init [] 0 :: (nat list, nat) queue_sys)\<lparr>takers_blocked := 1\<rparr>
   in reach (deque_start 0) (queue_step deque_ops) s \<and> quiescent s \<and> q_buffer (sys_q s) = []"
proof -
  let ?i = "queue_sys_init [] 0 :: (nat list, nat) queue_sys"
  let ?s = "?i\<lparr>takers_blocked := 1\<rparr>"
  have "tryTake deque_ops (sys_q ?i) = Wait"
    by (simp add: take_section_defs queue_sys_init_def new_queue_def)
  then have "queue_step deque_ops ?i (?i\<lparr>takers_blocked := takers_blocked ?i + 1\<rparr>)"
    by (rule step_take_sleep)
  then have "reach (deque_start 0) (queue_step deque_ops) ?s"
    using reach_step [OF deque_reach_start] by (simp add: queue_sys_init_def)
  moreover have "quiescent ?s" by (simp add: quiescent_def queue_sys_init_def)
  ultimately show ?thesis
    using queue_no_lost_wakeup [of 0 ?s] by (simp add: queue_sys_init_def new_queue_def)
qed

text \<open>C24: A closing queue takes no new element, and consecutive \<open>tryTake\<close> calls hand out every element
  still queued, oldest first, before the first \<open>closed\<close> answer.\<close>

theorem closing_queue_drains:
  assumes "q_state q = q_closing"
  shows "queue_put deque_ops q x = (q, put_closed) \<and> put_wait deque_ops q x = Done (q, put_closed) \<and>
    put_wait_for deque_ops q x = Done (q, put_closed) \<and>
    take_results deque_ops (length (q_buffer q) + 1) q =
      map (\<lambda>y. \<lparr>tr_result = Some y, tr_erc = take_item\<rparr>) (q_buffer q) @
      [\<lparr>tr_result = None, tr_erc = take_closed\<rparr>]"
proof -
  have "q_state q \<noteq> q_open \<Longrightarrow> take_results deque_ops (Suc (length b)) (q\<lparr>q_buffer := b\<rparr>) =
      map (\<lambda>y. \<lparr>tr_result = Some y, tr_erc = take_item\<rparr>) b @
      [\<lparr>tr_result = None, tr_erc = take_closed\<rparr>]" for b
    by (induction b) (simp_all add: take_section_defs)
  from this [of "q_buffer q"] show ?thesis
    using assms by (simp add: queue_put_def put_wait_def put_wait_for_def)
qed

theorem closing_queue_drains_witness:
  "take_results deque_ops 3 \<lparr>q_state = q_closing, q_maxQueueSize = 2, q_buffer = [4, 5 :: nat]\<rparr> =
    [\<lparr>tr_result = Some 4, tr_erc = take_item\<rparr>, \<lparr>tr_result = Some 5, tr_erc = take_item\<rparr>,
     \<lparr>tr_result = None, tr_erc = take_closed\<rparr>]"
  using closing_queue_drains [of "\<lparr>q_state = q_closing, q_maxQueueSize = 2, q_buffer = [4, 5 :: nat]\<rparr>"]
  by (simp add: numeral_3_eq_3)

text \<open>The deprecated \<open>take\<close> frees a slot without notifying \<open>m_notFull\<close>: a queue with limit one can
  come to rest open and empty while a \<open>put_wait\<close> submitter still sleeps.\<close>

theorem legacy_take_loses_wakeup:
  "\<exists>s :: (nat list, nat) queue_sys. reach (deque_start 1) (queue_step_legacy deque_ops) s \<and> quiescent s \<and>
     q_state (sys_q s) = q_open \<and> q_buffer (sys_q s) = [] \<and> putters_blocked s \<noteq> {#}"
proof -
  let ?i = "queue_sys_init [] 1 :: (nat list, nat) queue_sys"
  let ?a = "finish_put ?i 1 (queue_put deque_ops (sys_q ?i) 1)"
  let ?b = "?a\<lparr>putters_blocked := add_mset 2 (putters_blocked ?a)\<rparr>"
  let ?q = "\<lparr>q_state = q_open, q_maxQueueSize = 1, q_buffer = []\<rparr>"
  let ?c = "?b\<lparr>sys_q := ?q, g_taken := g_taken ?b @ [1]\<rparr>"
  note defs = queue_sys_init_def new_queue_def finish_put_def put_section_defs push_task_def notify_taker_def
  have "reach (deque_start 1) (queue_step_legacy deque_ops) ?a"
    by (rule reach_step [OF deque_reach_start]) (intro legacy_queue step_put)
  moreover have "put_wait deque_ops (sys_q ?a) 2 = Wait" by (simp add: defs)
  ultimately have "reach (deque_start 1) (queue_step_legacy deque_ops) ?b"
    by (elim reach_step) (intro legacy_queue step_put_sleep)
  moreover have "queue_take deque_ops (sys_q ?b) = Done (1, ?q)"
    by (simp add: defs queue_take_def takeLocked_def)
  ultimately have "reach (deque_start 1) (queue_step_legacy deque_ops) ?c"
    by (elim reach_step) (rule legacy_take)
  then show ?thesis by (intro exI [of _ ?c]) (simp add: quiescent_def defs)
qed

end
