(* ===== verification/Thread_Pool.thy ===== *)
theory Thread_Pool
  imports Mpmc_Queue
begin

text \<open>
  The thread pool of \<^verbatim>\<open>stp/RtlThreadPool.hpp\<close> with the exceptions of
  \<^verbatim>\<open>stp/StpExceptions.hpp\<close>.  The pool owns a deque-backed queue of \<open>std::function\<close> objects, its
  workers and its periodic workers.  The first part has one function per member function; a
  submitter is cut where it can be interleaved: after the unlocked test of \<open>m_poolState\<close>, at the
  condition-variable waits of the queue and around the task a caller runs itself.  The second part
  runs any number of submitters, the workers, the periodic workers, \<open>shutdown_graceful\<close> and \<open>join\<close>
  against each other.  A task is named by a value of type \<open>'t\<close>, which also names its future; a queue
  element \<open>None\<close> is an empty \<open>std::function\<close>.
\<close>

section \<open>Errors, options and statistics\<close>

datatype stp_error_code = ec_unknown | ec_pool_stopped | ec_task_rejected | ec_queue_closed
  | ec_queue_full | ec_invalid_pool_options

datatype stp_exn = ThreadPoolStopped | TaskRejected string | QueueClosed | QueueFull
  | InvalidPoolOptions

fun stp_code :: "stp_exn \<Rightarrow> stp_error_code" where
  "stp_code ThreadPoolStopped = ec_pool_stopped"
| "stp_code (TaskRejected msg) = ec_task_rejected"
| "stp_code QueueClosed = ec_queue_closed"
| "stp_code QueueFull = ec_queue_full"
| "stp_code InvalidPoolOptions = ec_invalid_pool_options"

datatype rejection_policy = rp_throw_exception | rp_block | rp_block_for | rp_caller_runs

record thread_pool_options =
  o_workers_count :: nat
  o_max_workers :: nat
  o_max_periodic_tasks :: nat
  o_max_queue_size :: nat
  o_rejection_policy :: rejection_policy
  o_enqueue_timeout_ms :: nat

definition default_pool_options :: thread_pool_options where
  "default_pool_options = \<lparr>o_workers_count = 6, o_max_workers = 20, o_max_periodic_tasks = 10,
     o_max_queue_size = 0, o_rejection_policy = rp_throw_exception, o_enqueue_timeout_ms = 0\<rparr>"

datatype pool_state = ps_running | ps_stopping | ps_stopped

text \<open>The states in the order in which a pool goes through them.\<close>

fun pool_state_rank :: "pool_state \<Rightarrow> nat" where
  "pool_state_rank ps_running = 0"
| "pool_state_rank ps_stopping = 1"
| "pool_state_rank ps_stopped = 2"

instantiation pool_state :: linorder
begin

definition less_eq_pool_state :: "pool_state \<Rightarrow> pool_state \<Rightarrow> bool" where
  "less_eq_pool_state a b \<longleftrightarrow> pool_state_rank a \<le> pool_state_rank b"

definition less_pool_state :: "pool_state \<Rightarrow> pool_state \<Rightarrow> bool" where
  "less_pool_state a b \<longleftrightarrow> pool_state_rank a < pool_state_rank b"

instance
proof
  fix a b :: pool_state
  show "a \<le> b \<Longrightarrow> b \<le> a \<Longrightarrow> a = b" by (cases a; cases b) (simp_all add: less_eq_pool_state_def)
qed (auto simp: less_eq_pool_state_def less_pool_state_def)

end

record thread_pool_stats =
  st_state :: pool_state
  st_workers_count :: nat
  st_max_workers :: nat
  st_periodic_workers_count :: nat
  st_max_periodic_tasks :: nat
  st_queued_tasks :: nat
  st_max_queue_size :: nat

section \<open>The pool object and its threads\<close>

text \<open>Where a worker stands in the loop of \<open>add_thread\<close>: before \<open>tryTake\<close>, asleep inside it, running a
  task, or returned.\<close>

datatype 't worker = w_idle | w_waiting | w_running 't | w_exited

text \<open>Where a periodic worker stands in the loop of \<open>add_periodic_thread\<close>: at the loop head, inside
  \<open>m_cv.wait_for\<close>, after it, running its task, or returned.\<close>

datatype periodic_pc = per_head | per_waiting | per_due | per_running | per_exited

record 't periodic =
  per_pc :: periodic_pc
  per_task :: 't
  per_interval_ms :: nat

record 't pool =
  p_queue :: "('t option list, 't option) queue_sys"
  p_opt :: thread_pool_options
  p_poolState :: pool_state
  p_periodic_workers_count :: nat
  p_activeWorkers :: "'t worker list"
  p_periodicWorkers :: "'t periodic list"
  p_shutting_down :: bool
  p_submitting :: "'t multiset"
  p_caller_running :: "'t multiset"
  g_executed :: "'t list"
  g_caller_ran :: "'t list"
  g_futures :: "'t list"
  g_thrown :: "('t \<times> stp_exn) list"

abbreviation pool_q :: "'t pool \<Rightarrow> 't option list mpmc" where
  "pool_q s \<equiv> sys_q (p_queue s)"

abbreviation pool_queued :: "'t pool \<Rightarrow> 't option list" where
  "pool_queued s \<equiv> q_buffer (pool_q s)"

definition clamp_options :: "thread_pool_options \<Rightarrow> thread_pool_options" where
  "clamp_options opt =
     (let w = max 1 (o_workers_count opt) in
      opt\<lparr>o_workers_count := w, o_max_workers := max (o_max_workers opt) w,
          o_max_periodic_tasks := max 1 (o_max_periodic_tasks opt)\<rparr>)"

text \<open>\<open>setup_threads\<close>; \<open>spawn i\<close> says whether the standard library can start the \<open>i\<close>-th thread.  When it
  cannot, the threads already started are joined and the exception leaves the constructor.\<close>

definition setup_threads :: "thread_pool_options \<Rightarrow> (nat \<Rightarrow> bool) \<Rightarrow> (unit, 't pool) result" where
  "setup_threads opt0 spawn =
     (let opt = clamp_options opt0 in
      if list_all spawn [0..<o_workers_count opt]
      then Inr \<lparr>p_queue = queue_sys_init [] (o_max_queue_size opt), p_opt = opt,
                p_poolState = ps_running, p_periodic_workers_count = 0,
                p_activeWorkers = replicate (o_workers_count opt) w_idle, p_periodicWorkers = [],
                p_shutting_down = False, p_submitting = {#}, p_caller_running = {#},
                g_executed = [], g_caller_ran = [], g_futures = [], g_thrown = []\<rparr>
      else Inl ())"

section \<open>Submitting a task\<close>

datatype put_action = act_return_future | act_run_in_caller

text \<open>The tests after the \<open>switch\<close> of \<open>put\<close>.\<close>

definition put_erc_answer :: "put_result \<Rightarrow> (stp_exn, put_action) result" where
  "put_erc_answer e =
     (if e = put_accepted then Inr act_return_future
      else if e = put_closed then Inl ThreadPoolStopped
      else if e = put_full then Inl QueueFull
      else if e = put_timeout then Inl (TaskRejected ''Rejected on timeout'')
      else Inr act_return_future)"

definition put_outcome :: "rejection_policy \<Rightarrow> put_result \<Rightarrow> (stp_exn, put_action) result" where
  "put_outcome pol e =
     (if pol = rp_caller_runs \<and> e = put_accepted then Inr act_return_future
      else if pol = rp_caller_runs \<and> e = put_closed then Inl ThreadPoolStopped
      else if pol = rp_caller_runs \<and> e = put_full then Inr act_run_in_caller
      else put_erc_answer e)"

text \<open>The queue call the policy selects.\<close>

definition submit_section ::
  "rejection_policy \<Rightarrow> 'a list mpmc \<Rightarrow> 'a \<Rightarrow> ('a list mpmc \<times> put_result) locked_section" where
  "submit_section pol q x =
     (case pol of
        rp_throw_exception \<Rightarrow> Done (queue_put deque_ops q x)
      | rp_block \<Rightarrow> put_wait deque_ops q x
      | rp_block_for \<Rightarrow> put_wait_for deque_ops q x
      | rp_caller_runs \<Rightarrow> Done (queue_put deque_ops q x))"

definition pool_put_enter :: "'t \<Rightarrow> 't pool \<Rightarrow> 't pool" where
  "pool_put_enter t s =
     (if p_poolState s \<noteq> ps_running then s\<lparr>g_thrown := g_thrown s @ [(t, ThreadPoolStopped)]\<rparr>
      else s\<lparr>p_submitting := add_mset t (p_submitting s)\<rparr>)"

text \<open>What \<open>put\<close> does with the answer of the queue, and the end of a task run by its submitter.\<close>

definition pool_put_finish :: "'t \<Rightarrow> put_result \<Rightarrow> 't pool \<Rightarrow> 't pool" where
  "pool_put_finish t e s =
     (case put_outcome (o_rejection_policy (p_opt s)) e of
        Inl x \<Rightarrow> s\<lparr>g_thrown := g_thrown s @ [(t, x)]\<rparr>
      | Inr act_return_future \<Rightarrow> s\<lparr>g_futures := g_futures s @ [t]\<rparr>
      | Inr act_run_in_caller \<Rightarrow> s\<lparr>p_caller_running := add_mset t (p_caller_running s)\<rparr>)"

definition pool_caller_ran :: "'t \<Rightarrow> 't pool \<Rightarrow> 't pool" where
  "pool_caller_ran t s =
     s\<lparr>p_caller_running := p_caller_running s - {#t#}, g_caller_ran := g_caller_ran s @ [t],
       g_futures := g_futures s @ [t]\<rparr>"

text \<open>The whole of \<open>put\<close> on a pool no other thread is using.\<close>

definition pool_put :: "'t \<Rightarrow> 't pool \<Rightarrow> ('t pool \<times> (stp_exn, 't) result) locked_section" where
  "pool_put t s =
     (if p_poolState s \<noteq> ps_running then Done (pool_put_enter t s, Inl ThreadPoolStopped)
      else case submit_section (o_rejection_policy (p_opt s)) (pool_q s) (Some t) of
        Wait \<Rightarrow> Wait
      | Undef \<Rightarrow> Undef
      | Done (q, e) \<Rightarrow>
         (let s' = pool_put_finish t e (s\<lparr>p_queue := finish_put (p_queue s) (Some t) (q, e)\<rparr>)
          in case put_outcome (o_rejection_policy (p_opt s)) e of
            Inl x \<Rightarrow> Done (s', Inl x)
          | Inr act_return_future \<Rightarrow> Done (s', Inr t)
          | Inr act_run_in_caller \<Rightarrow> Done (pool_caller_ran t s', Inr t)))"

text \<open>\<open>put_periodic\<close> with \<open>add_periodic_thread\<close>; a task \<open>None\<close> is an empty \<open>std::function\<close>.\<close>

definition add_periodic_thread :: "nat \<Rightarrow> 't option \<Rightarrow> 't pool \<Rightarrow> 't pool \<times> bool" where
  "add_periodic_thread ms t s =
     (if p_periodic_workers_count s \<ge> o_max_periodic_tasks (p_opt s) then (s, False)
      else case t of
        None \<Rightarrow> (s, False)
      | Some f \<Rightarrow>
          if ms = 0 then (s, False)
          else (s\<lparr>p_periodicWorkers := p_periodicWorkers s @
                    [\<lparr>per_pc = per_head, per_task = f, per_interval_ms = ms\<rparr>],
                  p_periodic_workers_count := p_periodic_workers_count s + 1\<rparr>, True))"

definition put_periodic :: "nat \<Rightarrow> 't option \<Rightarrow> 't pool \<Rightarrow> 't pool \<times> (stp_exn, unit) result" where
  "put_periodic ms t s =
     (if p_poolState s \<noteq> ps_running then (s, Inl ThreadPoolStopped)
      else case add_periodic_thread ms t s of
        (s', True) \<Rightarrow> (s', Inr ())
      | (s', False) \<Rightarrow> (s', Inl (TaskRejected ''Task rejected'')))"

section \<open>Workers\<close>

text \<open>The tests a worker makes on the answer of \<open>tryTake\<close>.\<close>

definition worker_after_take :: "'t option take_result \<Rightarrow> 't worker" where
  "worker_after_take r =
     (if tr_erc r = take_closed then w_exited
      else if tr_erc r = take_timeout then w_idle
      else case tr_result r of
        None \<Rightarrow> w_idle
      | Some None \<Rightarrow> w_idle
      | Some (Some t) \<Rightarrow> w_running t)"

text \<open>One section of a periodic worker.  The wait is a timed one, so it can always end.\<close>

definition periodic_next :: "pool_state \<Rightarrow> periodic_pc \<Rightarrow> periodic_pc" where
  "periodic_next st pc =
     (case pc of
        per_head \<Rightarrow> (if st \<noteq> ps_running then per_exited else per_waiting)
      | per_waiting \<Rightarrow> per_due
      | per_due \<Rightarrow> (if st \<noteq> ps_running then per_exited else per_running)
      | per_running \<Rightarrow> per_head
      | per_exited \<Rightarrow> per_exited)"

section \<open>Shutdown and join\<close>

text \<open>\<open>shutdown_graceful\<close> holds \<open>m_mtx\<close> throughout, but \<open>m_poolState\<close> is read without it: the store and
  the closing of the queue are two sections.\<close>

definition shutdown_store :: "'t pool \<Rightarrow> 't pool" where
  "shutdown_store s =
     (if p_poolState s \<noteq> ps_running then s
      else s\<lparr>p_poolState := ps_stopping, p_shutting_down := True\<rparr>)"

definition shutdown_close :: "'t pool \<Rightarrow> 't pool" where
  "shutdown_close s =
     s\<lparr>p_shutting_down := False,
       p_queue := (p_queue s)\<lparr>sys_q := queue_close (pool_q s), close_due := close_due (p_queue s) + 1\<rparr>\<rparr>"

datatype 'a join_result = join_terminate | join_blocked | join_done 'a

text \<open>One of the two loops of \<open>blocking_thread_stopping\<close> over pairs of a thread id and whether that
  thread has returned.\<close>

fun join_loop :: "nat \<Rightarrow> (nat \<times> bool) list \<Rightarrow> unit join_result" where
  "join_loop caller [] = join_done ()"
| "join_loop caller ((i, exited) # ts) =
     (if i = caller then join_terminate
      else if exited then join_loop caller ts
      else join_blocked)"

definition periodic_threads :: "'t pool \<Rightarrow> (nat \<times> bool) list" where
  "periodic_threads s =
     zip [length (p_activeWorkers s)..<length (p_activeWorkers s) + length (p_periodicWorkers s)]
       (map (\<lambda>p. per_pc p = per_exited) (p_periodicWorkers s))"

definition active_threads :: "'t pool \<Rightarrow> (nat \<times> bool) list" where
  "active_threads s =
     zip [0..<length (p_activeWorkers s)] (map (\<lambda>w. case w of w_exited \<Rightarrow> True | _ \<Rightarrow> False) (p_activeWorkers s))"

text \<open>Worker \<open>i\<close> has thread id \<open>i\<close>, the periodic workers the ids after them, any other thread a larger
  id.\<close>

definition blocking_thread_stopping :: "nat \<Rightarrow> 't pool \<Rightarrow> 't pool join_result" where
  "blocking_thread_stopping caller s =
     (case join_loop caller (periodic_threads s) of
        join_terminate \<Rightarrow> join_terminate
      | join_blocked \<Rightarrow> join_blocked
      | join_done _ \<Rightarrow>
         (case join_loop caller (active_threads s) of
            join_terminate \<Rightarrow> join_terminate
          | join_blocked \<Rightarrow> join_blocked
          | join_done _ \<Rightarrow> join_done (s\<lparr>p_poolState := ps_stopped\<rparr>)))"

text \<open>The part of \<open>join\<close> after its call of \<open>shutdown_graceful\<close>.\<close>

definition pool_join :: "nat \<Rightarrow> 't pool \<Rightarrow> 't pool join_result" where
  "pool_join caller s =
     (if p_poolState s = ps_stopped then join_done s else blocking_thread_stopping caller s)"

definition pool_stats :: "'t pool \<Rightarrow> thread_pool_stats" where
  "pool_stats s =
     \<lparr>st_state = p_poolState s, st_workers_count = o_workers_count (p_opt s),
      st_max_workers = o_max_workers (p_opt s),
      st_periodic_workers_count = p_periodic_workers_count s,
      st_max_periodic_tasks = o_max_periodic_tasks (p_opt s),
      st_queued_tasks = queue_size deque_ops (pool_q s),
      st_max_queue_size = o_max_queue_size (p_opt s)\<rparr>"

section \<open>Threads on one pool\<close>

text \<open>Queue steps that no pool thread reacts to: notifications and wake-ups.\<close>

inductive queue_internal :: "('a list, 'a) queue_sys \<Rightarrow> ('a list, 'a) queue_sys \<Rightarrow> bool" where
  int_put_sleep_again: "x \<in># putters_woken s \<Longrightarrow> put_wait_wake deque_ops (sys_q s) x = Wait \<Longrightarrow>
    queue_internal s (s\<lparr>putters_woken := putters_woken s - {#x#},
                        putters_blocked := add_mset x (putters_blocked s)\<rparr>)"
| int_put_spurious: "x \<in># putters_blocked s \<Longrightarrow>
    queue_internal s (s\<lparr>putters_blocked := putters_blocked s - {#x#},
                        putters_woken := add_mset x (putters_woken s)\<rparr>)"
| int_take_sleep_again: "0 < takers_woken s \<Longrightarrow> tryTake_wake deque_ops (sys_q s) = Wait \<Longrightarrow>
    queue_internal s (s\<lparr>takers_woken := takers_woken s - 1, takers_blocked := takers_blocked s + 1\<rparr>)"
| int_take_spurious: "0 < takers_blocked s \<Longrightarrow>
    queue_internal s (s\<lparr>takers_blocked := takers_blocked s - 1, takers_woken := takers_woken s + 1\<rparr>)"
| int_notify_notFull: "0 < notFull_due s \<Longrightarrow> x \<in># putters_blocked s \<Longrightarrow>
    queue_internal s (s\<lparr>notFull_due := notFull_due s - 1, putters_blocked := putters_blocked s - {#x#},
                        putters_woken := add_mset x (putters_woken s)\<rparr>)"
| int_notify_nobody: "0 < notFull_due s \<Longrightarrow> putters_blocked s = {#} \<Longrightarrow>
    queue_internal s (s\<lparr>notFull_due := notFull_due s - 1\<rparr>)"
| int_close_notify: "0 < close_due s \<Longrightarrow>
    queue_internal s (s\<lparr>close_due := close_due s - 1,
                        putters_woken := putters_woken s + putters_blocked s, putters_blocked := {#},
                        takers_woken := takers_woken s + takers_blocked s, takers_blocked := 0\<rparr>)"

inductive pool_step :: "'t pool \<Rightarrow> 't pool \<Rightarrow> bool" where
  pool_enter: "pool_step s (pool_put_enter t s)"
| pool_submit: "t \<in># p_submitting s \<Longrightarrow>
    submit_section (o_rejection_policy (p_opt s)) (pool_q s) (Some t) = Done (q, e) \<Longrightarrow>
    pool_step s (pool_put_finish t e (s\<lparr>p_submitting := p_submitting s - {#t#},
      p_queue := finish_put (p_queue s) (Some t) (q, e)\<rparr>))"
| pool_submit_sleep: "t \<in># p_submitting s \<Longrightarrow>
    submit_section (o_rejection_policy (p_opt s)) (pool_q s) (Some t) = Wait \<Longrightarrow>
    pool_step s (s\<lparr>p_submitting := p_submitting s - {#t#},
      p_queue := (p_queue s)\<lparr>putters_blocked := add_mset (Some t) (putters_blocked (p_queue s))\<rparr>\<rparr>)"
| pool_submit_wake: "Some t \<in># putters_woken (p_queue s) \<Longrightarrow>
    put_wait_wake deque_ops (pool_q s) (Some t) = Done (q, e) \<Longrightarrow>
    pool_step s (pool_put_finish t e (s\<lparr>p_queue := finish_put
      ((p_queue s)\<lparr>putters_woken := putters_woken (p_queue s) - {#Some t#}\<rparr>) (Some t) (q, e)\<rparr>))"
| pool_submit_timeout: "o_rejection_policy (p_opt s) = rp_block_for \<Longrightarrow>
    Some t \<in># putters_blocked (p_queue s) \<Longrightarrow>
    put_wait_for_timeout deque_ops (pool_q s) (Some t) = Done (q, e) \<Longrightarrow>
    pool_step s (pool_put_finish t e (s\<lparr>p_queue := finish_put
      ((p_queue s)\<lparr>putters_blocked := putters_blocked (p_queue s) - {#Some t#}\<rparr>) (Some t) (q, e)\<rparr>))"
| pool_submit_late: "o_rejection_policy (p_opt s) = rp_block_for \<Longrightarrow>
    Some t \<in># putters_woken (p_queue s) \<Longrightarrow>
    put_wait_for_timeout deque_ops (pool_q s) (Some t) = Done (q, e) \<Longrightarrow>
    pool_step s (pool_put_finish t e (s\<lparr>p_queue := finish_put
      ((p_queue s)\<lparr>putters_woken := putters_woken (p_queue s) - {#Some t#}\<rparr>) (Some t) (q, e)\<rparr>))"
| pool_caller: "t \<in># p_caller_running s \<Longrightarrow> pool_step s (pool_caller_ran t s)"
| pool_periodic: "\<not> p_shutting_down s \<Longrightarrow> pool_step s (fst (put_periodic ms t s))"
| pool_take: "i < length (p_activeWorkers s) \<Longrightarrow> p_activeWorkers s ! i = w_idle \<Longrightarrow>
    tryTake deque_ops (pool_q s) = Done (q, r) \<Longrightarrow>
    pool_step s (s\<lparr>p_queue := finish_take (p_queue s) (q, r),
      p_activeWorkers := (p_activeWorkers s)[i := worker_after_take r]\<rparr>)"
| pool_take_sleep: "i < length (p_activeWorkers s) \<Longrightarrow> p_activeWorkers s ! i = w_idle \<Longrightarrow>
    tryTake deque_ops (pool_q s) = Wait \<Longrightarrow>
    pool_step s (s\<lparr>p_queue := (p_queue s)\<lparr>takers_blocked := takers_blocked (p_queue s) + 1\<rparr>,
      p_activeWorkers := (p_activeWorkers s)[i := w_waiting]\<rparr>)"
| pool_take_wake: "i < length (p_activeWorkers s) \<Longrightarrow> p_activeWorkers s ! i = w_waiting \<Longrightarrow>
    0 < takers_woken (p_queue s) \<Longrightarrow>
    tryTake_wake deque_ops (pool_q s) = Done (q, r) \<or> tryTake_timeout deque_ops (pool_q s) = Done (q, r) \<Longrightarrow>
    pool_step s (s\<lparr>p_queue := finish_take
        ((p_queue s)\<lparr>takers_woken := takers_woken (p_queue s) - 1\<rparr>) (q, r),
      p_activeWorkers := (p_activeWorkers s)[i := worker_after_take r]\<rparr>)"
| pool_take_timeout: "i < length (p_activeWorkers s) \<Longrightarrow> p_activeWorkers s ! i = w_waiting \<Longrightarrow>
    0 < takers_blocked (p_queue s) \<Longrightarrow> tryTake_timeout deque_ops (pool_q s) = Done (q, r) \<Longrightarrow>
    pool_step s (s\<lparr>p_queue := finish_take
        ((p_queue s)\<lparr>takers_blocked := takers_blocked (p_queue s) - 1\<rparr>) (q, r),
      p_activeWorkers := (p_activeWorkers s)[i := worker_after_take r]\<rparr>)"
| pool_run: "i < length (p_activeWorkers s) \<Longrightarrow> p_activeWorkers s ! i = w_running t \<Longrightarrow>
    pool_step s (s\<lparr>g_executed := g_executed s @ [t],
      p_activeWorkers := (p_activeWorkers s)[i := w_idle]\<rparr>)"
| pool_periodic_step: "i < length (p_periodicWorkers s) \<Longrightarrow> p = p_periodicWorkers s ! i \<Longrightarrow>
    pool_step s (s\<lparr>p_periodicWorkers :=
      (p_periodicWorkers s)[i := p\<lparr>per_pc := periodic_next (p_poolState s) (per_pc p)\<rparr>]\<rparr>)"
| pool_queue: "queue_internal (p_queue s) q \<Longrightarrow> pool_step s (s\<lparr>p_queue := q\<rparr>)"
| pool_shutdown: "\<not> p_shutting_down s \<Longrightarrow> pool_step s (shutdown_store s)"
| pool_close: "p_shutting_down s \<Longrightarrow> pool_step s (shutdown_close s)"
| pool_joined: "p_poolState s \<noteq> ps_running \<Longrightarrow> \<not> p_shutting_down s \<Longrightarrow>
    pool_join caller s = join_done s' \<Longrightarrow> pool_step s s'"

definition pool_start :: "thread_pool_options \<Rightarrow> 't pool \<Rightarrow> bool" where
  "pool_start opt s \<longleftrightarrow> setup_threads opt (\<lambda>_. True) = Inr s"


section \<open>The invariant of a pool\<close>

definition worker_waits :: "'t worker \<Rightarrow> nat" where
  "worker_waits w = (case w of w_waiting \<Rightarrow> 1 | _ \<Rightarrow> 0)"

definition worker_task :: "'t worker \<Rightarrow> 't option multiset" where
  "worker_task w = (case w of w_running t \<Rightarrow> {#Some t#} | _ \<Rightarrow> {#})"

text \<open>The workers asleep in the queue are its takers; what left the queue is running or was run; a
  future was returned for exactly the accepted tasks and those a caller ran.\<close>

definition pool_tasks_inv :: "'t pool \<Rightarrow> bool" where
  "pool_tasks_inv s \<longleftrightarrow>
     sum_list (map worker_waits (p_activeWorkers s)) = takers_blocked (p_queue s) + takers_woken (p_queue s) \<and>
     mset (g_taken (p_queue s)) =
       sum_list (map worker_task (p_activeWorkers s)) + image_mset Some (mset (g_executed s)) \<and>
     image_mset Some (mset (g_futures s)) =
       mset (g_accepted (p_queue s)) + image_mset Some (mset (g_caller_ran s))"

text \<open>The states of pool and queue move together, a worker returns only from a drained closing queue,
  and a stopped pool has no thread left.\<close>

definition pool_phase_inv :: "'t pool \<Rightarrow> bool" where
  "pool_phase_inv s \<longleftrightarrow>
     (p_poolState s = ps_running \<longrightarrow> q_state (pool_q s) = q_open \<and> \<not> p_shutting_down s) \<and>
     (p_shutting_down s \<longrightarrow> p_poolState s = ps_stopping \<and> q_state (pool_q s) = q_open) \<and>
     (p_poolState s \<noteq> ps_running \<and> \<not> p_shutting_down s \<longrightarrow> q_state (pool_q s) = q_closing) \<and>
     (w_exited \<in> set (p_activeWorkers s) \<longrightarrow> q_state (pool_q s) = q_closing \<and> pool_queued s = []) \<and>
     (p_poolState s = ps_stopped \<longrightarrow> set (p_activeWorkers s) \<subseteq> {w_exited} \<and>
        list_all (\<lambda>p. per_pc p = per_exited) (p_periodicWorkers s))"

definition pool_size_inv :: "thread_pool_options \<Rightarrow> 't pool \<Rightarrow> bool" where
  "pool_size_inv opt s \<longleftrightarrow>
     p_opt s = clamp_options opt \<and>
     length (p_activeWorkers s) = o_workers_count (p_opt s) \<and>
     length (p_periodicWorkers s) = p_periodic_workers_count s \<and>
     p_periodic_workers_count s \<le> o_max_periodic_tasks (p_opt s)"

definition pool_inv :: "thread_pool_options \<Rightarrow> 't pool \<Rightarrow> bool" where
  "pool_inv opt s \<longleftrightarrow>
     queue_inv deque_ops (\<lambda>_. True) mset (o_max_queue_size opt) (p_queue s) \<and>
     fifo_inv (\<lambda>_. True) (\<lambda>c. c) (p_queue s) \<and>
     pool_tasks_inv s \<and> pool_phase_inv s \<and> pool_size_inv opt s"

subsection \<open>What a step does to the queue\<close>

lemma finish_put_fields [simp]:
  "sys_q (finish_put s x (q, e)) = q"
  "g_taken (finish_put s x (q, e)) = g_taken s"
  "g_accepted (finish_put s x (q, e)) = g_accepted s @ (if e = put_accepted then [x] else [])"
  "takers_blocked (finish_put s x (q, e)) + takers_woken (finish_put s x (q, e)) =
     takers_blocked s + takers_woken s"
  by (simp_all add: finish_put_def notify_taker_def)

lemma finish_take_fields [simp]:
  "sys_q (finish_take s (q, r)) = q"
  "g_taken (finish_take s (q, r)) = g_taken s @ (case tr_result r of None \<Rightarrow> [] | Some x \<Rightarrow> [x])"
  "g_accepted (finish_take s (q, r)) = g_accepted s"
  "takers_blocked (finish_take s (q, r)) = takers_blocked s"
  "takers_woken (finish_take s (q, r)) = takers_woken s"
  by (auto simp: finish_take_def split: option.splits)

lemma queue_internal_step: "queue_internal s t \<Longrightarrow> queue_step deque_ops s t"
  by (erule queue_internal.cases) (auto intro: queue_step.intros simp del: One_nat_def)

lemma queue_internal_fields:
  "queue_internal s t \<Longrightarrow> sys_q t = sys_q s \<and> g_taken t = g_taken s \<and> g_accepted t = g_accepted s \<and>
     takers_blocked t + takers_woken t = takers_blocked s + takers_woken s"
  by (erule queue_internal.cases) auto

lemma submit_section_put:
  assumes "submit_section pol q x = Done r"
  shows "queue_put deque_ops q x = r \<or> put_wait deque_ops q x = Done r"
  using assms by (cases pol) (auto simp: submit_section_def put_wait_for_def put_wait_def)

lemma submit_section_wait: "submit_section pol q x = Wait \<Longrightarrow> put_wait deque_ops q x = Wait"
  by (cases pol) (auto simp: submit_section_def put_wait_for_def put_wait_def)

text \<open>A put section that is done either changed nothing and did not accept, or appended to an open
  queue.\<close>

lemma deque_put_cases:
  assumes "submit_section pol q x = Done (q', e) \<or> put_wait_wake deque_ops q x = Done (q', e) \<or>
    put_wait_for_timeout deque_ops q x = Done (q', e)"
  shows "(e \<noteq> put_accepted \<and> q' = q) \<or>
    (e = put_accepted \<and> q_state q = q_open \<and> q' = push_task deque_ops q x)"
  using assms deque.put_done_cases [of q x "(q', e)"] submit_section_put [of pol q x "(q', e)"]
  by auto

lemma deque_take_cases:
  assumes "tryTake deque_ops q = Done (q', r) \<or> tryTake_wake deque_ops q = Done (q', r) \<or>
    tryTake_timeout deque_ops q = Done (q', r)"
  shows "(q' = q \<and> r = \<lparr>tr_result = None, tr_erc = take_closed\<rparr> \<and> q_state q = q_closing \<and> q_buffer q = []) \<or>
    (q' = q \<and> r = \<lparr>tr_result = None, tr_erc = take_timeout\<rparr> \<and> q_buffer q = []) \<or>
    (\<exists>x b. q_buffer q = x # b \<and> q' = q\<lparr>q_buffer := b\<rparr> \<and>
       r = \<lparr>tr_result = Some x, tr_erc = take_item\<rparr>)"
  using assms by (cases "q_buffer q") (auto simp: take_section_defs split: if_splits)

lemma put_outcome_future: "put_outcome pol e = Inr act_return_future \<longleftrightarrow> e = put_accepted"
  by (cases e) (auto simp: put_outcome_def put_erc_answer_def)

lemma pool_put_finish_fields [simp]:
  "p_queue (pool_put_finish t e s) = p_queue s"
  "p_opt (pool_put_finish t e s) = p_opt s"
  "p_poolState (pool_put_finish t e s) = p_poolState s"
  "p_activeWorkers (pool_put_finish t e s) = p_activeWorkers s"
  "p_periodicWorkers (pool_put_finish t e s) = p_periodicWorkers s"
  "p_periodic_workers_count (pool_put_finish t e s) = p_periodic_workers_count s"
  "p_shutting_down (pool_put_finish t e s) = p_shutting_down s"
  "g_executed (pool_put_finish t e s) = g_executed s"
  "g_caller_ran (pool_put_finish t e s) = g_caller_ran s"
  "g_futures (pool_put_finish t e s) = g_futures s @ (if e = put_accepted then [t] else [])"
  using put_outcome_future [of "o_rejection_policy (p_opt s)" e]
  by (auto simp: pool_put_finish_def split: sum.split put_action.split)

lemma pool_step_queue:
  assumes "pool_step s t"
  shows "p_queue t = p_queue s \<or> queue_step deque_ops (p_queue s) (p_queue t)"
  using assms
proof cases
  case (pool_submit u q e)
  then show ?thesis
    using submit_section_put [OF pool_submit(3)] step_put [of deque_ops "p_queue s" "Some u"]
    by (auto intro: step_put_wait)
next
  case (pool_submit_sleep u)
  then show ?thesis using step_put_sleep [OF submit_section_wait [OF pool_submit_sleep(3)]] by simp
next
  case (pool_queue q)
  then show ?thesis by (simp add: queue_internal_step)
next
  case (pool_joined c)
  then show ?thesis
    by (auto simp: pool_join_def blocking_thread_stopping_def split: if_splits join_result.splits)
next
  case (pool_periodic ms u)
  then show ?thesis
    by (auto simp: put_periodic_def add_periodic_thread_def split: option.splits)
next
  case pool_close
  then show ?thesis using step_close [of deque_ops "p_queue s"] by (simp add: shutdown_close_def)
qed (auto intro: queue_step.intros simp: pool_put_enter_def pool_caller_ran_def shutdown_store_def
    simp del: One_nat_def)

subsection \<open>Preservation\<close>

lemmas pool_update_simps = pool_put_enter_def pool_caller_ran_def shutdown_store_def shutdown_close_def

lemma put_periodic_fields [simp]:
  "p_queue (fst (put_periodic ms t s)) = p_queue s"
  "p_opt (fst (put_periodic ms t s)) = p_opt s"
  "p_poolState (fst (put_periodic ms t s)) = p_poolState s"
  "p_activeWorkers (fst (put_periodic ms t s)) = p_activeWorkers s"
  "p_shutting_down (fst (put_periodic ms t s)) = p_shutting_down s"
  "g_executed (fst (put_periodic ms t s)) = g_executed s"
  "g_caller_ran (fst (put_periodic ms t s)) = g_caller_ran s"
  "g_futures (fst (put_periodic ms t s)) = g_futures s"
  by (auto simp: put_periodic_def add_periodic_thread_def split: option.splits)

lemma pool_join_done:
  assumes "pool_join c s = join_done t"
  shows "t = s\<lparr>p_poolState := ps_stopped\<rparr> \<and> (p_poolState s = ps_stopped \<or>
    set (p_activeWorkers s) \<subseteq> {w_exited} \<and> list_all (\<lambda>p. per_pc p = per_exited) (p_periodicWorkers s))"
proof -
  have all: "join_loop c (zip is bs) = join_done u \<Longrightarrow> length is = length bs \<Longrightarrow> list_all id bs" for "is" bs u
    by (induction "is" bs rule: list_induct2') (auto split: if_splits)
  show ?thesis
  proof (cases "p_poolState s = ps_stopped")
    case True
    then show ?thesis using assms by (simp add: pool_join_def)
  next
    case False
    then obtain u v where u: "join_loop c (periodic_threads s) = join_done u"
        "join_loop c (active_threads s) = join_done v" "t = s\<lparr>p_poolState := ps_stopped\<rparr>"
      using assms by (auto simp: pool_join_def blocking_thread_stopping_def split: join_result.splits)
    from all [OF u(1) [unfolded periodic_threads_def]] all [OF u(2) [unfolded active_threads_def]] u(3)
    show ?thesis
      by (auto simp: list_all_iff split: worker.splits) (metis worker.exhaust)
  qed
qed

lemma worker_update:
  assumes "i < length (p_activeWorkers s)"
  shows "sum_list (map worker_waits ((p_activeWorkers s)[i := w])) + worker_waits (p_activeWorkers s ! i) =
      sum_list (map worker_waits (p_activeWorkers s)) + worker_waits w"
    and "sum_list (map worker_task ((p_activeWorkers s)[i := w])) + worker_task (p_activeWorkers s ! i) =
      sum_list (map worker_task (p_activeWorkers s)) + worker_task w"
  using assms by (rule sum_list_map_update)+

text \<open>Only non-empty functions ever reach the queue.\<close>

lemma pool_queued_some:
  assumes "pool_tasks_inv s" "fifo_inv (\<lambda>_. True) (\<lambda>c. c) (p_queue s)" "x \<in> set (pool_queued s)"
  shows "\<exists>t. x = Some t"
proof -
  have "x \<in># image_mset Some (mset (g_futures s))"
    using assms by (simp add: pool_tasks_inv_def fifo_inv_def)
  then show ?thesis by auto
qed

lemma pool_tasks_take:
  assumes inv: "pool_tasks_inv s" and fifo: "fifo_inv (\<lambda>_. True) (\<lambda>c. c) (p_queue s)"
    and i: "i < length (p_activeWorkers s)" "worker_task (p_activeWorkers s ! i) = {#}"
    and k: "takers_blocked q0 + takers_woken q0 + worker_waits (p_activeWorkers s ! i) =
      takers_blocked (p_queue s) + takers_woken (p_queue s)"
      "g_taken q0 = g_taken (p_queue s)" "g_accepted q0 = g_accepted (p_queue s)"
    and r: "tryTake deque_ops (pool_q s) = Done (q, r) \<or> tryTake_wake deque_ops (pool_q s) = Done (q, r) \<or>
      tryTake_timeout deque_ops (pool_q s) = Done (q, r)"
  shows "pool_tasks_inv (s\<lparr>p_queue := finish_take q0 (q, r),
    p_activeWorkers := (p_activeWorkers s)[i := worker_after_take r]\<rparr>)"
proof -
  have w: "worker_waits (worker_after_take r) = 0"
    by (auto simp: worker_after_take_def worker_waits_def split: option.splits)
  have t: "worker_task (worker_after_take r) = (case tr_result r of None \<Rightarrow> {#} | Some x \<Rightarrow> {#x#})"
    using deque_take_cases [OF r] pool_queued_some [OF inv fifo]
    by (fastforce simp: worker_after_take_def worker_task_def)
  show ?thesis
    using inv k worker_update [OF i(1), of "worker_after_take r"] w t i(2)
    by (auto simp: pool_tasks_inv_def split: option.splits)
qed

lemma pool_tasks_step:
  assumes inv: "pool_tasks_inv s" and fifo: "fifo_inv (\<lambda>_. True) (\<lambda>c. c) (p_queue s)"
    and step: "pool_step s t"
  shows "pool_tasks_inv t"
  using step
proof cases
  case (pool_take i q r)
  then show ?thesis
    using pool_tasks_take [OF inv fifo, of i "p_queue s" q r] by (simp add: worker_task_def worker_waits_def)
next
  case (pool_take_wake i q r)
  then show ?thesis
    using pool_tasks_take [OF inv fifo, of i "(p_queue s)\<lparr>takers_woken := takers_woken (p_queue s) - 1\<rparr>" q r]
    by (auto simp: worker_task_def worker_waits_def)
next
  case (pool_take_timeout i q r)
  then show ?thesis
    using pool_tasks_take [OF inv fifo, of i "(p_queue s)\<lparr>takers_blocked := takers_blocked (p_queue s) - 1\<rparr>" q r]
    by (auto simp: worker_task_def worker_waits_def)
next
  case (pool_take_sleep i)
  then show ?thesis
    using inv worker_update [OF pool_take_sleep(2), of w_waiting]
    by (auto simp: pool_tasks_inv_def worker_task_def worker_waits_def)
next
  case (pool_run i u)
  then show ?thesis
    using inv worker_update [OF pool_run(2), of w_idle]
    by (auto simp: pool_tasks_inv_def worker_task_def worker_waits_def)
next
  case (pool_queue q)
  then show ?thesis using inv queue_internal_fields [OF pool_queue(2)] by (auto simp: pool_tasks_inv_def)
next
  case (pool_joined c)
  then show ?thesis using inv pool_join_done [OF pool_joined(3)] by (simp add: pool_tasks_inv_def)
qed (use inv in \<open>auto simp: pool_tasks_inv_def pool_update_simps\<close>)

lemma set_update_exited:
  "w_exited \<in> set (ws[i := w]) \<Longrightarrow> w = w_exited \<or> w_exited \<in> set ws"
  using set_update_subset_insert [of ws i w] by auto

lemma pool_phase_put:
  assumes inv: "pool_phase_inv s"
    and r: "submit_section pol (pool_q s) x = Done (q, e) \<or>
      put_wait_wake deque_ops (pool_q s) x = Done (q, e) \<or>
      put_wait_for_timeout deque_ops (pool_q s) x = Done (q, e)"
  shows "pool_phase_inv (pool_put_finish u e (s\<lparr>p_submitting := A, p_queue := finish_put q0 x (q, e)\<rparr>))"
  using deque_put_cases [OF r] inv by (auto simp: pool_phase_inv_def)

lemma pool_phase_take:
  assumes inv: "pool_phase_inv s"
    and i: "i < length (p_activeWorkers s)" "p_activeWorkers s ! i \<noteq> w_exited"
    and r: "tryTake deque_ops (pool_q s) = Done (q, r) \<or> tryTake_wake deque_ops (pool_q s) = Done (q, r) \<or>
      tryTake_timeout deque_ops (pool_q s) = Done (q, r)"
  shows "pool_phase_inv (s\<lparr>p_queue := finish_take q0 (q, r),
    p_activeWorkers := (p_activeWorkers s)[i := worker_after_take r]\<rparr>)"
proof -
  have live: "p_poolState s \<noteq> ps_stopped" using inv i by (auto simp: pool_phase_inv_def dest: nth_mem)
  have "worker_after_take r = w_exited \<Longrightarrow> tr_erc r = take_closed"
    by (auto simp: worker_after_take_def split: if_splits option.splits)
  then show ?thesis
    using deque_take_cases [OF r] inv live
    by (auto simp: pool_phase_inv_def dest!: set_update_exited)
qed

lemma pool_phase_step:
  assumes inv: "pool_phase_inv s" and step: "pool_step s t"
  shows "pool_phase_inv t"
  using step
proof cases
  case (pool_submit u q e)
  then show ?thesis using pool_phase_put [OF inv] by blast
next
  case (pool_submit_wake u q e)
  then show ?thesis using pool_phase_put [OF inv, where A = "p_submitting s"] by simp
next
  case (pool_submit_timeout u q e)
  then show ?thesis using pool_phase_put [OF inv, where A = "p_submitting s"] by simp
next
  case (pool_submit_late u q e)
  then show ?thesis using pool_phase_put [OF inv, where A = "p_submitting s"] by simp
next
  case (pool_take i q r)
  then show ?thesis using pool_phase_take [OF inv, of i q r] by auto
next
  case (pool_take_wake i q r)
  then show ?thesis using pool_phase_take [OF inv, of i q r] by auto
next
  case (pool_take_timeout i q r)
  then show ?thesis using pool_phase_take [OF inv, of i q r] by auto
next
  case (pool_take_sleep i)
  then show ?thesis
    using inv nth_mem [OF pool_take_sleep(2)] by (auto simp: pool_phase_inv_def dest!: set_update_exited)
next
  case (pool_run i u)
  then show ?thesis
    using inv nth_mem [OF pool_run(2)] by (auto simp: pool_phase_inv_def dest!: set_update_exited)
next
  case (pool_queue q)
  then show ?thesis using inv queue_internal_fields [OF pool_queue(2)] by (auto simp: pool_phase_inv_def)
next
  case (pool_joined c)
  then show ?thesis using inv pool_join_done [OF pool_joined(3)] by (auto simp: pool_phase_inv_def)
next
  case (pool_periodic ms u)
  then show ?thesis
    using inv by (auto simp: pool_phase_inv_def put_periodic_def add_periodic_thread_def
        split: option.splits)
next
  case (pool_periodic_step i p)
  then show ?thesis
    using inv by (auto simp: pool_phase_inv_def periodic_next_def list_all_length nth_list_update)
qed (use inv in \<open>auto simp: pool_phase_inv_def pool_update_simps\<close>)

lemma pool_state_least [simp]: "ps_running \<le> st" "st \<le> ps_stopped"
  by (cases st; simp add: less_eq_pool_state_def)+

text \<open>A pool never goes back to an earlier state.\<close>

lemma pool_state_mono:
  assumes "pool_step s t"
  shows "p_poolState s \<le> p_poolState t"
  using assms
proof cases
  case (pool_joined c)
  then show ?thesis using pool_join_done [OF pool_joined(3)] by simp
next
  case (pool_periodic ms u)
  then show ?thesis by (simp add: put_periodic_def add_periodic_thread_def split: option.split)
qed (auto simp: pool_update_simps)

lemma pool_state_steps: "pool_step\<^sup>*\<^sup>* s t \<Longrightarrow> p_poolState s \<le> p_poolState t"
  by (induction rule: rtranclp_induct) (auto dest: pool_state_mono)

lemma pool_size_step:
  assumes inv: "pool_size_inv opt s" and step: "pool_step s t"
  shows "pool_size_inv opt t"
  using step
proof cases
  case (pool_joined c)
  then show ?thesis using inv pool_join_done [OF pool_joined(3)] by (auto simp: pool_size_inv_def)
next
  case (pool_periodic ms u)
  then show ?thesis
    using inv by (auto simp: pool_size_inv_def put_periodic_def add_periodic_thread_def
        split: option.splits)
qed (use inv in \<open>auto simp: pool_size_inv_def pool_update_simps\<close>)

lemma sum_list_no_task: "sum_list (replicate n {#}) = {#}"
  by (induction n) auto

lemma pool_inv_start: "pool_start opt s \<Longrightarrow> pool_inv opt s"
  by (auto simp: pool_start_def setup_threads_def pool_inv_def pool_tasks_inv_def pool_phase_inv_def
      pool_size_inv_def queue_sys_init_def new_queue_def worker_waits_def worker_task_def fifo_inv_def
      Let_def queue_inv_def queue_size_def clamp_options_def sum_list_no_task split: if_splits)

lemma pool_inv_step: "pool_inv opt s \<Longrightarrow> pool_step s t \<Longrightarrow> pool_inv opt t"
  using pool_step_queue [of s t] pool_tasks_step [of s t] pool_phase_step [of s t] pool_size_step [of opt s t]
  unfolding pool_inv_def by (metis deque.queue_inv_step deque.fifo_inv_step)

interpretation pool_machine: invariant_machine "pool_start opt" pool_step "pool_inv opt" for opt
  by unfold_locales (auto intro: pool_inv_start pool_inv_step)

section \<open>A pool that is shut down finishes\<close>

definition worker_work :: "'t worker \<Rightarrow> nat" where
  "worker_work w = (case w of w_exited \<Rightarrow> 0 | w_running _ \<Rightarrow> 2 | _ \<Rightarrow> 1)"

definition periodic_work :: "'t periodic \<Rightarrow> nat" where
  "periodic_work p = (case per_pc p of per_exited \<Rightarrow> 0 | per_head \<Rightarrow> 1 | per_due \<Rightarrow> 1 | _ \<Rightarrow> 2)"

definition pool_work :: "'t pool \<Rightarrow> nat" where
  "pool_work s =
     3 * length (pool_queued s) + sum_list (map worker_work (p_activeWorkers s)) +
     sum_list (map periodic_work (p_periodicWorkers s)) + (if p_shutting_down s then 2 else 0) +
     close_due (p_queue s) + (if p_poolState s = ps_stopped then 0 else 1)"

lemma finish_take_due [simp]: "close_due (finish_take s (q, r)) = close_due s"
  by (auto simp: finish_take_def split: option.splits)

lemma worker_take_progress:
  assumes inv: "pool_inv opt s" and closing: "q_state (pool_q s) = q_closing"
    and i: "i < length (p_activeWorkers s)" "p_activeWorkers s ! i = w_idle \<or> p_activeWorkers s ! i = w_waiting"
    and due: "close_due (p_queue s) = 0"
  shows "\<exists>t. pool_step s t \<and> pool_work t < pool_work s \<and> p_poolState t = p_poolState s"
proof -
  have "\<exists>q r. tryTake deque_ops (pool_q s) = Done (q, r) \<and> tryTake_wake deque_ops (pool_q s) = Done (q, r)"
    using closing by (cases "pool_queued s") (auto simp: take_section_defs)
  then obtain q r where r: "tryTake deque_ops (pool_q s) = Done (q, r)"
    "tryTake_wake deque_ops (pool_q s) = Done (q, r)" by blast
  have less: "3 * length (q_buffer q) + worker_work (worker_after_take r) < 3 * length (pool_queued s) + 1"
    using r(1) closing
    by (cases "pool_queued s") (auto simp: take_section_defs worker_after_take_def worker_work_def
        split: option.splits)
  have one: "worker_work (p_activeWorkers s ! i) = 1" using i(2) by (auto simp: worker_work_def)
  note upd = sum_list_map_update [OF i(1), of worker_work "worker_after_take r"]
  show ?thesis
  proof (cases "p_activeWorkers s ! i = w_idle")
    case True
    from pool_take [OF i(1) True r(1)] show ?thesis
      using less one upd by (intro exI conjI) (assumption, simp_all add: pool_work_def)
  next
    case False
    then have w: "p_activeWorkers s ! i = w_waiting" using i(2) by simp
    have "takers_blocked (p_queue s) = 0"
      using inv closing due by (auto simp: pool_inv_def queue_inv_def)
    moreover have "0 < sum_list (map worker_waits (p_activeWorkers s))"
      using sum_list_map_update [OF i(1), of worker_waits w_idle] w by (simp add: worker_waits_def)
    ultimately have "0 < takers_woken (p_queue s)"
      using inv by (simp add: pool_inv_def pool_tasks_inv_def)
    from pool_take_wake [OF i(1) w this] r(2) show ?thesis
      using less one upd by (intro exI conjI) (blast, simp_all add: pool_work_def)
  qed
qed

lemma pool_joinable:
  assumes "set (p_activeWorkers s) \<subseteq> {w_exited}" "list_all (\<lambda>p. per_pc p = per_exited) (p_periodicWorkers s)"
    and "length (p_activeWorkers s) + length (p_periodicWorkers s) \<le> caller"
    and "p_poolState s \<noteq> ps_stopped"
  shows "pool_join caller s = join_done (s\<lparr>p_poolState := ps_stopped\<rparr>)"
proof -
  have join: "(\<forall>b\<in>set bs. b) \<Longrightarrow> length is = length bs \<Longrightarrow> caller \<notin> set is \<Longrightarrow> join_loop caller (zip is bs) = join_done ()"
    for "is" bs by (induction "is" bs rule: list_induct2') auto
  have "join_loop caller (periodic_threads s) = join_done ()"
    unfolding periodic_threads_def using assms by (intro join) (auto simp: list_all_iff)
  moreover have "join_loop caller (active_threads s) = join_done ()"
    unfolding active_threads_def using assms by (intro join) auto
  ultimately show ?thesis
    using assms(4) by (simp add: pool_join_def blocking_thread_stopping_def)
qed

lemma worker_cases:
  "set ws \<subseteq> {w_exited} \<or> (\<exists>i t. i < length ws \<and> ws ! i = w_running t) \<or>
     (\<exists>i. i < length ws \<and> (ws ! i = w_idle \<or> ws ! i = w_waiting))"
proof (rule ccontr)
  assume none: "\<not> ?thesis"
  have "w = w_exited" if "w \<in> set ws" for w
    using none that by (cases w) (auto simp: in_set_conv_nth)
  with none show False by auto
qed

lemma periodic_progress:
  assumes "i < length (p_periodicWorkers s)" "per_pc (p_periodicWorkers s ! i) \<noteq> per_exited" "p_poolState s = ps_stopping"
  shows "\<exists>t. pool_step s t \<and> pool_work t < pool_work s \<and> p_poolState t \<noteq> ps_running"
proof -
  let ?p = "p_periodicWorkers s ! i"
  let ?v = "?p\<lparr>per_pc := periodic_next (p_poolState s) (per_pc ?p)\<rparr>"
  have "periodic_work ?v < periodic_work ?p"
    using assms(2,3) by (cases "per_pc ?p") (auto simp: periodic_work_def periodic_next_def)
  with pool_periodic_step [OF assms(1) refl] show ?thesis
    using assms(3) sum_list_map_update [OF assms(1), of periodic_work ?v]
    by (intro exI conjI) (assumption, simp_all add: pool_work_def)
qed

lemma pool_progress:
  assumes inv: "pool_inv opt s" and st: "p_poolState s = ps_stopping"
  shows "\<exists>t. pool_step s t \<and> pool_work t < pool_work s \<and> p_poolState t \<noteq> ps_running"
proof -
  consider (close) "p_shutting_down s" | (notify) "\<not> p_shutting_down s" "0 < close_due (p_queue s)"
    | (run) i t where "i < length (p_activeWorkers s)" "p_activeWorkers s ! i = w_running t"
    | (take) i where "\<not> p_shutting_down s" "close_due (p_queue s) = 0" "i < length (p_activeWorkers s)"
        "p_activeWorkers s ! i = w_idle \<or> p_activeWorkers s ! i = w_waiting"
    | (periodic) i where "i < length (p_periodicWorkers s)" "per_pc (p_periodicWorkers s ! i) \<noteq> per_exited"
    | (join) "\<not> p_shutting_down s" "set (p_activeWorkers s) \<subseteq> {w_exited}"
        "list_all (\<lambda>p. per_pc p = per_exited) (p_periodicWorkers s)"
    using worker_cases [of "p_activeWorkers s"] by (auto simp: list_all_length)
  then show ?thesis
  proof cases
    case close
    from pool_close [OF close] show ?thesis
      using close st by (intro exI conjI) (assumption, simp_all add: shutdown_close_def pool_work_def)
  next
    case notify
    from pool_queue [OF int_close_notify [OF notify(2)]] show ?thesis
      using notify st by (intro exI conjI) (assumption, simp_all add: pool_work_def)
  next
    case (run i t)
    from pool_run [OF run] show ?thesis
      using run st sum_list_map_update [OF run(1), of worker_work w_idle]
      by (intro exI conjI) (assumption, simp_all add: pool_work_def worker_work_def)
  next
    case (take i)
    have "q_state (pool_q s) = q_closing"
      using inv st take(1) by (auto simp: pool_inv_def pool_phase_inv_def)
    from worker_take_progress [OF inv this take(3,4,2)] st show ?thesis by auto
  next
    case (periodic i)
    then show ?thesis using periodic_progress st by blast
  next
    case join
    from pool_joined [OF _ join(1) pool_joinable [OF join(2,3) order.refl]] st show ?thesis
      by (intro exI conjI) (auto simp: pool_work_def)
  qed
qed

lemma pool_finishes:
  "pool_inv opt s \<Longrightarrow> p_poolState s \<noteq> ps_running \<Longrightarrow> \<exists>t. pool_step\<^sup>*\<^sup>* s t \<and> p_poolState t = ps_stopped"
proof (induction "pool_work s" arbitrary: s rule: less_induct)
  case less
  show ?case
  proof (cases "p_poolState s = ps_stopped")
    case False
    then have "p_poolState s = ps_stopping" using less.prems(2) by (cases "p_poolState s") auto
    from pool_progress [OF less.prems(1) this] obtain t where
      t: "pool_step s t" "pool_work t < pool_work s" "p_poolState t \<noteq> ps_running" by blast
    from less.hyps [OF t(2) pool_inv_step [OF less.prems(1) t(1)] t(3)] t(1) show ?thesis
      by (meson converse_rtranclp_into_rtranclp)
  qed blast
qed

text \<open>\<open>put\<close> on a pool of its own is a run of the machine.\<close>

lemma pool_put_steps:
  assumes "pool_put t s = Done (s', r)"
  shows "pool_step\<^sup>*\<^sup>* s s'"
proof (cases "p_poolState s = ps_running")
  case False
  then show ?thesis using assms pool_enter [of s t] by (auto simp: pool_put_def)
next
  case True
  let ?pol = "o_rejection_policy (p_opt s)"
  let ?e = "pool_put_enter t s"
  from assms True obtain q e where qe: "submit_section ?pol (pool_q s) (Some t) = Done (q, e)"
    by (auto simp: pool_put_def split: locked_section.splits)
  let ?f = "pool_put_finish t e (s\<lparr>p_queue := finish_put (p_queue s) (Some t) (q, e)\<rparr>)"
  have e: "?e\<lparr>p_submitting := p_submitting ?e - {#t#}\<rparr> = s" using True by (simp add: pool_put_enter_def)
  have "pool_step ?e (pool_put_finish t e (?e\<lparr>p_submitting := p_submitting ?e - {#t#},
      p_queue := finish_put (p_queue ?e) (Some t) (q, e)\<rparr>))"
    by (rule pool_submit) (use True qe in \<open>simp_all add: pool_put_enter_def\<close>)
  then have "pool_step ?e ?f" using True by (simp add: pool_put_enter_def)
  with pool_enter [of s t] have f: "pool_step\<^sup>*\<^sup>* s ?f" by (meson converse_rtranclp_into_rtranclp r_into_rtranclp)
  consider "s' = ?f" | "put_outcome ?pol e = Inr act_run_in_caller" "s' = pool_caller_ran t ?f"
    using assms True qe by (auto simp: pool_put_def Let_def split: sum.splits put_action.splits)
  then show ?thesis
  proof cases
    case 2
    then have "t \<in># p_caller_running ?f" by (simp add: pool_put_finish_def)
    with f 2(2) show ?thesis by (metis pool_caller rtranclp.rtrancl_into_rtrancl)
  qed (use f in simp)
qed

lemma exited_no_task: "set ws \<subseteq> {w_exited} \<Longrightarrow> sum_list (map worker_task ws) = {#}"
  by (induction ws) (auto simp: worker_task_def)

text \<open>A pool with one worker, and its state after it accepted a task, after the worker ran it, and
  after shutdown and join.\<close>

definition one_worker :: thread_pool_options where
  "one_worker = default_pool_options\<lparr>o_workers_count := 1\<rparr>"

definition one_worker_state ::
  "'t worker \<Rightarrow> pool_state \<Rightarrow> bool \<Rightarrow> container_state \<Rightarrow> 't option list \<Rightarrow> 't list \<Rightarrow> 't list \<Rightarrow> nat \<Rightarrow> nat \<Rightarrow> 't pool" where
  "one_worker_state w st sd qs buf futs done notFull closes =
     \<lparr>p_queue = \<lparr>sys_q = \<lparr>q_state = qs, q_maxQueueSize = 0, q_buffer = buf\<rparr>,
        putters_blocked = {#}, putters_woken = {#}, takers_blocked = 0, takers_woken = 0,
        notFull_due = notFull, close_due = closes, g_accepted = map Some futs,
        g_taken = (case w of w_running t \<Rightarrow> map Some (done @ [t]) | _ \<Rightarrow> map Some done)\<rparr>,
      p_opt = clamp_options one_worker, p_poolState = st, p_periodic_workers_count = 0,
      p_activeWorkers = [w], p_periodicWorkers = [], p_shutting_down = sd, p_submitting = {#},
      p_caller_running = {#}, g_executed = done, g_caller_ran = [], g_futures = futs, g_thrown = []\<rparr>"

lemmas one_worker_defs = one_worker_state_def one_worker_def default_pool_options_def clamp_options_def

abbreviation "one_worker_start \<equiv> one_worker_state w_idle ps_running False q_open [] [] [] 0 0"
abbreviation "one_worker_loaded t \<equiv> one_worker_state w_idle ps_running False q_open [Some t] [t] [] 0 0"
abbreviation "one_worker_busy t \<equiv> one_worker_state (w_running t) ps_running False q_open [] [t] [] 1 0"
abbreviation "one_worker_idle t \<equiv> one_worker_state w_idle ps_running False q_open [] [t] [t] 1 0"
abbreviation "one_worker_stopped t \<equiv> one_worker_state w_exited ps_stopped False q_closing [] [t] [t] 1 1"

lemma one_worker_reach_start: "reach (pool_start one_worker) pool_step one_worker_start"
  by (rule reach_start)
    (simp add: pool_start_def setup_threads_def one_worker_defs queue_sys_init_def new_queue_def)

lemma one_worker_put: "pool_put t one_worker_start = Done (one_worker_loaded t, Inr t)"
  by (simp add: pool_put_def one_worker_defs submit_section_def queue_put_def over_limit_def push_task_def
      finish_put_def notify_taker_def pool_put_finish_def put_outcome_def put_erc_answer_def Let_def)

lemma one_worker_steps:
  "pool_step (one_worker_loaded t) (one_worker_busy t)"
  "pool_step (one_worker_busy t) (one_worker_idle t)"
  "pool_step\<^sup>*\<^sup>* (one_worker_idle t) (one_worker_stopped t)"
proof -
  let ?w = "\<lambda>w st sd qs c. one_worker_state w st sd qs [] [t] [t] 1 c"
  show "pool_step (one_worker_loaded t) (one_worker_busy t)"
    using pool_take [of 0 "one_worker_loaded t"]
    by (simp add: one_worker_state_def take_section_defs finish_take_def worker_after_take_def)
  show "pool_step (one_worker_busy t) (one_worker_idle t)"
    using pool_run [of 0 "one_worker_busy t" t] by (simp add: one_worker_state_def)
  have a: "pool_step (one_worker_idle t) (?w w_idle ps_stopping True q_open 0)"
    using pool_shutdown [of "one_worker_idle t"] by (simp add: one_worker_state_def shutdown_store_def)
  have b: "pool_step (?w w_idle ps_stopping True q_open 0) (?w w_idle ps_stopping False q_closing 1)"
    using pool_close [of "?w w_idle ps_stopping True q_open 0"]
    by (simp add: one_worker_state_def shutdown_close_def queue_close_def)
  have c: "pool_step (?w w_idle ps_stopping False q_closing 1) (?w w_exited ps_stopping False q_closing 1)"
    using pool_take [of 0 "?w w_idle ps_stopping False q_closing 1"]
    by (simp add: one_worker_state_def take_section_defs finish_take_def worker_after_take_def)
  have d: "pool_step (?w w_exited ps_stopping False q_closing 1) (one_worker_stopped t)"
    using pool_joined [of "?w w_exited ps_stopping False q_closing 1" 1]
    by (simp add: one_worker_state_def pool_join_def blocking_thread_stopping_def active_threads_def periodic_threads_def)
  from a b c d show "pool_step\<^sup>*\<^sup>* (one_worker_idle t) (one_worker_stopped t)"
    by (meson converse_rtranclp_into_rtranclp rtranclp.rtrancl_refl)
qed

lemma one_worker_reach:
  "reach (pool_start one_worker) pool_step (one_worker_loaded t)"
  "reach (pool_start one_worker) pool_step (one_worker_busy t)"
  "reach (pool_start one_worker) pool_step (one_worker_stopped t)"
proof -
  show 1: "reach (pool_start one_worker) pool_step (one_worker_loaded t)"
    by (rule reach_steps [OF one_worker_reach_start pool_put_steps [OF one_worker_put]])
  show 2: "reach (pool_start one_worker) pool_step (one_worker_busy t)"
    by (rule reach_step [OF 1 one_worker_steps(1)])
  show "reach (pool_start one_worker) pool_step (one_worker_stopped t)"
    by (rule reach_steps [OF reach_step [OF 2 one_worker_steps(2)] one_worker_steps(3)])
qed

section \<open>Properties\<close>

text \<open>C1: Graceful shutdown drains the pool.  In every interleaving of submitters, workers, periodic
  workers, \<open>shutdown_graceful\<close> and \<open>join\<close>, once the pool is \<open>stopped\<close> its queue is empty, all its
  threads have returned, and the tasks whose future was handed out are exactly those that workers
  executed plus those run by their submitters, each once.\<close>

theorem graceful_shutdown_drains:
  assumes "reach (pool_start opt) pool_step s" and "p_poolState s = ps_stopped"
  shows "pool_queued s = [] \<and> (\<forall>w \<in> set (p_activeWorkers s). w = w_exited) \<and>
    (\<forall>p \<in> set (p_periodicWorkers s). per_pc p = per_exited) \<and>
    mset (g_futures s) = mset (g_executed s) + mset (g_caller_ran s)"
proof -
  have inv: "pool_inv opt s" by (rule pool_machine.reach_inv [OF assms(1)])
  then have ex: "set (p_activeWorkers s) \<subseteq> {w_exited}"
      "\<forall>p \<in> set (p_periodicWorkers s). per_pc p = per_exited" "p_activeWorkers s \<noteq> []"
    using assms(2)
    by (auto simp: pool_inv_def pool_phase_inv_def pool_size_inv_def clamp_options_def Let_def list_all_iff)
  then have "w_exited \<in> set (p_activeWorkers s)" by (cases "p_activeWorkers s") auto
  then have empty: "pool_queued s = []" using inv by (simp add: pool_inv_def pool_phase_inv_def)
  have "sum_list (map worker_task (p_activeWorkers s)) = {#}"
    using ex(1) by (rule exited_no_task)
  then have "image_mset Some (mset (g_futures s)) = image_mset Some (mset (g_executed s) + mset (g_caller_ran s))"
    using inv empty by (simp add: pool_inv_def pool_tasks_inv_def fifo_inv_def)
  then have "mset (g_futures s) = mset (g_executed s) + mset (g_caller_ran s)"
    by (rule injD [OF multiset.inj_map [OF inj_Some]])
  with empty ex show ?thesis by auto
qed

theorem graceful_shutdown_drains_witness:
  "let s = one_worker_stopped (7 :: nat) in reach (pool_start one_worker) pool_step s \<and>
     p_poolState s = ps_stopped \<and> g_futures s = [7] \<and>
     mset (g_futures s) = mset (g_executed s) + mset (g_caller_ran s)"
  using graceful_shutdown_drains [OF one_worker_reach(3), of 7] one_worker_reach(3) [of 7]
  by (simp add: one_worker_state_def)

text \<open>C4: A pool that is shut down can always finish: from every reachable state in which shutdown was
  requested, with any threads asleep, notified or running, the pool's own threads and a joining thread
  can bring it to \<open>stopped\<close>; and whatever they do, it never goes back to an earlier state.\<close>

theorem shutdown_reaches_stopped:
  assumes "reach (pool_start opt) pool_step s" and "p_poolState s \<noteq> ps_running"
  shows "(\<exists>t. pool_step\<^sup>*\<^sup>* s t \<and> p_poolState t = ps_stopped) \<and> (\<forall>u. pool_step\<^sup>*\<^sup>* s u \<longrightarrow> p_poolState s \<le> p_poolState u)"
  using pool_finishes [OF pool_machine.reach_inv [OF assms(1)] assms(2)] pool_state_steps by blast

theorem shutdown_reaches_stopped_witness:
  "let s = shutdown_store (one_worker_busy (7 :: nat)) in reach (pool_start one_worker) pool_step s \<and>
     p_poolState s \<noteq> ps_running \<and> (\<exists>t. pool_step\<^sup>*\<^sup>* s t \<and> p_poolState t = ps_stopped)"
proof -
  let ?s = "shutdown_store (one_worker_busy (7 :: nat))"
  have "pool_step (one_worker_busy (7 :: nat)) ?s"
    by (rule pool_shutdown) (simp add: one_worker_state_def)
  then have r: "reach (pool_start one_worker) pool_step ?s" by (rule reach_step [OF one_worker_reach(2)])
  moreover have st: "p_poolState ?s \<noteq> ps_running" by (simp add: shutdown_store_def one_worker_state_def)
  ultimately show ?thesis using shutdown_reaches_stopped [OF r st, THEN conjunct1] by simp
qed

text \<open>C12: At every moment each task whose future was handed out is queued, running on exactly one worker,
  executed, or was run by its submitter; queued tasks are started in the order of their acceptance; the
  pool has exactly \<open>workers_count\<close> workers, at least one, at most \<open>max_periodic_tasks\<close> periodic workers,
  and never more than \<open>max_queue_size\<close> queued tasks when that limit is set.\<close>

theorem pool_accounts_for_tasks:
  assumes "reach (pool_start opt) pool_step s"
  shows "image_mset Some (mset (g_futures s)) =
      mset (pool_queued s) + sum_list (map worker_task (p_activeWorkers s)) +
      image_mset Some (mset (g_executed s) + mset (g_caller_ran s)) \<and>
    g_accepted (p_queue s) = g_taken (p_queue s) @ pool_queued s \<and>
    length (p_activeWorkers s) = max 1 (o_workers_count opt) \<and>
    length (p_periodicWorkers s) \<le> max 1 (o_max_periodic_tasks opt) \<and>
    (o_max_queue_size opt \<noteq> 0 \<longrightarrow> length (pool_queued s) \<le> o_max_queue_size opt)"
  using pool_machine.reach_inv [OF assms]
  by (auto simp: pool_inv_def pool_tasks_inv_def pool_size_inv_def fifo_inv_def clamp_options_def Let_def
      queue_inv_def queue_size_def)

theorem pool_accounts_for_tasks_witness:
  "let s = one_worker_busy (7 :: nat) in reach (pool_start one_worker) pool_step s \<and>
     g_accepted (p_queue s) = [Some 7] \<and> length (p_activeWorkers s) = 1"
  using pool_accounts_for_tasks [OF one_worker_reach(2), of 7] one_worker_reach(2) [of 7]
  by (simp add: one_worker_state_def)

text \<open>C27: \<open>put\<close> on every branch.  A pool that is not running throws \<open>ThreadPoolStopped\<close> and queues nothing.
  On a running pool with room the task is queued and its future returned.  On a running pool whose queue
  is full, \<open>throw_exception\<close> throws \<open>QueueFull\<close>, \<open>caller_runs\<close> runs the task before returning its future,
  and the two blocking policies wait; in none of these cases is the task queued.\<close>

theorem pool_put_branches:
  "(p_poolState s \<noteq> ps_running \<longrightarrow>
      (\<exists>s'. pool_put t s = Done (s', Inl ThreadPoolStopped) \<and> p_queue s' = p_queue s)) \<and>
   (p_poolState s = ps_running \<and> q_state (pool_q s) = q_open \<and> \<not> over_limit deque_ops (pool_q s) \<longrightarrow>
      (\<exists>s'. pool_put t s = Done (s', Inr t) \<and> pool_queued s' = pool_queued s @ [Some t] \<and>
        g_caller_ran s' = g_caller_ran s)) \<and>
   (p_poolState s = ps_running \<and> q_state (pool_q s) = q_open \<and> over_limit deque_ops (pool_q s) \<longrightarrow>
      (case o_rejection_policy (p_opt s) of
         rp_throw_exception \<Rightarrow> \<exists>s'. pool_put t s = Done (s', Inl QueueFull) \<and> pool_queued s' = pool_queued s
       | rp_caller_runs \<Rightarrow> \<exists>s'. pool_put t s = Done (s', Inr t) \<and> pool_queued s' = pool_queued s \<and>
           g_caller_ran s' = g_caller_ran s @ [t]
       | rp_block \<Rightarrow> pool_put t s = Wait
       | rp_block_for \<Rightarrow> pool_put t s = Wait))"
  by (cases "o_rejection_policy (p_opt s)")
    (auto simp: pool_put_def pool_put_enter_def submit_section_def put_section_defs put_outcome_def
      put_erc_answer_def pool_caller_ran_def Let_def)

theorem pool_put_branches_witness:
  "\<exists>s'. pool_put (9 :: nat) (one_worker_state w_exited ps_stopping False q_closing [] [] [] 0 0) =
     Done (s', Inl ThreadPoolStopped)"
  using pool_put_branches [of "one_worker_state w_exited ps_stopping False q_closing [] [] [] 0 0" "9 :: nat"]
  by (auto simp: one_worker_state_def)

end
