(* ===== verification/Executor.thy ===== *)
theory Executor
  imports Thread_Pool
begin

text \<open>
  The executor interface of \<^verbatim>\<open>stp/IExecutor.hpp\<close> and its thread-pool implementation
  \<^verbatim>\<open>stp/ThreadPoolExecutor.hpp\<close>, \<^verbatim>\<open>stp/ThreadPoolExecutor.cpp\<close>.  The interface is the locale
  \<open>executor\<close>: an implementation provides \<open>post\<close> and says which tasks it has taken over; \<open>submit\<close> and
  \<open>submit_fire_and_forget\<close> are the non-virtual functions of the base class, written once over \<open>post\<close>.
  The locale is interpreted on \<open>ThreadPoolExecutor::post\<close>.
\<close>

section \<open>The base class\<close>

record task_options =
  to_is_periodic :: bool
  to_periodic_interval_ms :: nat

definition default_task_options :: task_options where
  "default_task_options = \<lparr>to_is_periodic = False, to_periodic_interval_ms = 0\<rparr>"

text \<open>A future without shared state, the future of task \<open>t\<close>, or a future that already carries an
  exception.\<close>

datatype 't future = fut_invalid | fut_of 't | fut_exception stp_exn

definition make_exceptional_future :: "stp_exn \<Rightarrow> 't future" where
  "make_exceptional_future e = fut_exception e"

type_synonym ('s, 't) post_fun = "'s \<Rightarrow> 't option \<Rightarrow> task_options \<Rightarrow> ('s \<times> bool) locked_section"

definition executor_submit ::
  "('s, 't) post_fun \<Rightarrow> 's \<Rightarrow> task_options \<Rightarrow> 't \<Rightarrow> ('s \<times> 't future) locked_section" where
  "executor_submit post s opt t =
     (if to_is_periodic opt then
        case post s (Some t) opt of
          Done (s', postFlag) \<Rightarrow>
            Done (s', if \<not> postFlag then make_exceptional_future (TaskRejected ''Task rejected'')
                      else fut_invalid)
        | Wait \<Rightarrow> Wait
        | Undef \<Rightarrow> Undef
      else
        case post s (Some t) opt of
          Done (s', postFlag) \<Rightarrow>
            Done (s', if \<not> postFlag then make_exceptional_future (TaskRejected ''Task rejected'')
                      else fut_of t)
        | Wait \<Rightarrow> Wait
        | Undef \<Rightarrow> Undef)"

definition submit_fire_and_forget ::
  "('s, 't) post_fun \<Rightarrow> 's \<Rightarrow> 't option \<Rightarrow> ('s \<times> bool) locked_section" where
  "submit_fire_and_forget post s t = post s t default_task_options"

section \<open>The thread-pool executor\<close>

text \<open>\<open>m_threadPool\<close> is a \<open>unique_ptr\<close>; every exception of the pool becomes \<open>false\<close>.\<close>

definition tp_post :: "('t pool option, 't) post_fun" where
  "tp_post ex task opt =
     (case ex of
        None \<Rightarrow> Done (ex, False)
      | Some p \<Rightarrow>
         (case task of
            None \<Rightarrow> Done (ex, False)
          | Some t \<Rightarrow>
              if to_is_periodic opt
              then (case put_periodic (to_periodic_interval_ms opt) (Some t) p of
                      (p', Inr _) \<Rightarrow> Done (Some p', True)
                    | (p', Inl _) \<Rightarrow> Done (Some p', False))
              else (case pool_put t p of
                      Done (p', Inr _) \<Rightarrow> Done (Some p', True)
                    | Done (p', Inl _) \<Rightarrow> Done (Some p', False)
                    | Wait \<Rightarrow> Wait
                    | Undef \<Rightarrow> Undef)))"

text \<open>The two factories; a constructor that throws yields a null pointer.\<close>

definition makeThreadPoolExecutor ::
  "thread_pool_options \<Rightarrow> (nat \<Rightarrow> bool) \<Rightarrow> 't pool option option" where
  "makeThreadPoolExecutor opt spawn =
     (case setup_threads opt spawn of Inl _ \<Rightarrow> None | Inr p \<Rightarrow> Some (Some p))"

definition makeThreadPoolExecutor_sized ::
  "nat \<Rightarrow> nat \<Rightarrow> (nat \<Rightarrow> bool) \<Rightarrow> 't pool option option" where
  "makeThreadPoolExecutor_sized current_threads max_threads spawn =
     makeThreadPoolExecutor (default_pool_options\<lparr>o_workers_count := current_threads,
       o_max_workers := max_threads, o_max_periodic_tasks := max_threads\<rparr>) spawn"

section \<open>The executor contract\<close>

text \<open>\<open>taken s\<close> are the tasks the executor in state \<open>s\<close> has taken over since it was made.\<close>

locale executor =
  fixes post :: "('s, 't) post_fun" and taken :: "'s \<Rightarrow> 't multiset"
  assumes post_accepts: "post s (Some t) opt = Done (s', True) \<Longrightarrow> taken s' = add_mset t (taken s)"
    and post_rejects: "post s x opt = Done (s', False) \<Longrightarrow> taken s' = taken s"
    and post_empty: "post s None opt = Done (s, False)"
begin

text \<open>Clients see from the returned future whether the task was taken over.\<close>

lemma submit_taken:
  assumes "executor_submit post s opt t = Done (s', f)"
  shows "(case f of
      fut_of u \<Rightarrow> u = t \<and> \<not> to_is_periodic opt \<and> taken s' = add_mset t (taken s)
    | fut_invalid \<Rightarrow> to_is_periodic opt \<and> taken s' = add_mset t (taken s)
    | fut_exception e \<Rightarrow> stp_code e = ec_task_rejected \<and> taken s' = taken s)"
  using assms
  by (auto simp: executor_submit_def make_exceptional_future_def
      dest: post_accepts post_rejects split: if_splits locked_section.splits)

lemma fire_and_forget_taken:
  assumes "submit_fire_and_forget post s x = Done (s', b)"
  shows "taken s' = (case x of Some t \<Rightarrow> if b then add_mset t (taken s) else taken s | None \<Rightarrow> taken s)"
  using assms post_empty
  by (cases x; cases b) (auto simp: submit_fire_and_forget_def dest: post_accepts post_rejects)

end

definition tp_taken :: "'t pool option \<Rightarrow> 't multiset" where
  "tp_taken ex =
     (case ex of None \<Rightarrow> {#} | Some p \<Rightarrow> mset (g_futures p) + mset (map per_task (p_periodicWorkers p)))"

lemma pool_put_taken:
  assumes "pool_put t p = Done (p', r)"
  shows "p_periodicWorkers p' = p_periodicWorkers p \<and>
    g_futures p' = (case r of Inl _ \<Rightarrow> g_futures p | Inr _ \<Rightarrow> g_futures p @ [t])"
proof (cases "p_poolState p = ps_running")
  case True
  with assms obtain q e where
    "submit_section (o_rejection_policy (p_opt p)) (pool_q p) (Some t) = Done (q, e)"
    by (auto simp: pool_put_def split: locked_section.splits)
  with assms True put_outcome_future [of "o_rejection_policy (p_opt p)" e] show ?thesis
    by (auto simp: pool_put_def Let_def pool_caller_ran_def split: sum.splits put_action.splits)
qed (use assms in \<open>auto simp: pool_put_def pool_put_enter_def\<close>)

lemma put_periodic_taken:
  assumes "put_periodic ms (Some t) p = (p', r)"
  shows "g_futures p' = g_futures p \<and> map per_task (p_periodicWorkers p') =
    (case r of Inl _ \<Rightarrow> map per_task (p_periodicWorkers p) | Inr _ \<Rightarrow> map per_task (p_periodicWorkers p) @ [t])"
  using assms by (auto simp: put_periodic_def add_periodic_thread_def split: if_splits)

interpretation tp: executor tp_post tp_taken
proof (unfold_locales, goal_cases)
  case (1 s t opt s')
  then show ?case
    by (cases s) (auto simp: tp_post_def tp_taken_def split: if_splits prod.splits sum.splits locked_section.splits
        dest: pool_put_taken put_periodic_taken)
next
  case (2 s x opt s')
  then show ?case
    by (cases s; cases x) (auto simp: tp_post_def tp_taken_def split: if_splits prod.splits sum.splits
        locked_section.splits dest: pool_put_taken put_periodic_taken)
next
  case (3 s opt)
  then show ?case by (simp add: tp_post_def split: option.split)
qed

section \<open>Properties\<close>

text \<open>C28: \<open>submit\<close> on a thread-pool executor reports truthfully what happened to the task: the task's own
  future comes back only for a non-periodic task the pool has taken over, an invalid future only for a
  periodic task it has taken over, and in every other case the future carries \<open>TaskRejected\<close> and the
  pool has not taken the task.\<close>

theorem executor_submit_contract:
  assumes "executor_submit tp_post ex opt t = Done (ex', f)"
  shows "(case f of
      fut_of u \<Rightarrow> u = t \<and> \<not> to_is_periodic opt \<and> tp_taken ex' = add_mset t (tp_taken ex)
    | fut_invalid \<Rightarrow> to_is_periodic opt \<and> tp_taken ex' = add_mset t (tp_taken ex)
    | fut_exception e \<Rightarrow> stp_code e = ec_task_rejected \<and> tp_taken ex' = tp_taken ex)"
  using assms by (rule tp.submit_taken)

theorem executor_submit_contract_witness:
  "executor_submit tp_post (Some one_worker_start) default_task_options (7 :: nat) =
     Done (Some (one_worker_loaded 7), fut_of 7) \<and>
   tp_taken (Some (one_worker_loaded (7 :: nat))) = add_mset 7 (tp_taken (Some one_worker_start))"
proof -
  have "executor_submit tp_post (Some one_worker_start) default_task_options (7 :: nat) =
      Done (Some (one_worker_loaded 7), fut_of 7)"
    by (simp add: executor_submit_def tp_post_def default_task_options_def one_worker_put)
  with executor_submit_contract [OF this] show ?thesis by simp
qed

end
