(* ===== verification/Rtl_Timer.thy ===== *)
theory Rtl_Timer
  imports Executor
begin

text \<open>
  The one-shot timer of \<^verbatim>\<open>stp/RtlTimer.hpp\<close>.  Client calls are one section under \<open>m_mtx\<close> each;
  \<open>run_timer\<close>, which occupies one task of the executor, is cut at its two condition-variable waits and
  at the submission of the handler.  Handlers are values of type \<open>'h\<close>; the executor is any
  implementation of the executor contract with state \<open>'e\<close>.  Time is an integer that only grows.
\<close>

section \<open>The timer object\<close>

datatype timer_result = timer_expired | timer_cancelled

text \<open>Where \<open>run_timer\<close> stands: in the outer wait, in \<open>wait_until\<close> with the deadline and the version it has
  read, about to submit a handler, or returned.\<close>

datatype 'h timer_pc = tm_outer | tm_inner int size_t | tm_dispatch 'h timer_result | tm_returned

record ('e, 'h) timer =
  tm_handler :: "'h option"
  tm_expiry :: int
  tm_pending :: bool
  tm_cancelRequested :: bool
  tm_stopping :: bool
  tm_version :: size_t
  tm_executor :: 'e
  tm_pc :: "'h timer_pc"
  tm_now :: int
  g_waits :: "'h list"
  g_submitted :: "('h \<times> timer_result) list"
  g_dropped :: "'h list"
  g_cancels :: "'h list"
  g_decided :: "('h \<times> timer_result \<times> int \<times> int) list"
  g_ops :: nat
  g_read :: nat

definition timer_new :: "'e \<Rightarrow> int \<Rightarrow> ('e, 'h) timer" where
  "timer_new ex now =
     \<lparr>tm_handler = None, tm_expiry = now, tm_pending = False, tm_cancelRequested = False,
      tm_stopping = False, tm_version = 0, tm_executor = ex, tm_pc = tm_outer, tm_now = now,
      g_waits = [], g_submitted = [], g_dropped = [], g_cancels = [], g_decided = [], g_ops = 0, g_read = 0\<rparr>"

definition bump_version :: "('e, 'h) timer \<Rightarrow> ('e, 'h) timer" where
  "bump_version s = s\<lparr>tm_version := tm_version s + 1, g_ops := g_ops s + 1\<rparr>"

definition opt_list :: "'h option \<Rightarrow> 'h list" where
  "opt_list x = (case x of None \<Rightarrow> [] | Some h \<Rightarrow> [h])"

definition timer_expires_at :: "int \<Rightarrow> ('e, 'h) timer \<Rightarrow> ('e, 'h) timer" where
  "timer_expires_at tp s = bump_version (s\<lparr>tm_expiry := tp\<rparr>)"

definition timer_expires_after :: "int \<Rightarrow> ('e, 'h) timer \<Rightarrow> ('e, 'h) timer" where
  "timer_expires_after d s = timer_expires_at (tm_now s + d) s"

definition timer_async_wait :: "'h option \<Rightarrow> ('e, 'h) timer \<Rightarrow> ('e, 'h) timer \<times> bool" where
  "timer_async_wait h s =
     (if tm_stopping s \<or> tm_pending s then (s, False)
      else (bump_version (s\<lparr>tm_handler := h, tm_pending := True, tm_cancelRequested := False,
              g_waits := g_waits s @ opt_list h\<rparr>), True))"

definition timer_cancel :: "('e, 'h) timer \<Rightarrow> ('e, 'h) timer \<times> bool" where
  "timer_cancel s =
     (if \<not> tm_pending s then (s, False)
      else (bump_version (s\<lparr>tm_cancelRequested := True, g_cancels := g_cancels s @ opt_list (tm_handler s)\<rparr>), True))"

definition timer_shutdown :: "('e, 'h) timer \<Rightarrow> ('e, 'h) timer" where
  "timer_shutdown s =
     (if tm_stopping s then s
      else bump_version (s\<lparr>tm_stopping := True, tm_pending := False, tm_handler := None,
              g_dropped := g_dropped s @ opt_list (tm_handler s)\<rparr>))"

section \<open>The timer thread\<close>

text \<open>Entering \<open>wait_until\<close>: deadline and version are read.\<close>

definition timer_read :: "('e, 'h) timer \<Rightarrow> ('e, 'h) timer" where
  "timer_read s = s\<lparr>tm_pc := tm_inner (tm_expiry s) (tm_version s), g_read := g_ops s\<rparr>"

definition timer_outer :: "('e, 'h) timer \<Rightarrow> ('e, 'h) timer locked_section" where
  "timer_outer s =
     (if \<not> (tm_stopping s \<or> tm_pending s) then Wait
      else if tm_stopping s then Done (s\<lparr>tm_pc := tm_returned\<rparr>)
      else Done (timer_read s))"

definition timer_pred :: "size_t \<Rightarrow> ('e, 'h) timer \<Rightarrow> bool" where
  "timer_pred v s \<longleftrightarrow> tm_stopping s \<or> \<not> tm_pending s \<or> tm_cancelRequested s \<or> tm_version s \<noteq> v"

text \<open>The handler is moved out of \<open>m_handler\<close>; an empty one is not submitted.\<close>

definition timer_decide :: "timer_result \<Rightarrow> ('e, 'h) timer \<Rightarrow> ('e, 'h) timer" where
  "timer_decide r s =
     s\<lparr>tm_pending := False, tm_handler := None,
       tm_pc := (case tm_handler s of None \<Rightarrow> tm_outer | Some h \<Rightarrow> tm_dispatch h r),
       g_decided := g_decided s @ map (\<lambda>h. (h, r, tm_expiry s, tm_now s)) (opt_list (tm_handler s))\<rparr>"

definition timer_inner :: "bool \<Rightarrow> size_t \<Rightarrow> ('e, 'h) timer \<Rightarrow> ('e, 'h) timer" where
  "timer_inner woke_by_state_change v s =
     (if tm_stopping s then s\<lparr>tm_pc := tm_returned\<rparr>
      else if \<not> tm_pending s then s\<lparr>tm_pc := tm_outer\<rparr>
      else if tm_cancelRequested s then timer_decide timer_cancelled (s\<lparr>tm_cancelRequested := False\<rparr>)
      else if v \<noteq> tm_version s then timer_read s
      else if \<not> woke_by_state_change then timer_decide timer_expired s
      else timer_read s)"

text \<open>\<open>run_handler_on_executor\<close>: the returned future is dropped.\<close>

definition run_handler_on_executor ::
  "('e, 'h \<times> timer_result) post_fun \<Rightarrow> 'h \<Rightarrow> timer_result \<Rightarrow> ('e, 'h) timer \<Rightarrow> ('e, 'h) timer locked_section" where
  "run_handler_on_executor post h r s =
     (case executor_submit post (tm_executor s) default_task_options (h, r) of
        Done (ex, _) \<Rightarrow> Done (s\<lparr>tm_executor := ex, tm_pc := tm_outer, g_submitted := g_submitted s @ [(h, r)]\<rparr>)
      | Wait \<Rightarrow> Wait
      | Undef \<Rightarrow> Undef)"

section \<open>Clients and the timer thread together\<close>

inductive timer_step ::
  "('e, 'h \<times> timer_result) post_fun \<Rightarrow> ('e, 'h) timer \<Rightarrow> ('e, 'h) timer \<Rightarrow> bool"
  for post :: "('e, 'h \<times> timer_result) post_fun" where
  timer_tick: "0 \<le> d \<Longrightarrow> timer_step post s (s\<lparr>tm_now := tm_now s + d\<rparr>)"
| timer_client_expires: "timer_step post s (timer_expires_at tp s)"
| timer_client_wait: "timer_step post s (fst (timer_async_wait h s))"
| timer_client_cancel: "timer_step post s (fst (timer_cancel s))"
| timer_client_shutdown: "timer_step post s (timer_shutdown s)"
| timer_thread_outer: "tm_pc s = tm_outer \<Longrightarrow> timer_outer s = Done t \<Longrightarrow> timer_step post s t"
| timer_thread_wake: "tm_pc s = tm_inner d v \<Longrightarrow> timer_pred v s \<Longrightarrow> timer_step post s (timer_inner True v s)"
| timer_thread_timeout: "tm_pc s = tm_inner d v \<Longrightarrow> d \<le> tm_now s \<Longrightarrow>
    timer_step post s (timer_inner (timer_pred v s) v s)"
| timer_thread_submit: "tm_pc s = tm_dispatch h r \<Longrightarrow> run_handler_on_executor post h r s = Done t \<Longrightarrow>
    timer_step post s t"

definition dispatching :: "'h timer_pc \<Rightarrow> ('h \<times> timer_result) list" where
  "dispatching pc = (case pc of tm_dispatch h r \<Rightarrow> [(h, r)] | _ \<Rightarrow> [])"

text \<open>Every accepted handler is in exactly one place, and what was decided is what gets submitted.\<close>

definition timer_slots_inv :: "('e, 'h) timer \<Rightarrow> bool" where
  "timer_slots_inv s \<longleftrightarrow>
     mset (g_waits s) = mset (opt_list (tm_handler s)) + mset (map fst (g_decided s)) + mset (g_dropped s) \<and>
     map (\<lambda>(h, r, e, n). (h, r)) (g_decided s) = g_submitted s @ dispatching (tm_pc s) \<and>
     (\<not> tm_pending s \<longrightarrow> tm_handler s = None)"

text \<open>The version counter is 64 bits wide: the deadline the thread holds is current whenever the
  versions agree, as long as the counter has not wrapped around.\<close>

definition timer_expiry_inv :: "('e, 'h) timer \<Rightarrow> bool" where
  "timer_expiry_inv s \<longleftrightarrow>
     tm_version s = of_nat (g_ops s) \<and> g_read s \<le> g_ops s \<and>
     (case tm_pc s of
        tm_inner d v \<Rightarrow> v = of_nat (g_read s) \<and> (g_read s = g_ops s \<longrightarrow> d = tm_expiry s)
      | _ \<Rightarrow> True) \<and>
     (g_ops s < 18446744073709551616 \<longrightarrow> list_all (\<lambda>(h, r, e, n). r = timer_expired \<longrightarrow> e \<le> n) (g_decided s))"

definition timer_cancel_inv :: "('e, 'h) timer \<Rightarrow> bool" where
  "timer_cancel_inv s \<longleftrightarrow>
     (tm_pending s \<and> tm_cancelRequested s \<longrightarrow> set (opt_list (tm_handler s)) \<subseteq> set (g_cancels s)) \<and>
     list_all (\<lambda>(h, r, e, n). r = timer_cancelled \<longrightarrow> h \<in> set (g_cancels s)) (g_decided s)"

definition timer_inv :: "('e, 'h) timer \<Rightarrow> bool" where
  "timer_inv s \<longleftrightarrow> timer_slots_inv s \<and> timer_expiry_inv s \<and> timer_cancel_inv s"

lemmas timer_inv_defs = timer_inv_def timer_slots_inv_def timer_expiry_inv_def timer_cancel_inv_def

lemma opt_list_simps [simp]: "opt_list None = []" "opt_list (Some h) = [h]"
  by (simp_all add: opt_list_def)

lemma dispatching_simps [simp]:
  "dispatching tm_outer = []" "dispatching (tm_inner d v) = []" "dispatching tm_returned = []"
  "dispatching (tm_dispatch h r) = [(h, r)]"
  by (simp_all add: dispatching_def)

lemma timer_inv_new: "timer_inv (timer_new ex now)"
  by (simp add: timer_inv_defs timer_new_def)

lemmas timer_client_defs = timer_expires_at_def timer_async_wait_def timer_cancel_def timer_shutdown_def
  bump_version_def

lemma timer_slots_clients:
  assumes "timer_slots_inv s"
  shows "timer_slots_inv (timer_expires_at tp s)" "timer_slots_inv (fst (timer_async_wait h s))"
    "timer_slots_inv (fst (timer_cancel s))" "timer_slots_inv (timer_shutdown s)"
  using assms by (auto simp: timer_slots_inv_def timer_client_defs)

lemma timer_expiry_clients:
  assumes "timer_expiry_inv s"
  shows "timer_expiry_inv (timer_expires_at tp s)" "timer_expiry_inv (fst (timer_async_wait h s))"
    "timer_expiry_inv (fst (timer_cancel s))" "timer_expiry_inv (timer_shutdown s)"
  using assms by (auto simp: timer_expiry_inv_def timer_client_defs split: timer_pc.splits)

lemma timer_cancel_clients:
  assumes "timer_cancel_inv s"
  shows "timer_cancel_inv (timer_expires_at tp s)" "timer_cancel_inv (fst (timer_async_wait h s))"
    "timer_cancel_inv (fst (timer_cancel s))" "timer_cancel_inv (timer_shutdown s)"
  using assms by (auto simp: timer_cancel_inv_def timer_client_defs list_all_iff)

lemma timer_inv_clients:
  assumes "timer_inv s"
  shows "timer_inv (timer_expires_at tp s)" "timer_inv (fst (timer_async_wait h s))"
    "timer_inv (fst (timer_cancel s))" "timer_inv (timer_shutdown s)"
  using assms unfolding timer_inv_def
  by (simp_all add: timer_slots_clients timer_expiry_clients timer_cancel_clients)

lemma timer_inv_read:
  "timer_inv s \<Longrightarrow> dispatching (tm_pc s) = [] \<Longrightarrow> timer_inv (timer_read s)"
  by (simp add: timer_inv_defs timer_read_def)

lemma timer_inv_pc:
  "timer_inv s \<Longrightarrow> dispatching (tm_pc s) = [] \<Longrightarrow> pc = tm_outer \<or> pc = tm_returned \<Longrightarrow> timer_inv (s\<lparr>tm_pc := pc\<rparr>)"
  by (auto simp: timer_inv_defs)

lemma timer_inv_decide:
  assumes inv: "timer_inv s" and pc: "dispatching (tm_pc s) = []"
    and due: "r = timer_expired \<Longrightarrow> g_ops s < 18446744073709551616 \<Longrightarrow> tm_expiry s \<le> tm_now s"
    and cancelled: "r = timer_cancelled \<Longrightarrow> set (opt_list (tm_handler s)) \<subseteq> set (g_cancels s)"
  shows "timer_inv (timer_decide r s)"
  using assms by (cases "tm_handler s") (auto simp: timer_inv_defs timer_decide_def)

lemma timer_version_current:
  assumes "timer_inv s" "tm_pc s = tm_inner d v" "v = tm_version s" "g_ops s < 18446744073709551616"
  shows "d = tm_expiry s"
proof -
  have "g_read s \<le> g_ops s" "of_nat (g_read s) = (of_nat (g_ops s) :: size_t)"
    using assms by (auto simp: timer_inv_defs)
  with assms(4) have "g_read s = g_ops s"
    by (metis le_less_trans unat_of_nat_size)
  with assms(1,2) show ?thesis by (simp add: timer_inv_defs)
qed

lemma timer_inv_inner:
  assumes inv: "timer_inv s" and pc: "tm_pc s = tm_inner d v" and due: "\<not> w \<Longrightarrow> d \<le> tm_now s"
  shows "timer_inv (timer_inner w v s)"
proof -
  have idle: "dispatching (tm_pc s) = []" using pc by simp
  have "timer_inv (timer_decide timer_cancelled (s\<lparr>tm_cancelRequested := False\<rparr>))"
    if "tm_pending s" "tm_cancelRequested s"
    by (rule timer_inv_decide) (use inv pc that in \<open>auto simp: timer_inv_defs\<close>)
  moreover have "timer_inv (timer_decide timer_expired s)" if "v = tm_version s" "\<not> w"
    by (rule timer_inv_decide [OF inv idle]) (use timer_version_current [OF inv pc that(1)] due that in auto)
  ultimately show ?thesis
    using timer_inv_read [OF inv idle] timer_inv_pc [OF inv idle] by (auto simp: timer_inner_def)
qed

lemma timer_inv_submit:
  assumes "timer_inv s" "tm_pc s = tm_dispatch h r" "run_handler_on_executor post h r s = Done t"
  shows "timer_inv t"
  using assms by (auto simp: timer_inv_defs run_handler_on_executor_def split: locked_section.splits)

lemma timer_inv_step:
  assumes inv: "timer_inv s" and step: "timer_step post s t"
  shows "timer_inv t"
  using step
proof cases
  case (timer_tick d)
  then show ?thesis using inv by (auto simp: timer_inv_defs split: timer_pc.splits)
next
  case timer_thread_outer
  then show ?thesis
    using timer_inv_read [OF inv] timer_inv_pc [OF inv] by (auto simp: timer_outer_def split: if_splits)
next
  case (timer_thread_wake d v)
  then show ?thesis using timer_inv_inner [OF inv timer_thread_wake(2), of True] by simp
next
  case (timer_thread_timeout d v)
  then show ?thesis using timer_inv_inner [OF inv timer_thread_timeout(2)] by blast
next
  case (timer_thread_submit h r)
  then show ?thesis using timer_inv_submit [OF inv] by blast
qed (use timer_inv_clients [OF inv] in blast)+

interpretation timer_machine: invariant_machine "\<lambda>s. s = timer_new ex now" "timer_step post" timer_inv
  for post ex now
  by unfold_locales (auto intro: timer_inv_new timer_inv_step)

text \<open>What the executor has taken over from the timer, for every implementation of the contract.\<close>

context executor
begin

lemma submit_taken_subset:
  assumes "executor_submit post s opt t = Done (s', f)"
  shows "taken s' \<subseteq># add_mset t (taken s)"
  using submit_taken [OF assms] by (cases f) auto

end

lemma timer_executor_taken:
  assumes "executor post taken" and "reach (\<lambda>s. s = timer_new ex now) (timer_step post) s"
  shows "taken (tm_executor s) \<subseteq># taken ex + mset (g_submitted s)"
  using assms(2)
proof (induction rule: reach.induct)
  case (reach_start s)
  then show ?case by (simp add: timer_new_def)
next
  case (reach_step s t)
  from reach_step.hyps(2) show ?case
  proof cases
    case (timer_thread_submit h r)
    then obtain ex' f where ex': "executor_submit post (tm_executor s) default_task_options (h, r) = Done (ex', f)"
      and t: "t = s\<lparr>tm_executor := ex', tm_pc := tm_outer, g_submitted := g_submitted s @ [(h, r)]\<rparr>"
      by (auto simp: run_handler_on_executor_def split: locked_section.splits)
    have "taken ex' \<subseteq># add_mset (h, r) (taken (tm_executor s))"
      by (rule executor.submit_taken_subset [OF assms(1) ex'])
    also have "\<dots> \<subseteq># taken ex + mset (g_submitted t)"
      using reach_step.IH t by simp
    finally show ?thesis using t by simp
  qed (use reach_step.IH in \<open>auto simp: timer_client_defs timer_outer_def timer_inner_def timer_read_def
      timer_decide_def split: if_splits\<close>)
qed

section \<open>Properties\<close>

text \<open>C15: On a thread-pool executor, in every interleaving of clients, the clock and the timer thread,
  every handler accepted by \<open>async_wait\<close> is at each moment exactly one of: pending, decided once, or
  dropped by \<open>shutdown\<close>; handlers reach the executor in the order and with the result decided, at most
  once each; one decided as \<open>cancelled\<close> was cancelled by a client; and one decided as \<open>expired\<close> was
  decided at or after the expiry time set last, as long as fewer than \<open>2 ^ 64\<close> client calls were made.\<close>

theorem timer_dispatch_correct:
  assumes "reach (\<lambda>s. s = timer_new ex now) (timer_step tp_post) s"
  shows "mset (g_waits s) =
      mset (opt_list (tm_handler s)) + mset (map fst (g_decided s)) + mset (g_dropped s) \<and>
    map (\<lambda>(h, r, e, n). (h, r)) (g_decided s) = g_submitted s @ dispatching (tm_pc s) \<and>
    tp_taken (tm_executor s) \<subseteq># tp_taken ex + mset (g_submitted s) \<and>
    list_all (\<lambda>(h, r, e, n). r = timer_cancelled \<longrightarrow> h \<in> set (g_cancels s)) (g_decided s) \<and>
    (g_ops s < 2 ^ 64 \<longrightarrow> list_all (\<lambda>(h, r, e, n). r = timer_expired \<longrightarrow> e \<le> n) (g_decided s))"
  using timer_machine.reach_inv [OF assms] timer_executor_taken [OF tp.executor_axioms assms]
  by (simp add: timer_inv_defs)

theorem timer_dispatch_correct_witness:
  "\<exists>s. reach (\<lambda>s. s = timer_new (None :: (nat \<times> timer_result) pool option) 5) (timer_step tp_post) s \<and>
     g_decided s = [(1, timer_expired, 5, 5)] \<and>
     list_all (\<lambda>(h, r, e, n). r = timer_expired \<longrightarrow> e \<le> n) (g_decided s)"
proof -
  let ?start = "\<lambda>s. s = timer_new (None :: (nat \<times> timer_result) pool option) 5"
  let ?a = "fst (timer_async_wait (Some (1 :: nat)) (timer_new (None :: (nat \<times> timer_result) pool option) 5))"
  let ?b = "timer_read ?a"
  let ?c = "timer_inner False 1 ?b"
  note defs = timer_new_def timer_async_wait_def bump_version_def timer_read_def timer_inner_def timer_decide_def
  have a: "reach ?start (timer_step tp_post) ?a"
    by (rule reach_step [OF reach_start [where s = "timer_new None 5"]]) (simp, rule timer_client_wait)
  have b: "timer_step tp_post ?a ?b"
    by (rule timer_thread_outer) (simp_all add: defs timer_outer_def)
  have "timer_step tp_post ?b (timer_inner (timer_pred 1 ?b) 1 ?b)"
    by (rule timer_thread_timeout [of ?b 5 1]) (simp_all add: defs)
  moreover have "timer_pred 1 ?b = False" by (simp add: defs timer_pred_def)
  ultimately have c: "timer_step tp_post ?b ?c" by simp
  have r: "reach ?start (timer_step tp_post) ?c" by (rule reach_step [OF reach_step [OF a b] c])
  have d: "g_decided ?c = [(1, timer_expired, 5, 5)]" by (simp add: defs)
  have "g_ops ?c < 2 ^ 64" by (simp add: defs)
  with timer_dispatch_correct [OF r]
  have "list_all (\<lambda>(h, r, e, n). r = timer_expired \<longrightarrow> e \<le> n) (g_decided ?c)" by simp
  with r d show ?thesis by (intro exI conjI) assumption+
qed

end
