(* ===== verification/Db_Core.thy ===== *)
theory Db_Core
  imports Rtl_Prelude
begin

text \<open>
  The database layer's core: errors (\<^verbatim>\<open>db/core/Errors.hpp\<close>), configuration, parameters and the
  translation of driver exceptions (\<^verbatim>\<open>db/core/detail/PqxxHelpers.hpp\<close>), \<open>ConnectionTransaction\<close> and
  \<open>Connection\<close>.  The driver, libpqxx, is a parameter: a record of functions that answer each call from
  the calls made before it.  Its state is the trace of those calls, so every order of calls and every
  failure is covered; a connection or a transaction of the driver is named by the position of the call
  that made it.
\<close>

section \<open>Errors\<close>

datatype db_error_code = db_unknown | db_connection_error | db_pool_exhausted | db_pool_timeout
  | db_query_error | db_constraint_violation | db_serialization_failure | db_deadlock_detected
  | db_transaction_aborted | db_mapping_error | db_configuration_error

text \<open>A \<open>DbError\<close> with its code, message and SQL state; the standard exceptions; or an exception of the
  driver that nobody translated.\<close>

datatype 'x db_exn =
    DbError db_error_code string "string option"
  | LogicError string
  | RuntimeError string
  | OutOfRange string
  | DriverExn 'x

abbreviation "ConnectionError msg \<equiv> DbError db_connection_error msg None"
abbreviation "PoolExhausted msg \<equiv> DbError db_pool_exhausted msg None"
abbreviation "PoolTimeout msg \<equiv> DbError db_pool_timeout msg None"
abbreviation "QueryError msg \<equiv> DbError db_query_error msg None"
abbreviation "MappingError msg \<equiv> DbError db_mapping_error msg None"
abbreviation "ConfigurationError msg \<equiv> DbError db_configuration_error msg None"

definition db_code :: "'x db_exn \<Rightarrow> db_error_code option" where
  "db_code e = (case e of DbError c _ _ \<Rightarrow> Some c | _ \<Rightarrow> None)"

section \<open>Configuration and parameters\<close>

record connection_config =
  cc_host :: string
  cc_dbname :: string
  cc_user :: string
  cc_password :: string
  cc_port :: "16 word"
  cc_application_name :: "string option"
  cc_connect_timeout :: "int option"

definition cc_valid :: "connection_config \<Rightarrow> bool" where
  "cc_valid c \<longleftrightarrow> cc_host c \<noteq> [] \<and> 0 < cc_port c \<and> cc_dbname c \<noteq> [] \<and> cc_user c \<noteq> []"

definition make_connection_string :: "connection_config \<Rightarrow> string" where
  "make_connection_string c =
     ''host='' @ cc_host c @ '' port='' @ nat_dec (unat (cc_port c)) @ '' dbname='' @ cc_dbname c @
     '' user='' @ cc_user c @ '' password='' @ cc_password c @
     (case cc_application_name c of None \<Rightarrow> [] | Some n \<Rightarrow> '' application_name='' @ n) @
     (case cc_connect_timeout c of None \<Rightarrow> [] | Some t \<Rightarrow> '' connect_timeout='' @ int_dec t)"

datatype db_param_value = dp_null | dp_int32 "32 word" | dp_int64 "64 word" | dp_double "64 word"
  | dp_bool bool | dp_string string

record db_param =
  dp_name :: string
  dp_value :: db_param_value

text \<open>The positional arguments handed to the driver; names are dropped.\<close>

definition make_pqxx_params :: "db_param list \<Rightarrow> db_param_value list" where
  "make_pqxx_params ps = map dp_value ps"

definition to_sql_state :: "string \<Rightarrow> string option" where
  "to_sql_state s = (if s = [] then None else Some s)"

section \<open>The driver\<close>

datatype pqxx_class = px_deadlock_detected | px_serialization_failure
  | px_integrity_constraint_violation | px_transaction_rollback | px_sql_error | px_conversion_error
  | px_argument_error | px_usage_error | px_internal_error | px_in_doubt_error
  | px_broken_connection | px_failure

datatype px_call =
    px_connect string
  | px_disconnect nat
  | px_prepare nat string string
  | px_begin nat
  | px_exec nat string "db_param_value list"
  | px_exec_prepared nat string "db_param_value list"
  | px_commit nat
  | px_end nat

type_synonym px_trace = "px_call list"

text \<open>\<open>px_fail\<close> says which exception, if any, a call raises after a trace; \<open>px_result\<close> what a successful
  query returns; \<open>px_open\<close> whether a connection is open; \<open>px_isa\<close> whether an exception object belongs to
  a class, its subclasses included.\<close>

record ('x, 'r) pqxx =
  px_fail :: "px_trace \<Rightarrow> px_call \<Rightarrow> 'x option"
  px_result :: "px_trace \<Rightarrow> px_call \<Rightarrow> 'r"
  px_open :: "px_trace \<Rightarrow> nat \<Rightarrow> bool"
  px_isa :: "'x \<Rightarrow> pqxx_class \<Rightarrow> bool"
  px_what :: "'x \<Rightarrow> string"
  px_sqlstate :: "'x \<Rightarrow> string"

text \<open>The catch clauses of \<open>translate_pqxx_exceptions\<close>, in their order.\<close>

definition translate_pqxx_exceptions :: "('x, 'r) pqxx \<Rightarrow> 'x \<Rightarrow> 'x db_exn" where
  "translate_pqxx_exceptions P x =
     (let st = to_sql_state (px_sqlstate P x); what = px_what P x in
      if px_isa P x px_deadlock_detected then DbError db_deadlock_detected what st
      else if px_isa P x px_serialization_failure then DbError db_serialization_failure what st
      else if px_isa P x px_integrity_constraint_violation then DbError db_constraint_violation what st
      else if px_isa P x px_transaction_rollback then DbError db_transaction_aborted what st
      else if px_isa P x px_sql_error then DbError db_query_error what st
      else if px_isa P x px_conversion_error then MappingError what
      else if px_isa P x px_argument_error then QueryError what
      else if px_isa P x px_usage_error then QueryError what
      else if px_isa P x px_internal_error then QueryError what
      else if px_isa P x px_in_doubt_error then DbError db_transaction_aborted what None
      else if px_isa P x px_broken_connection then ConnectionError what
      else if px_isa P x px_failure then ConnectionError what
      else DriverExn x)"

section \<open>Connections and their transactions\<close>

text \<open>\<open>detail::ConnectionState\<close>, shared by a connection and the transactions made from it.\<close>

record conn_state =
  cs_connection :: "nat option"
  cs_cfg :: connection_config
  cs_transaction_active :: bool

text \<open>A \<open>ConnectionTransaction\<close>: whether it still refers to its state, its \<open>pqxx::work\<close>, and \<open>m_active\<close>.\<close>

record conn_tx =
  ct_has_state :: bool
  ct_impl :: "nat option"
  ct_active :: bool

definition cs_is_open :: "('x, 'r) pqxx \<Rightarrow> px_trace \<Rightarrow> conn_state \<Rightarrow> bool" where
  "cs_is_open P tr cs \<longleftrightarrow> (case cs_connection cs of None \<Rightarrow> False | Some h \<Rightarrow> px_open P tr h)"

definition ct_begin ::
  "('x, 'r) pqxx \<Rightarrow> px_trace \<Rightarrow> conn_state \<Rightarrow> conn_tx \<Rightarrow>
     px_trace \<times> conn_state \<times> conn_tx \<times> ('x db_exn, unit) result" where
  "ct_begin P tr cs ct =
     (if \<not> ct_has_state ct then (tr, cs, ct, Inl (LogicError ''Invalid transaction handle''))
      else case cs_connection cs of
        None \<Rightarrow> (tr, cs, ct, Inl (ConnectionError ''Connection state does not own a connection''))
      | Some h \<Rightarrow>
          if \<not> px_open P tr h then (tr, cs, ct, Inl (ConnectionError ''Connection is not open''))
          else if cs_transaction_active cs
          then (tr, cs, ct, Inl (LogicError ''Connection already has an active transaction''))
          else if ct_active ct \<or> ct_impl ct \<noteq> None
          then (tr, cs, ct, Inl (LogicError ''Transaction has already been started''))
          else case px_fail P tr (px_begin h) of
            Some x \<Rightarrow> (tr @ [px_begin h], cs, ct, Inl (translate_pqxx_exceptions P x))
          | None \<Rightarrow> (tr @ [px_begin h], cs\<lparr>cs_transaction_active := True\<rparr>,
                     ct\<lparr>ct_impl := Some (length tr), ct_active := True\<rparr>, Inr ()))"

definition ct_ensure_active :: "conn_tx \<Rightarrow> ('x db_exn, nat) result" where
  "ct_ensure_active ct =
     (if \<not> ct_has_state ct then Inl (LogicError ''Invalid transaction handle'')
      else if \<not> ct_active ct then Inl (LogicError ''Transaction is not active'')
      else case ct_impl ct of
        None \<Rightarrow> Inl (LogicError ''Transaction is not active'')
      | Some w \<Rightarrow> Inr w)"

text \<open>\<open>finish\<close>: the work object is destroyed and the connection marked free.\<close>

definition ct_finish ::
  "px_trace \<Rightarrow> conn_state \<Rightarrow> conn_tx \<Rightarrow> px_trace \<times> conn_state \<times> conn_tx" where
  "ct_finish tr cs ct =
     (case ct_impl ct of None \<Rightarrow> tr | Some w \<Rightarrow> tr @ [px_end w],
      if ct_has_state ct then cs\<lparr>cs_transaction_active := False\<rparr> else cs,
      ct\<lparr>ct_impl := None, ct_active := False\<rparr>)"

text \<open>One query call of the driver on a work object.\<close>

definition px_run ::
  "('x, 'r) pqxx \<Rightarrow> px_trace \<Rightarrow> px_call \<Rightarrow> px_trace \<times> ('x db_exn, 'r) result" where
  "px_run P tr call =
     (tr @ [call],
      case px_fail P tr call of
        Some x \<Rightarrow> Inl (translate_pqxx_exceptions P x)
      | None \<Rightarrow> Inr (px_result P tr call))"

definition ct_exec ::
  "('x, 'r) pqxx \<Rightarrow> px_trace \<Rightarrow> conn_tx \<Rightarrow> string \<Rightarrow> px_trace \<times> ('x db_exn, 'r) result" where
  "ct_exec P tr ct sql =
     (case ct_ensure_active ct of
        Inl e \<Rightarrow> (tr, Inl e)
      | Inr w \<Rightarrow> px_run P tr (px_exec w sql []))"

definition ct_exec_params ::
  "('x, 'r) pqxx \<Rightarrow> px_trace \<Rightarrow> conn_tx \<Rightarrow> string \<Rightarrow> db_param list \<Rightarrow> px_trace \<times> ('x db_exn, 'r) result" where
  "ct_exec_params P tr ct sql params =
     (case ct_ensure_active ct of
        Inl e \<Rightarrow> (tr, Inl e)
      | Inr w \<Rightarrow>
          if params = [] then px_run P tr (px_exec w sql [])
          else px_run P tr (px_exec w sql (make_pqxx_params params)))"

definition ct_exec_prepared ::
  "('x, 'r) pqxx \<Rightarrow> px_trace \<Rightarrow> conn_tx \<Rightarrow> string \<Rightarrow> db_param list \<Rightarrow> px_trace \<times> ('x db_exn, 'r) result" where
  "ct_exec_prepared P tr ct name params =
     (case ct_ensure_active ct of
        Inl e \<Rightarrow> (tr, Inl e)
      | Inr w \<Rightarrow> px_run P tr (px_exec_prepared w name (make_pqxx_params params)))"

definition ct_commit ::
  "('x, 'r) pqxx \<Rightarrow> px_trace \<Rightarrow> conn_state \<Rightarrow> conn_tx \<Rightarrow>
     px_trace \<times> conn_state \<times> conn_tx \<times> ('x db_exn, unit) result" where
  "ct_commit P tr cs ct =
     (case ct_ensure_active ct of
        Inl e \<Rightarrow> (tr, cs, ct, Inl e)
      | Inr w \<Rightarrow>
         (case px_fail P tr (px_commit w) of
            Some x \<Rightarrow> (tr @ [px_commit w], cs, ct, Inl (translate_pqxx_exceptions P x))
          | None \<Rightarrow>
             (case ct_finish (tr @ [px_commit w]) cs ct of (tr', cs', ct') \<Rightarrow> (tr', cs', ct', Inr ()))))"

definition ct_rollback ::
  "px_trace \<Rightarrow> conn_state \<Rightarrow> conn_tx \<Rightarrow> px_trace \<times> conn_state \<times> conn_tx \<times> ('x db_exn, unit) result" where
  "ct_rollback tr cs ct =
     (case ct_ensure_active ct of
        Inl e \<Rightarrow> (tr, cs, ct, Inl e)
      | Inr w \<Rightarrow> (case ct_finish tr cs ct of (tr', cs', ct') \<Rightarrow> (tr', cs', ct', Inr ())))"

text \<open>Moving a transaction object away leaves an empty one behind.\<close>

definition ct_moved_from :: conn_tx where
  "ct_moved_from = \<lparr>ct_has_state = False, ct_impl = None, ct_active = False\<rparr>"

definition ct_fresh :: conn_tx where
  "ct_fresh = \<lparr>ct_has_state = True, ct_impl = None, ct_active = False\<rparr>"

subsection \<open>Connection\<close>

definition try_to_establish_connection ::
  "('x, 'r) pqxx \<Rightarrow> px_trace \<Rightarrow> connection_config \<Rightarrow> px_trace \<times> ('x db_exn, conn_state) result" where
  "try_to_establish_connection P tr cfg =
     (if \<not> cc_valid cfg then (tr, Inl (ConfigurationError ''Invalid connection configuration''))
      else let call = px_connect (make_connection_string cfg) in
        case px_fail P tr call of
          None \<Rightarrow> (tr @ [call], Inr \<lparr>cs_connection = Some (length tr), cs_cfg = cfg, cs_transaction_active = False\<rparr>)
        | Some x \<Rightarrow> (tr @ [call],
            if px_isa P x px_broken_connection then Inl (ConnectionError (px_what P x))
            else if px_isa P x px_failure then Inl (ConnectionError (px_what P x))
            else Inl (DriverExn x)))"

definition conn_close :: "px_trace \<Rightarrow> conn_state \<Rightarrow> px_trace \<times> conn_state \<times> bool" where
  "conn_close tr cs =
     (case cs_connection cs of
        None \<Rightarrow> (tr, cs, True)
      | Some h \<Rightarrow> (tr @ [px_disconnect h], cs\<lparr>cs_connection := None\<rparr>, True))"

definition conn_ensure_open :: "('x, 'r) pqxx \<Rightarrow> px_trace \<Rightarrow> conn_state \<Rightarrow> ('x db_exn, unit) result" where
  "conn_ensure_open P tr cs =
     (if \<not> cs_is_open P tr cs then Inl (ConnectionError ''Connection is not open'') else Inr ())"

definition conn_begin_transaction ::
  "('x, 'r) pqxx \<Rightarrow> px_trace \<Rightarrow> conn_state \<Rightarrow> px_trace \<times> conn_state \<times> ('x db_exn, conn_tx) result" where
  "conn_begin_transaction P tr cs =
     (case conn_ensure_open P tr cs of
        Inl e \<Rightarrow> (tr, cs, Inl e)
      | Inr _ \<Rightarrow>
         (case ct_begin P tr cs ct_fresh of
            (tr', cs', ct, Inl e) \<Rightarrow> (tr', cs', Inl e)
          | (tr', cs', ct, Inr _) \<Rightarrow> (tr', cs', Inr ct)))"

text \<open>The three statements every single-shot query of \<open>Connection\<close> shares: run the query in a transaction
  of its own, commit, return the result; the transaction object is destroyed on every path out.\<close>

definition conn_autocommit ::
  "('x, 'r) pqxx \<Rightarrow> px_trace \<Rightarrow> conn_state \<Rightarrow>
     (px_trace \<Rightarrow> conn_tx \<Rightarrow> px_trace \<times> ('x db_exn, 'r) result) \<Rightarrow>
     px_trace \<times> conn_state \<times> ('x db_exn, 'r) result" where
  "conn_autocommit P tr cs query =
     (case conn_begin_transaction P tr cs of
        (tr1, cs1, Inl e) \<Rightarrow> (tr1, cs1, Inl e)
      | (tr1, cs1, Inr ct) \<Rightarrow>
         (case query tr1 ct of
            (tr2, Inl e) \<Rightarrow> (case ct_finish tr2 cs1 ct of (tr3, cs3, _) \<Rightarrow> (tr3, cs3, Inl e))
          | (tr2, Inr r) \<Rightarrow>
             (case ct_commit P tr2 cs1 ct of
                (tr3, cs3, ct3, Inl e) \<Rightarrow> (case ct_finish tr3 cs3 ct3 of (tr4, cs4, _) \<Rightarrow> (tr4, cs4, Inl e))
              | (tr3, cs3, ct3, Inr _) \<Rightarrow> (case ct_finish tr3 cs3 ct3 of (tr4, cs4, _) \<Rightarrow> (tr4, cs4, Inr r)))))"

definition conn_exec ::
  "('x, 'r) pqxx \<Rightarrow> px_trace \<Rightarrow> conn_state \<Rightarrow> string \<Rightarrow> px_trace \<times> conn_state \<times> ('x db_exn, 'r) result" where
  "conn_exec P tr cs sql = conn_autocommit P tr cs (\<lambda>tr ct. ct_exec P tr ct sql)"

definition conn_exec_params ::
  "('x, 'r) pqxx \<Rightarrow> px_trace \<Rightarrow> conn_state \<Rightarrow> string \<Rightarrow> db_param list \<Rightarrow>
     px_trace \<times> conn_state \<times> ('x db_exn, 'r) result" where
  "conn_exec_params P tr cs sql params =
     (case conn_ensure_open P tr cs of
        Inl e \<Rightarrow> (tr, cs, Inl e)
      | Inr _ \<Rightarrow>
          if params = [] then conn_exec P tr cs sql
          else conn_autocommit P tr cs (\<lambda>tr ct. ct_exec_params P tr ct sql params))"

definition conn_exec_prepared ::
  "('x, 'r) pqxx \<Rightarrow> px_trace \<Rightarrow> conn_state \<Rightarrow> string \<Rightarrow> db_param list \<Rightarrow>
     px_trace \<times> conn_state \<times> ('x db_exn, 'r) result" where
  "conn_exec_prepared P tr cs name params = conn_autocommit P tr cs (\<lambda>tr ct. ct_exec_prepared P tr ct name params)"

definition conn_prepare ::
  "('x, 'r) pqxx \<Rightarrow> px_trace \<Rightarrow> conn_state \<Rightarrow> string \<Rightarrow> string \<Rightarrow> px_trace \<times> ('x db_exn, unit) result" where
  "conn_prepare P tr cs name sql =
     (case conn_ensure_open P tr cs of
        Inl e \<Rightarrow> (tr, Inl e)
      | Inr _ \<Rightarrow>
         (case cs_connection cs of
            None \<Rightarrow> (tr, Inl (ConnectionError ''Connection is not open''))
          | Some h \<Rightarrow> (tr @ [px_prepare h name sql],
              case px_fail P tr (px_prepare h name sql) of
                Some x \<Rightarrow> Inl (translate_pqxx_exceptions P x)
              | None \<Rightarrow> Inr ())))"

section \<open>The driver's exception classes\<close>

text \<open>The documented class hierarchy of libpqxx: single inheritance, with \<open>deadlock_detected\<close> and
  \<open>serialization_failure\<close> below \<open>transaction_rollback\<close>, that class and
  \<open>integrity_constraint_violation\<close> below \<open>sql_error\<close>, and \<open>sql_error\<close>, \<open>in_doubt_error\<close> and
  \<open>broken_connection\<close> below \<open>failure\<close>, which is a runtime error; the four others are logic errors.\<close>

definition pqxx_hierarchy :: "('x, 'r) pqxx \<Rightarrow> bool" where
  "pqxx_hierarchy P \<longleftrightarrow> (\<forall>x.
     (px_isa P x px_deadlock_detected \<longrightarrow> px_isa P x px_transaction_rollback) \<and>
     (px_isa P x px_serialization_failure \<longrightarrow> px_isa P x px_transaction_rollback) \<and>
     (px_isa P x px_transaction_rollback \<longrightarrow> px_isa P x px_sql_error) \<and>
     (px_isa P x px_integrity_constraint_violation \<longrightarrow> px_isa P x px_sql_error) \<and>
     (px_isa P x px_sql_error \<longrightarrow> px_isa P x px_failure) \<and>
     (px_isa P x px_in_doubt_error \<longrightarrow> px_isa P x px_failure) \<and>
     (px_isa P x px_broken_connection \<longrightarrow> px_isa P x px_failure) \<and>
     \<not> (px_isa P x px_deadlock_detected \<and> px_isa P x px_serialization_failure) \<and>
     \<not> (px_isa P x px_transaction_rollback \<and> px_isa P x px_integrity_constraint_violation) \<and>
     \<not> (px_isa P x px_sql_error \<and> px_isa P x px_in_doubt_error) \<and>
     \<not> (px_isa P x px_sql_error \<and> px_isa P x px_broken_connection) \<and>
     \<not> (px_isa P x px_in_doubt_error \<and> px_isa P x px_broken_connection) \<and>
     (px_isa P x px_failure \<longrightarrow> \<not> px_isa P x px_conversion_error \<and> \<not> px_isa P x px_argument_error \<and>
        \<not> px_isa P x px_usage_error \<and> \<not> px_isa P x px_internal_error))"

text \<open>A driver for evaluation: exceptions are the classes themselves, \<open>fails\<close> picks the failing calls, and
  a query returns the number of calls made before it.\<close>

fun px_super :: "pqxx_class \<Rightarrow> pqxx_class set" where
  "px_super px_deadlock_detected = {px_deadlock_detected, px_transaction_rollback, px_sql_error, px_failure}"
| "px_super px_serialization_failure = {px_serialization_failure, px_transaction_rollback, px_sql_error, px_failure}"
| "px_super px_transaction_rollback = {px_transaction_rollback, px_sql_error, px_failure}"
| "px_super px_integrity_constraint_violation = {px_integrity_constraint_violation, px_sql_error, px_failure}"
| "px_super px_sql_error = {px_sql_error, px_failure}"
| "px_super px_in_doubt_error = {px_in_doubt_error, px_failure}"
| "px_super px_broken_connection = {px_broken_connection, px_failure}"
| "px_super c = {c}"

definition sample_driver :: "(px_trace \<Rightarrow> px_call \<Rightarrow> pqxx_class option) \<Rightarrow> (pqxx_class, nat) pqxx" where
  "sample_driver fails =
     \<lparr>px_fail = fails, px_result = \<lambda>tr call. length tr, px_open = \<lambda>tr h. True,
      px_isa = \<lambda>x c. c \<in> px_super x, px_what = \<lambda>x. ''driver'', px_sqlstate = \<lambda>x. ''40001''\<rparr>"

lemma sample_driver_fields [simp]:
  "px_fail (sample_driver fails) = fails" "px_result (sample_driver fails) tr call = length tr"
  "px_open (sample_driver fails) tr h" "px_isa (sample_driver fails) x c \<longleftrightarrow> c \<in> px_super x"
  "px_what (sample_driver fails) x = ''driver''" "px_sqlstate (sample_driver fails) x = ''40001''"
  by (simp_all add: sample_driver_def)

lemma sample_driver_hierarchy: "pqxx_hierarchy (sample_driver fails)"
  unfolding pqxx_hierarchy_def by (rule allI, rename_tac x, case_tac x) simp_all

text \<open>All classes a driver exception can have.\<close>

lemma all_pqxx_classes:
  "(\<forall>c. Q c) \<longleftrightarrow> Q px_deadlock_detected \<and> Q px_serialization_failure \<and>
     Q px_integrity_constraint_violation \<and> Q px_transaction_rollback \<and> Q px_sql_error \<and>
     Q px_conversion_error \<and> Q px_argument_error \<and> Q px_usage_error \<and> Q px_internal_error \<and>
     Q px_in_doubt_error \<and> Q px_broken_connection \<and> Q px_failure"
  by (rule iffI, simp, rule allI, rename_tac c, case_tac c) simp_all

section \<open>Properties\<close>



text \<open>C23: A single-shot query of a connection is a transaction of its own.  A result is returned only
  when the driver began a transaction, ran the query and committed, in that order and all
  successfully, and it is the query's result; on every other path an error is thrown and nothing was
  committed.  On every path the work object that was begun is destroyed and the connection is left as it
  was, free for the next transaction.\<close>

theorem conn_exec_transactional:
  assumes "conn_exec P tr cs sql = (tr', cs', r)" and "\<not> cs_transaction_active cs"
  shows "cs' = cs \<and>
    (let w = length tr; e = px_exec w sql []; c = px_commit w in
     case r of
       Inr res \<Rightarrow> (\<exists>h. cs_connection cs = Some h \<and> px_open P tr h \<and>
         tr' = tr @ [px_begin h, e, c, px_end w] \<and> px_fail P tr (px_begin h) = None \<and>
         px_fail P (tr @ [px_begin h]) e = None \<and> px_fail P (tr @ [px_begin h, e]) c = None \<and>
         res = px_result P (tr @ [px_begin h]) e)
     | Inl x \<Rightarrow> tr' = tr \<and> \<not> cs_is_open P tr cs \<or>
         (\<exists>h. cs_connection cs = Some h \<and>
           (tr' = tr @ [px_begin h] \<and> px_fail P tr (px_begin h) \<noteq> None \<or>
            tr' = tr @ [px_begin h, e, px_end w] \<or>
            tr' = tr @ [px_begin h, e, c, px_end w] \<and> px_fail P (tr @ [px_begin h, e]) c \<noteq> None)))"
  using assms
  by (auto simp: conn_exec_def conn_autocommit_def conn_begin_transaction_def conn_ensure_open_def
      cs_is_open_def ct_begin_def ct_fresh_def ct_exec_def ct_ensure_active_def px_run_def ct_commit_def
      ct_finish_def Let_def split: option.splits if_splits sum.splits)

theorem conn_exec_transactional_witness:
  "let cs = \<lparr>cs_connection = Some 0, cs_cfg = \<lparr>cc_host = ''h'', cc_dbname = ''d'', cc_user = ''u'',
         cc_password = [], cc_port = 5432, cc_application_name = None, cc_connect_timeout = None\<rparr>,
       cs_transaction_active = False\<rparr>;
     P = sample_driver (\<lambda>tr c. if c = px_commit 1 then Some px_broken_connection else None)
   in conn_exec P [px_connect []] cs ''Q'' = ([px_connect [], px_begin 0, px_exec 1 ''Q'' [], px_commit 1, px_end 1],
        cs, Inl (ConnectionError ''driver''))"
proof -
  let ?cs = "\<lparr>cs_connection = Some 0, cs_cfg = \<lparr>cc_host = ''h'', cc_dbname = ''d'', cc_user = ''u'',
         cc_password = [], cc_port = 5432, cc_application_name = None, cc_connect_timeout = None\<rparr>,
       cs_transaction_active = False\<rparr>"
  let ?P = "sample_driver (\<lambda>tr c. if c = px_commit 1 then Some px_broken_connection else None)"
  have "conn_exec ?P [px_connect []] ?cs ''Q'' =
      ([px_connect [], px_begin 0, px_exec 1 ''Q'' [], px_commit 1, px_end 1], ?cs, Inl (ConnectionError ''driver''))"
    by (simp add: conn_exec_def conn_autocommit_def conn_begin_transaction_def conn_ensure_open_def
        cs_is_open_def ct_begin_def ct_fresh_def ct_exec_def ct_ensure_active_def px_run_def ct_commit_def
        ct_finish_def translate_pqxx_exceptions_def)
  with conn_exec_transactional [OF this] show ?thesis by simp
qed

text \<open>Destroying a finished transaction object frees the connection under a running one: the first
  transaction commits, a second one begins on the same connection, and the destructor of the first
  clears \<open>transaction_active\<close> although the second is still active, so that the guard of a third \<open>begin\<close>
  no longer sees it.\<close>

theorem stale_transaction_frees_connection:
  "let P = sample_driver (\<lambda>tr c. None);
       cs = \<lparr>cs_connection = Some 0, cs_cfg = \<lparr>cc_host = ''h'', cc_dbname = ''d'', cc_user = ''u'',
         cc_password = [], cc_port = 5432, cc_application_name = None, cc_connect_timeout = None\<rparr>,
         cs_transaction_active = False\<rparr>;
       (tr1, cs1, first, r1) = ct_begin P [px_connect []] cs ct_fresh;
       (tr2, cs2, first', r2) = ct_commit P tr1 cs1 first;
       (tr3, cs3, second, r3) = ct_begin P tr2 cs2 ct_fresh;
       (tr4, cs4, gone) = ct_finish tr3 cs3 first'
   in r1 = Inr () \<and> r2 = Inr () \<and> r3 = Inr () \<and> ct_active second \<and> ct_impl second \<noteq> None \<and>
      cs_transaction_active cs3 \<and> \<not> cs_transaction_active cs4"
  by (simp add: ct_begin_def ct_fresh_def ct_commit_def ct_ensure_active_def ct_finish_def)

end
