(* ===== verification/Db_Pool.thy ===== *)
theory Db_Pool
  imports Db_Core
begin

text \<open>
  The connection pool: \<open>PoolState\<close> (\<^verbatim>\<open>db/pool/PoolState.hpp\<close>), the handle \<open>PooledConnection\<close> and the
  facade \<open>ConnectionPool\<close>.  Every member function of \<open>PoolState\<close> is a section under \<open>m_mtx\<close>; \<open>acquire\<close> and
  \<open>try_acquire_for\<close> are cut at their condition-variable wait.  The counters are 64-bit words, as in the
  code.  The second part runs any number of clients against one pool.
\<close>

section \<open>The shared state\<close>

record pool_config =
  pc_max_connections :: size_t
  pc_min_connections :: size_t
  pc_connection_timeout_ms :: size_t
  pc_idle_timeout_ms :: size_t

definition default_pool_config :: pool_config where
  "default_pool_config = \<lparr>pc_max_connections = 10, pc_min_connections = 1,
     pc_connection_timeout_ms = 0, pc_idle_timeout_ms = 0\<rparr>"

record dbpool =
  dbp_config :: pool_config
  dbp_connection_config :: connection_config
  dbp_connections :: "conn_state list"
  dbp_active :: size_t
  dbp_idle :: size_t
  dbp_shutdown :: bool

definition dbp_new :: "pool_config \<Rightarrow> connection_config \<Rightarrow> ('x db_exn, dbpool) result" where
  "dbp_new cfg con =
     (if pc_max_connections cfg = 0 then Inl (ConfigurationError ''Invalid max_connections param in config'')
      else Inr \<lparr>dbp_config = cfg, dbp_connection_config = con, dbp_connections = [], dbp_active = 0,
                dbp_idle = 0, dbp_shutdown = False\<rparr>)"

text \<open>Destroying a \<open>Connection\<close> closes its driver connection, if it still has one.\<close>

definition destroy_connection :: "px_trace \<Rightarrow> conn_state option \<Rightarrow> px_trace" where
  "destroy_connection tr c =
     (case c of None \<Rightarrow> tr | Some cs \<Rightarrow> (case cs_connection cs of None \<Rightarrow> tr | Some h \<Rightarrow> tr @ [px_disconnect h]))"

definition return_connection ::
  "('x, 'r) pqxx \<Rightarrow> px_trace \<Rightarrow> dbpool \<Rightarrow> conn_state option \<Rightarrow> px_trace \<times> dbpool" where
  "return_connection P tr s connection =
     (let s' = s\<lparr>dbp_active := dbp_active s - 1\<rparr> in
      if dbp_shutdown s' then (destroy_connection tr connection, s')
      else case connection of
        None \<Rightarrow> (tr, s')
      | Some c \<Rightarrow>
          if \<not> cs_is_open P tr c then (destroy_connection tr connection, s')
          else (tr, s'\<lparr>dbp_connections := dbp_connections s' @ [c], dbp_idle := dbp_idle s' + 1\<rparr>))"

definition can_create_connection_locked :: "dbpool \<Rightarrow> bool" where
  "can_create_connection_locked s \<longleftrightarrow> dbp_idle s + dbp_active s < pc_max_connections (dbp_config s)"

definition init_new_connection_locked ::
  "('x, 'r) pqxx \<Rightarrow> px_trace \<Rightarrow> dbpool \<Rightarrow> px_trace \<times> dbpool \<times> ('x db_exn, bool) result" where
  "init_new_connection_locked P tr s =
     (if \<not> can_create_connection_locked s then (tr, s, Inr False)
      else case try_to_establish_connection P tr (dbp_connection_config s) of
        (tr', Inl e) \<Rightarrow> (tr', s, Inl e)
      | (tr', Inr c) \<Rightarrow>
          (tr', s\<lparr>dbp_connections := dbp_connections s @ [c], dbp_idle := dbp_idle s + 1\<rparr>, Inr True))"

text \<open>Moving the last connection out of the vector.\<close>

definition pop_connection :: "dbpool \<Rightarrow> (conn_state \<times> dbpool) option" where
  "pop_connection s =
     (if dbp_connections s = [] then None
      else Some (last (dbp_connections s),
        s\<lparr>dbp_connections := butlast (dbp_connections s), dbp_idle := dbp_idle s - 1,
          dbp_active := dbp_active s + 1\<rparr>))"

definition take_connection_locked ::
  "('x, 'r) pqxx \<Rightarrow> px_trace \<Rightarrow> dbpool \<Rightarrow>
     (px_trace \<times> dbpool \<times> ('x db_exn, conn_state option) result) locked_section" where
  "take_connection_locked P tr s =
     (if dbp_idle s > 0
      then (case pop_connection s of None \<Rightarrow> Undef | Some (c, s') \<Rightarrow> Done (tr, s', Inr (Some c)))
      else case init_new_connection_locked P tr s of
        (tr', s', Inl e) \<Rightarrow> Done (tr', s', Inl e)
      | (tr', s', Inr True) \<Rightarrow>
          (case pop_connection s' of None \<Rightarrow> Undef | Some (c, s'') \<Rightarrow> Done (tr', s'', Inr (Some c)))
      | (tr', s', Inr False) \<Rightarrow> Done (tr', s', Inr None))"

definition acquire_pred :: "dbpool \<Rightarrow> bool" where
  "acquire_pred s \<longleftrightarrow> dbp_shutdown s \<or> dbp_connections s \<noteq> [] \<or> can_create_connection_locked s"

text \<open>\<open>acquire\<close> after its wait, and before it; \<open>try_acquire_for\<close> has the same two sections and a third one
  for an expired deadline.\<close>

definition dbp_acquire_wake ::
  "('x, 'r) pqxx \<Rightarrow> px_trace \<Rightarrow> dbpool \<Rightarrow>
     (px_trace \<times> dbpool \<times> ('x db_exn, conn_state option) result) locked_section" where
  "dbp_acquire_wake P tr s =
     (if \<not> acquire_pred s then Wait
      else if dbp_shutdown s then Done (tr, s, Inl (PoolExhausted ''Connection pool is shutting down''))
      else take_connection_locked P tr s)"

definition dbp_acquire ::
  "('x, 'r) pqxx \<Rightarrow> px_trace \<Rightarrow> dbpool \<Rightarrow>
     (px_trace \<times> dbpool \<times> ('x db_exn, conn_state option) result) locked_section" where
  "dbp_acquire P tr s =
     (if dbp_shutdown s then Done (tr, s, Inl (PoolExhausted ''Connection pool is shutting down''))
      else case take_connection_locked P tr s of
        Done (tr', s', Inr None) \<Rightarrow> dbp_acquire_wake P tr' s'
      | r \<Rightarrow> r)"

definition dbp_try_acquire_timeout ::
  "('x, 'r) pqxx \<Rightarrow> px_trace \<Rightarrow> dbpool \<Rightarrow>
     (px_trace \<times> dbpool \<times> ('x db_exn, conn_state option) result) locked_section" where
  "dbp_try_acquire_timeout P tr s =
     (if \<not> acquire_pred s then Done (tr, s, Inl (PoolTimeout ''Timed out waiting for a pooled connection''))
      else dbp_acquire_wake P tr s)"

definition dbp_shut_down :: "dbpool \<Rightarrow> dbpool" where
  "dbp_shut_down s = s\<lparr>dbp_shutdown := True\<rparr>"

definition dbp_active_count :: "dbpool \<Rightarrow> size_t" where
  "dbp_active_count s = dbp_active s"

definition dbp_idle_count :: "dbpool \<Rightarrow> size_t" where
  "dbp_idle_count s = dbp_idle s"

section \<open>Handles and the facade\<close>

record pooled =
  ph_pool :: bool
  ph_connection :: "conn_state option"
  ph_broken :: bool

definition ph_moved_from :: pooled where
  "ph_moved_from = \<lparr>ph_pool = False, ph_connection = None, ph_broken = False\<rparr>"

definition ph_get :: "pooled \<Rightarrow> ('x db_exn, conn_state) result" where
  "ph_get h =
     (case ph_connection h of
        None \<Rightarrow> Inl (LogicError ''Invalid pooled connection handle'')
      | Some c \<Rightarrow> Inr c)"

definition ph_valid :: "pooled \<Rightarrow> bool" where
  "ph_valid h \<longleftrightarrow> ph_connection h \<noteq> None"

definition ph_mark_broken :: "px_trace \<Rightarrow> pooled \<Rightarrow> px_trace \<times> pooled" where
  "ph_mark_broken tr h =
     (case ph_connection h of
        None \<Rightarrow> (tr, h\<lparr>ph_broken := True\<rparr>)
      | Some c \<Rightarrow>
         (case conn_close tr c of (tr', c', _) \<Rightarrow> (tr', h\<lparr>ph_broken := True, ph_connection := Some c'\<rparr>)))"

definition ph_destroy :: "('x, 'r) pqxx \<Rightarrow> px_trace \<Rightarrow> dbpool \<Rightarrow> pooled \<Rightarrow> px_trace \<times> dbpool" where
  "ph_destroy P tr s h = (if ph_pool h then return_connection P tr s (ph_connection h) else (tr, s))"

text \<open>Move assignment returns the connection the target held.\<close>

definition ph_assign ::
  "('x, 'r) pqxx \<Rightarrow> px_trace \<Rightarrow> dbpool \<Rightarrow> pooled \<Rightarrow> pooled \<Rightarrow> px_trace \<times> dbpool \<times> pooled \<times> pooled" where
  "ph_assign P tr s target source =
     (case ph_destroy P tr s target of (tr', s') \<Rightarrow>
        (tr', s', source, \<lparr>ph_pool = False, ph_connection = None, ph_broken = ph_broken source\<rparr>))"

definition to_handle :: "('x db_exn, conn_state option) result \<Rightarrow> ('x db_exn, pooled) result" where
  "to_handle r =
     (case r of
        Inl e \<Rightarrow> Inl e
      | Inr None \<Rightarrow> Inl (PoolExhausted ''Connection ptr is nullptr'')
      | Inr (Some c) \<Rightarrow> Inr \<lparr>ph_pool = True, ph_connection = Some c, ph_broken = False\<rparr>)"

text \<open>A section of \<open>ConnectionPool::acquire\<close> or \<open>ConnectionPool::try_acquire_for\<close>; \<open>m_state\<close> is set by the
  constructor.\<close>

definition pool_acquire_section ::
  "(px_trace \<times> dbpool \<times> ('x db_exn, conn_state option) result) locked_section \<Rightarrow>
     (px_trace \<times> dbpool \<times> ('x db_exn, pooled) result) locked_section" where
  "pool_acquire_section r =
     (case r of
        Done (tr, s, x) \<Rightarrow> Done (tr, s, to_handle x)
      | Wait \<Rightarrow> Wait
      | Undef \<Rightarrow> Undef)"

definition pool_acquire ::
  "('x, 'r) pqxx \<Rightarrow> px_trace \<Rightarrow> dbpool \<Rightarrow> (px_trace \<times> dbpool \<times> ('x db_exn, pooled) result) locked_section" where
  "pool_acquire P tr s = pool_acquire_section (dbp_acquire P tr s)"

section \<open>Clients of one pool\<close>

text \<open>The trace, the pool, the handles in clients' hands, and the threads asleep on and notified by
  \<open>m_cond\<close>.\<close>

record dbp_sys =
  ds_trace :: px_trace
  ds_pool :: dbpool
  ds_handles :: "pooled list"
  ds_blocked :: nat
  ds_woken :: nat
  ds_null :: bool

definition ds_new :: "dbpool \<Rightarrow> dbp_sys" where
  "ds_new p = \<lparr>ds_trace = [], ds_pool = p, ds_handles = [], ds_blocked = 0, ds_woken = 0, ds_null = False\<rparr>"

definition ds_notify_one :: "dbp_sys \<Rightarrow> dbp_sys" where
  "ds_notify_one s =
     (if ds_blocked s = 0 then s else s\<lparr>ds_blocked := ds_blocked s - 1, ds_woken := ds_woken s + 1\<rparr>)"

text \<open>The end of an acquire section.  \<open>ds_null\<close> records that \<open>PoolState\<close> handed out a null pointer.\<close>

definition ds_acquired ::
  "dbp_sys \<Rightarrow> px_trace \<times> dbpool \<times> ('x db_exn, conn_state option) result \<Rightarrow> dbp_sys" where
  "ds_acquired s r =
     (case r of (tr, p, x) \<Rightarrow>
        s\<lparr>ds_trace := tr, ds_pool := p,
          ds_handles := (case to_handle x of Inl _ \<Rightarrow> ds_handles s | Inr h \<Rightarrow> ds_handles s @ [h]),
          ds_null := (ds_null s \<or> x = Inr None)\<rparr>)"

definition ds_release :: "('x, 'r) pqxx \<Rightarrow> dbp_sys \<Rightarrow> nat \<Rightarrow> dbp_sys" where
  "ds_release P s i =
     (case ph_destroy P (ds_trace s) (ds_pool s) (ds_handles s ! i) of (tr, p) \<Rightarrow>
        ds_notify_one (s\<lparr>ds_trace := tr, ds_pool := p,
          ds_handles := take i (ds_handles s) @ drop (Suc i) (ds_handles s)\<rparr>))"

inductive dbp_step :: "('x, 'r) pqxx \<Rightarrow> dbp_sys \<Rightarrow> dbp_sys \<Rightarrow> bool" for P :: "('x, 'r) pqxx" where
  dbp_st_acquire: "dbp_acquire P (ds_trace s) (ds_pool s) = Done r \<Longrightarrow> dbp_step P s (ds_acquired s r)"
| dbp_st_sleep: "dbp_acquire P (ds_trace s) (ds_pool s) = Wait \<Longrightarrow>
    dbp_step P s (s\<lparr>ds_blocked := ds_blocked s + 1\<rparr>)"
| dbp_st_wake: "0 < ds_woken s \<Longrightarrow> dbp_acquire_wake P (ds_trace s) (ds_pool s) = Done r \<Longrightarrow>
    dbp_step P s (ds_acquired (s\<lparr>ds_woken := ds_woken s - 1\<rparr>) r)"
| dbp_st_sleep_again: "0 < ds_woken s \<Longrightarrow> dbp_acquire_wake P (ds_trace s) (ds_pool s) = Wait \<Longrightarrow>
    dbp_step P s (s\<lparr>ds_woken := ds_woken s - 1, ds_blocked := ds_blocked s + 1\<rparr>)"
| dbp_st_timeout: "0 < ds_blocked s \<Longrightarrow> dbp_try_acquire_timeout P (ds_trace s) (ds_pool s) = Done r \<Longrightarrow>
    dbp_step P s (ds_acquired (s\<lparr>ds_blocked := ds_blocked s - 1\<rparr>) r)"
| dbp_st_woken_timeout: "0 < ds_woken s \<Longrightarrow> dbp_try_acquire_timeout P (ds_trace s) (ds_pool s) = Done r \<Longrightarrow>
    dbp_step P s (ds_acquired (s\<lparr>ds_woken := ds_woken s - 1\<rparr>) r)"
| dbp_st_spurious: "0 < ds_blocked s \<Longrightarrow>
    dbp_step P s (s\<lparr>ds_blocked := ds_blocked s - 1, ds_woken := ds_woken s + 1\<rparr>)"
| dbp_st_release: "i < length (ds_handles s) \<Longrightarrow> dbp_step P s (ds_release P s i)"
| dbp_st_use: "i < length (ds_handles s) \<Longrightarrow> dbp_step P s (s\<lparr>ds_trace := ds_trace s @ calls,
    ds_handles := (ds_handles s)[i := (ds_handles s ! i)\<lparr>ph_connection := Some c\<rparr>]\<rparr>)"
| dbp_st_broken: "i < length (ds_handles s) \<Longrightarrow> ph_mark_broken (ds_trace s) (ds_handles s ! i) = (tr, h) \<Longrightarrow>
    dbp_step P s (s\<lparr>ds_trace := tr, ds_handles := (ds_handles s)[i := h]\<rparr>)"

section \<open>The counters\<close>

text \<open>With \<open>n\<close> connections in clients' hands the counters are exact and their sum stays within the limit,
  so no 64-bit addition wraps.\<close>

definition dbp_ok :: "nat \<Rightarrow> dbpool \<Rightarrow> bool" where
  "dbp_ok n p \<longleftrightarrow> unat (dbp_idle p) = length (dbp_connections p) \<and> unat (dbp_active p) = n \<and>
     length (dbp_connections p) + n \<le> unat (pc_max_connections (dbp_config p)) \<and> \<not> dbp_shutdown p"

lemma can_create_iff:
  assumes "dbp_ok n p"
  shows "can_create_connection_locked p \<longleftrightarrow>
    length (dbp_connections p) + n < unat (pc_max_connections (dbp_config p))"
proof -
  have "unat (dbp_idle p) + unat (dbp_active p) < 18446744073709551616"
    using assms unat_size_bound [of "pc_max_connections (dbp_config p)"] unfolding dbp_ok_def by linarith
  then have "unat (dbp_idle p + dbp_active p) = length (dbp_connections p) + n"
    using assms by (simp add: unat_add_nowrap dbp_ok_def)
  then show ?thesis by (simp add: can_create_connection_locked_def word_less_nat_alt)
qed

lemma pop_connection_ok:
  assumes ok: "dbp_ok n p" and ne: "dbp_connections p \<noteq> []"
  shows "\<exists>c p'. pop_connection p = Some (c, p') \<and> dbp_ok (Suc n) p' \<and> dbp_config p' = dbp_config p \<and>
    dbp_connection_config p' = dbp_connection_config p"
proof -
  have pos: "0 < unat (dbp_idle p)" using ok ne by (simp add: dbp_ok_def)
  have "Suc n \<le> unat (pc_max_connections (dbp_config p))"
    using ok ne by (cases "dbp_connections p") (auto simp: dbp_ok_def)
  then have "unat (dbp_active p) < 18446744073709551615"
    using ok unat_size_bound [of "pc_max_connections (dbp_config p)"] unfolding dbp_ok_def by linarith
  with pos ok ne show ?thesis
    by (auto simp: pop_connection_def dbp_ok_def unat_dec_nowrap unat_inc_nowrap neq_Nil_conv)
qed

lemma push_connection_ok:
  assumes ok: "dbp_ok n p" and room: "length (dbp_connections p) + n < unat (pc_max_connections (dbp_config p))"
  shows "dbp_ok n (p\<lparr>dbp_connections := dbp_connections p @ [c], dbp_idle := dbp_idle p + 1\<rparr>)"
proof -
  have "unat (dbp_idle p) < 18446744073709551615"
    using ok room unat_size_bound [of "pc_max_connections (dbp_config p)"] unfolding dbp_ok_def by linarith
  with ok room show ?thesis by (simp add: dbp_ok_def unat_inc_nowrap)
qed

text \<open>A connection that was just made is the one handed out.\<close>

lemma pop_new_connection:
  assumes ok: "dbp_ok n p" and room: "length (dbp_connections p) + n < unat (pc_max_connections (dbp_config p))"
  obtains d q where "pop_connection (p\<lparr>dbp_connections := dbp_connections p @ [c], dbp_idle := dbp_idle p + 1\<rparr>) = Some (d, q)"
    "dbp_ok (Suc n) q" "dbp_config q = dbp_config p" "dbp_connection_config q = dbp_connection_config p"
  using pop_connection_ok [OF push_connection_ok [OF assms, of c]] by auto

text \<open>The three outcomes of taking a connection: one is handed out, the driver refuses to connect, or
  all are in use.\<close>

lemma take_connection_cases:
  assumes ok: "dbp_ok n p"
  obtains (got) tr' p' c where "take_connection_locked P tr p = Done (tr', p', Inr (Some c))"
      "dbp_ok (Suc n) p'" "dbp_config p' = dbp_config p" "dbp_connection_config p' = dbp_connection_config p"
  | (refused) tr' e where "take_connection_locked P tr p = Done (tr', p, Inl e)"
      "try_to_establish_connection P tr (dbp_connection_config p) = (tr', Inl e)"
  | (none) "take_connection_locked P tr p = Done (tr, p, Inr None)" "dbp_connections p = []"
      "n = unat (pc_max_connections (dbp_config p))"
proof (cases "dbp_connections p = []")
  case False
  then have "dbp_idle p > 0" using ok by (simp add: dbp_ok_def word_less_nat_alt)
  with pop_connection_ok [OF ok False] got show ?thesis by (fastforce simp: take_connection_locked_def)
next
  case empty: True
  then have idle: "\<not> dbp_idle p > 0" using ok by (simp add: dbp_ok_def word_less_nat_alt)
  show ?thesis
  proof (cases "n < unat (pc_max_connections (dbp_config p))")
    case True
    then have can: "can_create_connection_locked p" using can_create_iff [OF ok] empty by simp
    obtain tr' r where r: "try_to_establish_connection P tr (dbp_connection_config p) = (tr', r)" by fastforce
    show ?thesis
    proof (cases r)
      case (Inl e)
      with r can idle refused show ?thesis
        by (simp add: take_connection_locked_def init_new_connection_locked_def)
    next
      case (Inr c)
      show ?thesis
        by (rule pop_new_connection [OF ok, of c])
          (use r Inr can idle got empty True in \<open>simp_all add: take_connection_locked_def init_new_connection_locked_def\<close>)
    qed
  next
    case False
    then have "n = unat (pc_max_connections (dbp_config p))" using ok by (simp add: dbp_ok_def)
    moreover have "\<not> can_create_connection_locked p" using can_create_iff [OF ok] empty False by simp
    ultimately show ?thesis
      using idle empty none by (simp add: take_connection_locked_def init_new_connection_locked_def)
  qed
qed

lemma acquire_pred_iff:
  assumes "dbp_ok n p"
  shows "acquire_pred p \<longleftrightarrow> dbp_connections p \<noteq> [] \<or> n < unat (pc_max_connections (dbp_config p))"
  using can_create_iff [OF assms] assms by (auto simp: acquire_pred_def dbp_ok_def)

text \<open>Any acquire section that is done handed out a connection, or left the pool as it was with an error
  that is either a refused connection attempt or an expired deadline on an exhausted pool.\<close>

lemma acquire_done:
  assumes ok: "dbp_ok n p"
    and r: "dbp_acquire P tr p = Done (tr', p', x) \<or> dbp_acquire_wake P tr p = Done (tr', p', x) \<or>
      dbp_try_acquire_timeout P tr p = Done (tr', p', x)"
  shows "(\<exists>c. x = Inr (Some c) \<and> dbp_ok (Suc n) p' \<and> dbp_config p' = dbp_config p \<and>
      dbp_connection_config p' = dbp_connection_config p) \<or>
    (\<exists>e. x = Inl e \<and> p' = p \<and>
      (try_to_establish_connection P tr (dbp_connection_config p) = (tr', Inl e) \<or>
       n = unat (pc_max_connections (dbp_config p))))"
proof -
  have up: "\<not> dbp_shutdown p" and le: "n \<le> unat (pc_max_connections (dbp_config p))"
    using ok by (simp_all add: dbp_ok_def)
  from ok show ?thesis
  proof (cases rule: take_connection_cases [where P = P and tr = tr])
    case none
    then have "\<not> acquire_pred p" using acquire_pred_iff [OF ok] by simp
    with none up r show ?thesis
      by (auto simp: dbp_acquire_def dbp_acquire_wake_def dbp_try_acquire_timeout_def)
  qed (use r up le acquire_pred_iff [OF ok] in
    \<open>auto simp: dbp_acquire_def dbp_acquire_wake_def dbp_try_acquire_timeout_def split: if_splits\<close>)
qed

lemma acquire_waits:
  assumes ok: "dbp_ok n p" and r: "dbp_acquire P tr p = Wait \<or> dbp_acquire_wake P tr p = Wait"
  shows "n = unat (pc_max_connections (dbp_config p))"
  using ok
proof (cases rule: take_connection_cases [where P = P and tr = tr])
  case none
  then show ?thesis by simp
qed (use r ok acquire_pred_iff [OF ok] in
  \<open>auto simp: dbp_acquire_def dbp_acquire_wake_def dbp_ok_def split: if_splits\<close>)

lemma return_connection_ok:
  assumes ok: "dbp_ok (Suc n) p" and r: "return_connection P tr p c = (tr', p')"
  shows "dbp_ok n p' \<and> dbp_config p' = dbp_config p \<and> dbp_connection_config p' = dbp_connection_config p"
proof -
  let ?q = "p\<lparr>dbp_active := dbp_active p - 1\<rparr>"
  have q: "dbp_ok n ?q" using ok by (auto simp: dbp_ok_def unat_dec_nowrap)
  have "length (dbp_connections ?q) + n < unat (pc_max_connections (dbp_config ?q))"
    using ok by (simp add: dbp_ok_def)
  from push_connection_ok [OF q this] q r show ?thesis
    by (auto simp: return_connection_def Let_def split: if_splits option.splits)
qed

section \<open>The invariant of a shared pool\<close>

definition ds_inv :: "pool_config \<Rightarrow> connection_config \<Rightarrow> dbp_sys \<Rightarrow> bool" where
  "ds_inv cfg con s \<longleftrightarrow> dbp_ok (length (ds_handles s)) (ds_pool s) \<and> dbp_config (ds_pool s) = cfg \<and>
     dbp_connection_config (ds_pool s) = con \<and> \<not> ds_null s \<and> list_all ph_pool (ds_handles s)"

definition ds_start :: "pool_config \<Rightarrow> connection_config \<Rightarrow> dbp_sys \<Rightarrow> bool" where
  "ds_start cfg con s \<longleftrightarrow> (\<exists>p. dbp_new cfg con = (Inr p :: (unit db_exn, dbpool) result) \<and> s = ds_new p)"

text \<open>A waiting client is accounted for: there are never more connections free to hand out than clients
  already notified.\<close>

definition ds_wake_inv :: "pool_config \<Rightarrow> dbp_sys \<Rightarrow> bool" where
  "ds_wake_inv cfg s \<longleftrightarrow>
     (0 < ds_blocked s \<longrightarrow> unat (pc_max_connections cfg) \<le> length (ds_handles s) + ds_woken s)"

text \<open>The driver accepts every connection attempt with this configuration.\<close>

definition connects :: "('x, 'r) pqxx \<Rightarrow> connection_config \<Rightarrow> bool" where
  "connects P con \<longleftrightarrow> cc_valid con \<and> (\<forall>tr. px_fail P tr (px_connect (make_connection_string con)) = None)"

lemma connects_establish:
  "connects P con \<Longrightarrow> try_to_establish_connection P tr con \<noteq> (tr', Inl e)"
  by (simp add: connects_def try_to_establish_connection_def Let_def)

lemma ds_inv_start: "ds_start cfg con s \<Longrightarrow> ds_inv cfg con s"
  by (auto simp: ds_start_def dbp_new_def ds_new_def ds_inv_def dbp_ok_def split: if_splits)

lemma ds_wake_start: "ds_start cfg con s \<Longrightarrow> ds_wake_inv cfg s"
  by (auto simp: ds_start_def ds_new_def ds_wake_inv_def)

lemma ds_inv_acquired:
  assumes inv: "ds_inv cfg con s"
    and r: "dbp_acquire P (ds_trace s) (ds_pool s) = Done r \<or> dbp_acquire_wake P (ds_trace s) (ds_pool s) = Done r \<or>
      dbp_try_acquire_timeout P (ds_trace s) (ds_pool s) = Done r"
  shows "ds_inv cfg con (ds_acquired (s\<lparr>ds_blocked := b, ds_woken := w\<rparr>) r)"
proof -
  obtain tr p x where [simp]: "r = (tr, p, x)" by (cases r)
  have ok: "dbp_ok (length (ds_handles s)) (ds_pool s)" using inv by (simp add: ds_inv_def)
  from acquire_done [OF ok r [simplified]] inv show ?thesis
    by (auto simp: ds_inv_def ds_acquired_def to_handle_def)
qed

lemma ds_wake_acquired:
  assumes inv: "ds_inv cfg con s" "ds_wake_inv cfg s" and P: "connects P con"
    and r: "dbp_acquire P (ds_trace s) (ds_pool s) = Done r \<or> dbp_acquire_wake P (ds_trace s) (ds_pool s) = Done r \<or>
      dbp_try_acquire_timeout P (ds_trace s) (ds_pool s) = Done r"
    and bw: "0 < b \<Longrightarrow> 0 < ds_blocked s" "ds_woken s \<le> w + 1"
  shows "ds_wake_inv cfg (ds_acquired (s\<lparr>ds_blocked := b, ds_woken := w\<rparr>) r)"
proof -
  obtain tr p x where [simp]: "r = (tr, p, x)" by (cases r)
  have ok: "dbp_ok (length (ds_handles s)) (ds_pool s)" using inv by (simp add: ds_inv_def)
  from acquire_done [OF ok r [simplified]] inv bw connects_establish [OF P] show ?thesis
    by (auto simp: ds_inv_def ds_wake_inv_def ds_acquired_def to_handle_def)
qed

lemma ds_notify_one_fields [simp]:
  "ds_trace (ds_notify_one s) = ds_trace s" "ds_pool (ds_notify_one s) = ds_pool s"
  "ds_handles (ds_notify_one s) = ds_handles s" "ds_null (ds_notify_one s) = ds_null s"
  by (simp_all add: ds_notify_one_def)

lemma ds_inv_release:
  assumes inv: "ds_inv cfg con s" and i: "i < length (ds_handles s)"
  shows "ds_inv cfg con (ds_release P s i)"
    and "ds_wake_inv cfg s \<Longrightarrow> ds_wake_inv cfg (ds_release P s i)"
proof -
  let ?h = "ds_handles s ! i"
  obtain tr p where r: "return_connection P (ds_trace s) (ds_pool s) (ph_connection ?h) = (tr, p)" by fastforce
  have pool: "ph_pool ?h" using inv i by (simp add: ds_inv_def list_all_length)
  obtain n where n: "length (ds_handles s) = Suc n" using i by (cases "length (ds_handles s)") auto
  have len: "length (take i (ds_handles s) @ drop (Suc i) (ds_handles s)) = n" using i n by simp
  have all: "list_all ph_pool (take i (ds_handles s) @ drop (Suc i) (ds_handles s))"
    using inv by (auto simp: ds_inv_def list_all_iff dest: in_set_takeD in_set_dropD)
  have "dbp_ok (Suc n) (ds_pool s)" using inv n by (simp add: ds_inv_def)
  from return_connection_ok [OF this r] inv len all pool r show "ds_inv cfg con (ds_release P s i)"
    by (simp add: ds_inv_def ds_release_def ph_destroy_def)
  show "ds_wake_inv cfg s \<Longrightarrow> ds_wake_inv cfg (ds_release P s i)"
    using n len pool r
    by (auto simp: ds_wake_inv_def ds_release_def ph_destroy_def ds_notify_one_def)
qed

lemma ph_mark_broken_pool: "ph_mark_broken tr h = (tr', h') \<Longrightarrow> ph_pool h' = ph_pool h"
  by (auto simp: ph_mark_broken_def conn_close_def split: option.splits)

lemma list_all_pool_update:
  "list_all ph_pool hs \<Longrightarrow> ph_pool h \<Longrightarrow> list_all ph_pool (hs[i := h])"
  by (rule list_all_update)

lemma ds_inv_step:
  assumes inv: "ds_inv cfg con s" and step: "dbp_step P s t"
  shows "ds_inv cfg con t"
  using step
proof cases
  case (dbp_st_acquire r)
  then show ?thesis using ds_inv_acquired [OF inv, where P = P and r = r and b = "ds_blocked s" and w = "ds_woken s"] by simp
next
  case (dbp_st_wake r)
  then show ?thesis using ds_inv_acquired [OF inv, where P = P and r = r and b = "ds_blocked s" and w = "ds_woken s - 1"] by simp
next
  case (dbp_st_timeout r)
  then show ?thesis using ds_inv_acquired [OF inv, where P = P and r = r and b = "ds_blocked s - 1" and w = "ds_woken s"] by simp
next
  case (dbp_st_woken_timeout r)
  then show ?thesis using ds_inv_acquired [OF inv, where P = P and r = r and b = "ds_blocked s" and w = "ds_woken s - 1"] by simp
next
  case (dbp_st_release i)
  then show ?thesis using ds_inv_release(1) [OF inv] by blast
next
  case (dbp_st_use i calls c)
  then show ?thesis using inv by (auto simp: ds_inv_def list_all_length nth_list_update)
next
  case (dbp_st_broken i tr h)
  then have "ph_pool h" using inv ph_mark_broken_pool [OF dbp_st_broken(3)] by (simp add: ds_inv_def list_all_length)
  then show ?thesis using inv dbp_st_broken by (auto simp: ds_inv_def intro!: list_all_pool_update)
qed (use inv in \<open>auto simp: ds_inv_def\<close>)

lemma ds_wake_step:
  assumes inv: "ds_inv cfg con s" "ds_wake_inv cfg s" and P: "connects P con" and step: "dbp_step P s t"
  shows "ds_wake_inv cfg t"
  using step
proof cases
  case (dbp_st_acquire r)
  then show ?thesis using ds_wake_acquired [OF inv P, where r = r and b = "ds_blocked s" and w = "ds_woken s"] by simp
next
  case (dbp_st_wake r)
  then show ?thesis using ds_wake_acquired [OF inv P, where r = r and b = "ds_blocked s" and w = "ds_woken s - 1"] by simp
next
  case (dbp_st_timeout r)
  then show ?thesis using ds_wake_acquired [OF inv P, where r = r and b = "ds_blocked s - 1" and w = "ds_woken s"] by simp
next
  case (dbp_st_woken_timeout r)
  then show ?thesis using ds_wake_acquired [OF inv P, where r = r and b = "ds_blocked s" and w = "ds_woken s - 1"] by simp
next
  case (dbp_st_release i)
  then show ?thesis using ds_inv_release(2) [OF inv(1)] inv(2) by blast
next
  case dbp_st_sleep
  then show ?thesis using acquire_waits [of "length (ds_handles s)" "ds_pool s" P "ds_trace s"] inv
    by (auto simp: ds_inv_def ds_wake_inv_def)
next
  case dbp_st_sleep_again
  then show ?thesis using acquire_waits [of "length (ds_handles s)" "ds_pool s" P "ds_trace s"] inv
    by (auto simp: ds_inv_def ds_wake_inv_def)
qed (use inv in \<open>auto simp: ds_wake_inv_def\<close>)

interpretation dbp_machine: invariant_machine "ds_start cfg con" "dbp_step P" "ds_inv cfg con" for P cfg con
  by unfold_locales (auto intro: ds_inv_start ds_inv_step)

lemma ds_wake_reach:
  assumes "connects P con" and "reach (ds_start cfg con) (dbp_step P) s"
  shows "ds_wake_inv cfg s"
  using assms(2)
proof (induction rule: reach.induct)
  case (reach_step s t)
  then show ?case using ds_wake_step [OF dbp_machine.reach_inv _ assms(1)] by blast
qed (rule ds_wake_start)

section \<open>Properties\<close>

text \<open>C17: In every interleaving of clients that acquire, wait, time out, use, break and return connections,
  whatever the driver answers, the pool's 64-bit counters are exact, \<open>active\<close> plus \<open>idle\<close> never exceeds
  \<open>max_connections\<close>, and \<open>PoolState\<close> never hands out a null connection.\<close>

theorem pool_counts_exact:
  assumes "reach (ds_start cfg con) (dbp_step P) s"
  shows "unat (dbp_active_count (ds_pool s)) = length (ds_handles s) \<and>
    unat (dbp_idle_count (ds_pool s)) = length (dbp_connections (ds_pool s)) \<and>
    unat (dbp_active_count (ds_pool s)) + unat (dbp_idle_count (ds_pool s)) \<le> unat (pc_max_connections cfg) \<and>
    \<not> ds_null s"
  using dbp_machine.reach_inv [OF assms]
  by (auto simp: ds_inv_def dbp_ok_def dbp_active_count_def dbp_idle_count_def)

text \<open>A pool with one slot; the driver connects once and refuses every later attempt.\<close>

definition sample_con :: connection_config where
  "sample_con = \<lparr>cc_host = ''h'', cc_dbname = ''d'', cc_user = ''u'', cc_password = [], cc_port = 5432,
     cc_application_name = None, cc_connect_timeout = None\<rparr>"

definition one_slot :: pool_config where
  "one_slot = default_pool_config\<lparr>pc_max_connections := 1\<rparr>"

definition one_slot_sys :: "pooled list \<Rightarrow> conn_state list \<Rightarrow> px_trace \<Rightarrow> nat \<Rightarrow> nat \<Rightarrow> dbp_sys" where
  "one_slot_sys hs cs tr b w =
     \<lparr>ds_trace = tr, ds_pool = \<lparr>dbp_config = one_slot, dbp_connection_config = sample_con, dbp_connections = cs,
        dbp_active = of_nat (length hs), dbp_idle = of_nat (length cs), dbp_shutdown = False\<rparr>,
      ds_handles = hs, ds_blocked = b, ds_woken = w, ds_null = False\<rparr>"

definition sample_handle :: "nat option \<Rightarrow> bool \<Rightarrow> pooled" where
  "sample_handle h broken = \<lparr>ph_pool = True, ph_connection = Some \<lparr>cs_connection = h, cs_cfg = sample_con,
     cs_transaction_active = False\<rparr>, ph_broken = broken\<rparr>"

definition connect_once :: "px_trace \<Rightarrow> px_call \<Rightarrow> pqxx_class option" where
  "connect_once tr call = (case call of
     px_connect _ \<Rightarrow> if tr = [] then None else Some px_broken_connection
   | _ \<Rightarrow> None)"

abbreviation "sample_connect \<equiv> px_connect (make_connection_string sample_con)"

lemmas one_slot_defs = one_slot_sys_def one_slot_def default_pool_config_def sample_handle_def

lemma sample_con_valid [simp]: "cc_valid sample_con"
  by (simp add: cc_valid_def sample_con_def)

lemma one_slot_start: "reach (ds_start one_slot sample_con) (dbp_step P) (one_slot_sys [] [] [] 0 0)"
  by (rule reach_start) (simp add: ds_start_def dbp_new_def ds_new_def one_slot_defs)

lemmas acquire_section_defs = dbp_acquire_def dbp_acquire_wake_def dbp_try_acquire_timeout_def
  take_connection_locked_def init_new_connection_locked_def can_create_connection_locked_def
  try_to_establish_connection_def pop_connection_def acquire_pred_def ds_acquired_def to_handle_def

lemma one_slot_acquire:
  assumes "fails [] sample_connect = None"
  shows "dbp_step (sample_driver fails) (one_slot_sys [] [] [] b w)
    (one_slot_sys [sample_handle (Some 0) False] [] [sample_connect] b w)"
  using dbp_st_acquire [of "sample_driver fails" "one_slot_sys [] [] [] b w"] assms
  by (simp add: one_slot_defs acquire_section_defs)

lemma one_slot_sleep:
  "dbp_step P (one_slot_sys [h] [] tr b w) (one_slot_sys [h] [] tr (b + 1) w)"
  using dbp_st_sleep [of P "one_slot_sys [h] [] tr b w"]
  by (simp add: one_slot_defs acquire_section_defs)

theorem pool_counts_exact_witness:
  "let s = one_slot_sys [sample_handle (Some 0) False] [] [sample_connect] 0 0
   in reach (ds_start one_slot sample_con) (dbp_step (sample_driver connect_once)) s \<and>
      unat (dbp_active_count (ds_pool s)) + unat (dbp_idle_count (ds_pool s)) \<le> 1"
proof -
  let ?s = "one_slot_sys [sample_handle (Some 0) False] [] [sample_connect] 0 0"
  have "reach (ds_start one_slot sample_con) (dbp_step (sample_driver connect_once)) ?s"
    by (rule reach_step [OF one_slot_start one_slot_acquire]) (simp add: connect_once_def)
  with pool_counts_exact [OF this] show ?thesis by (simp add: one_slot_def)
qed

text \<open>C21: As long as the driver accepts connection attempts no client is forgotten: when no notified
  client is still on its way, a client sleeps in \<open>acquire\<close> only while all \<open>max_connections\<close> connections
  are in use.\<close>

theorem pool_no_lost_wakeup:
  assumes "connects P con" and "reach (ds_start cfg con) (dbp_step P) s"
    and "ds_woken s = 0" and "0 < ds_blocked s"
  shows "length (ds_handles s) = unat (pc_max_connections cfg) \<and> dbp_connections (ds_pool s) = []"
proof -
  have "unat (pc_max_connections cfg) \<le> length (ds_handles s)"
    using ds_wake_reach [OF assms(1,2)] assms(3,4) by (simp add: ds_wake_inv_def)
  moreover have "length (dbp_connections (ds_pool s)) + length (ds_handles s) \<le> unat (pc_max_connections cfg)"
    using dbp_machine.reach_inv [OF assms(2)] by (auto simp: ds_inv_def dbp_ok_def)
  ultimately have "length (dbp_connections (ds_pool s)) = 0 \<and> length (ds_handles s) = unat (pc_max_connections cfg)"
    by linarith
  then show ?thesis by simp
qed

theorem pool_no_lost_wakeup_witness:
  "let P = sample_driver (\<lambda>tr c. None); s = one_slot_sys [sample_handle (Some 0) False] [] [sample_connect] 1 0
   in connects P sample_con \<and> reach (ds_start one_slot sample_con) (dbp_step P) s \<and>
      length (ds_handles s) = 1 \<and> dbp_connections (ds_pool s) = []"
proof -
  let ?P = "sample_driver (\<lambda>tr c. None)"
  let ?s = "one_slot_sys [sample_handle (Some 0) False] [] [sample_connect] 1 0"
  have c: "connects ?P sample_con" by (simp add: connects_def)
  have a: "dbp_step ?P (one_slot_sys [] [] [] 0 0) (one_slot_sys [sample_handle (Some 0) False] [] [sample_connect] 0 0)"
    by (rule one_slot_acquire) simp
  have r: "reach (ds_start one_slot sample_con) (dbp_step ?P) ?s"
    using reach_step [OF reach_step [OF one_slot_start a] one_slot_sleep] by simp
  have "ds_woken ?s = 0" "0 < ds_blocked ?s" by (simp_all add: one_slot_sys_def)
  from pool_no_lost_wakeup [OF c r this] c r show ?thesis by (simp add: one_slot_def)
qed

text \<open>When the driver refuses a connection attempt a wake-up is lost.  A pool of one connection has two
  clients asleep; the connection is marked broken and returned, one client is notified, its attempt to
  connect fails and it leaves with an exception; the other sleeps on, although nothing is in use and
  nobody is left who would notify it.\<close>

theorem refused_connection_loses_wakeup:
  "\<exists>s. reach (ds_start one_slot sample_con) (dbp_step (sample_driver connect_once)) s \<and>
     ds_woken s = 0 \<and> ds_blocked s = 1 \<and> ds_handles s = [] \<and> dbp_active_count (ds_pool s) = 0"
proof -
  let ?step = "dbp_step (sample_driver connect_once)"
  let ?c = sample_connect and ?d = "px_disconnect 0"
  have a: "?step (one_slot_sys [] [] [] 0 0) (one_slot_sys [sample_handle (Some 0) False] [] [?c] 0 0)"
    by (rule one_slot_acquire) (simp add: connect_once_def)
  have s2: "?step (one_slot_sys [h] [] tr 0 0) (one_slot_sys [h] [] tr 1 0)"
    "?step (one_slot_sys [h] [] tr 1 0) (one_slot_sys [h] [] tr 2 0)" for h tr
    using one_slot_sleep [of "sample_driver connect_once" h tr 0 0]
      one_slot_sleep [of "sample_driver connect_once" h tr 1 0] by (simp_all add: numeral_2_eq_2)
  have b: "?step (one_slot_sys [sample_handle (Some 0) False] [] [?c] 2 0)
      (one_slot_sys [sample_handle None True] [] [?c, ?d] 2 0)"
    using dbp_st_broken [of 0 "one_slot_sys [sample_handle (Some 0) False] [] [?c] 2 0" "[?c, ?d]"
        "sample_handle None True" "sample_driver connect_once"]
    by (simp add: one_slot_defs ph_mark_broken_def conn_close_def)
  have r: "?step (one_slot_sys [sample_handle None True] [] [?c, ?d] 2 0) (one_slot_sys [] [] [?c, ?d] 1 1)"
    using dbp_st_release [of 0 "one_slot_sys [sample_handle None True] [] [?c, ?d] 2 0" "sample_driver connect_once"]
    by (simp add: one_slot_defs ds_release_def ph_destroy_def return_connection_def cs_is_open_def
        destroy_connection_def ds_notify_one_def)
  have w: "?step (one_slot_sys [] [] [?c, ?d] 1 1) (one_slot_sys [] [] [?c, ?d, ?c] 1 0)"
    using dbp_st_wake [of "one_slot_sys [] [] [?c, ?d] 1 1" "sample_driver connect_once"]
    by (simp add: one_slot_defs acquire_section_defs connect_once_def Let_def)
  have "reach (ds_start one_slot sample_con) ?step (one_slot_sys [] [] [?c, ?d, ?c] 1 0)"
    by (rule reach_step [OF reach_step [OF reach_step [OF reach_step [OF reach_step [OF reach_step
      [OF one_slot_start a] s2(1)] s2(2)] b] r] w])
  then show ?thesis by (intro exI conjI) (assumption, simp_all add: one_slot_sys_def dbp_active_count_def)
qed

end
