(* ===== verification/Db_Tx.thy ===== *)
theory Db_Tx
  imports Db_Pool
begin

text \<open>
  Transactions on pooled connections: \<open>Transaction\<close>, \<open>Savepoint\<close> and \<open>TransactionHelper::with_retry\<close> of
  \<^verbatim>\<open>db/tx\<close>.  A transaction owns a pooled connection and a \<open>ConnectionTransaction\<close> on it; both share the
  connection's state, which is kept once.  Every operation passes the driver trace and the pool along.
\<close>

section \<open>Transactions\<close>

datatype isolation_level = read_committed | repeatable_read | serializable

text \<open>\<open>Transaction::Impl\<close>: the pooled connection (its state and its \<open>m_broken\<close> flag), the transaction on it
  and the savepoint counter.\<close>

record tx_impl =
  ti_cs :: conn_state
  ti_broken :: bool
  ti_tx :: conn_tx
  ti_next_savepoint_id :: "64 word"

record transaction =
  t_impl :: "tx_impl option"
  t_isoLevel :: isolation_level

definition ti_handle :: "tx_impl \<Rightarrow> pooled" where
  "ti_handle i = \<lparr>ph_pool = True, ph_connection = Some (ti_cs i), ph_broken = ti_broken i\<rparr>"

text \<open>The constructor of \<open>Impl\<close>: a connection is acquired, then a transaction begun; when that throws, the
  connection goes back.\<close>

definition tx_impl_new ::
  "('x, 'r) pqxx \<Rightarrow> px_trace \<Rightarrow> dbpool \<Rightarrow> (px_trace \<times> dbpool \<times> ('x db_exn, tx_impl) result) locked_section" where
  "tx_impl_new P tr p =
     (case pool_acquire P tr p of
        Wait \<Rightarrow> Wait
      | Undef \<Rightarrow> Undef
      | Done (tr1, p1, Inl e) \<Rightarrow> Done (tr1, p1, Inl e)
      | Done (tr1, p1, Inr h) \<Rightarrow>
         (case ph_get h of
            Inl e \<Rightarrow> (case ph_destroy P tr1 p1 h of (tr2, p2) \<Rightarrow> Done (tr2, p2, Inl e))
          | Inr cs \<Rightarrow>
             (case conn_begin_transaction P tr1 cs of
                (tr2, cs2, Inl e) \<Rightarrow>
                  (case ph_destroy P tr2 p1 (h\<lparr>ph_connection := Some cs2\<rparr>) of (tr3, p3) \<Rightarrow> Done (tr3, p3, Inl e))
              | (tr2, cs2, Inr ct) \<Rightarrow>
                  Done (tr2, p1, Inr \<lparr>ti_cs = cs2, ti_broken = ph_broken h, ti_tx = ct, ti_next_savepoint_id = 0\<rparr>))))"

text \<open>Destroying an \<open>Impl\<close>: first the transaction, then the connection handle.\<close>

definition tx_impl_destroy :: "('x, 'r) pqxx \<Rightarrow> px_trace \<Rightarrow> dbpool \<Rightarrow> tx_impl \<Rightarrow> px_trace \<times> dbpool" where
  "tx_impl_destroy P tr p i =
     (case ct_finish tr (ti_cs i) (ti_tx i) of (tr1, cs1, ct1) \<Rightarrow>
        ph_destroy P tr1 p (ti_handle (i\<lparr>ti_cs := cs1\<rparr>)))"

definition tx_mark_broken :: "px_trace \<Rightarrow> tx_impl \<Rightarrow> px_trace \<times> tx_impl" where
  "tx_mark_broken tr i =
     (case conn_close tr (ti_cs i) of (tr1, cs1, _) \<Rightarrow> (tr1, i\<lparr>ti_cs := cs1, ti_broken := True\<rparr>))"

text \<open>The common shape of the three query functions: a \<open>ConnectionError\<close> marks the connection broken.\<close>

definition is_connection_error :: "'x db_exn \<Rightarrow> bool" where
  "is_connection_error e \<longleftrightarrow> db_code e = Some db_connection_error"

definition tx_query ::
  "(px_trace \<Rightarrow> conn_tx \<Rightarrow> px_trace \<times> ('x db_exn, 'r) result) \<Rightarrow> px_trace \<Rightarrow> transaction \<Rightarrow>
     px_trace \<times> transaction \<times> ('x db_exn, 'r) result" where
  "tx_query query tr t =
     (case t_impl t of
        None \<Rightarrow> (tr, t, Inl (LogicError ''Invalid transaction handle''))
      | Some i \<Rightarrow>
         (case query tr (ti_tx i) of
            (tr1, Inr r) \<Rightarrow> (tr1, t, Inr r)
          | (tr1, Inl e) \<Rightarrow>
              if is_connection_error e
              then (case tx_mark_broken tr1 i of (tr2, i2) \<Rightarrow> (tr2, t\<lparr>t_impl := Some i2\<rparr>, Inl e))
              else (tr1, t, Inl e)))"

definition tx_exec ::
  "('x, 'r) pqxx \<Rightarrow> px_trace \<Rightarrow> transaction \<Rightarrow> string \<Rightarrow> px_trace \<times> transaction \<times> ('x db_exn, 'r) result" where
  "tx_exec P tr t sql = tx_query (\<lambda>tr ct. ct_exec P tr ct sql) tr t"

definition tx_exec_params ::
  "('x, 'r) pqxx \<Rightarrow> px_trace \<Rightarrow> transaction \<Rightarrow> string \<Rightarrow> db_param list \<Rightarrow>
     px_trace \<times> transaction \<times> ('x db_exn, 'r) result" where
  "tx_exec_params P tr t sql params = tx_query (\<lambda>tr ct. ct_exec_params P tr ct sql params) tr t"

definition tx_exec_prepared ::
  "('x, 'r) pqxx \<Rightarrow> px_trace \<Rightarrow> transaction \<Rightarrow> string \<Rightarrow> db_param list \<Rightarrow>
     px_trace \<times> transaction \<times> ('x db_exn, 'r) result" where
  "tx_exec_prepared P tr t name params = tx_query (\<lambda>tr ct. ct_exec_prepared P tr ct name params) tr t"

definition isolation_sql :: "isolation_level \<Rightarrow> string" where
  "isolation_sql l =
     (case l of
        read_committed \<Rightarrow> ''READ COMMITTED''
      | repeatable_read \<Rightarrow> ''REPEATABLE READ''
      | serializable \<Rightarrow> ''SERIALIZABLE'')"

definition setIsolationLevel ::
  "('x, 'r) pqxx \<Rightarrow> px_trace \<Rightarrow> transaction \<Rightarrow> isolation_level \<Rightarrow> px_trace \<times> transaction \<times> ('x db_exn, 'r) result" where
  "setIsolationLevel P tr t l =
     tx_query (\<lambda>tr ct. ct_exec P tr ct (''SET TRANSACTION ISOLATION LEVEL '' @ isolation_sql l)) tr t"

definition tx_new ::
  "('x, 'r) pqxx \<Rightarrow> px_trace \<Rightarrow> dbpool \<Rightarrow> (px_trace \<times> dbpool \<times> ('x db_exn, transaction) result) locked_section" where
  "tx_new P tr p =
     (case tx_impl_new P tr p of
        Wait \<Rightarrow> Wait
      | Undef \<Rightarrow> Undef
      | Done (tr1, p1, Inl e) \<Rightarrow> Done (tr1, p1, Inl e)
      | Done (tr1, p1, Inr i) \<Rightarrow> Done (tr1, p1, Inr \<lparr>t_impl = Some i, t_isoLevel = read_committed\<rparr>))"

text \<open>The constructor with an isolation level; when setting the level throws, the members are destroyed.\<close>

definition tx_destroy_members :: "('x, 'r) pqxx \<Rightarrow> px_trace \<Rightarrow> dbpool \<Rightarrow> transaction \<Rightarrow> px_trace \<times> dbpool" where
  "tx_destroy_members P tr p t = (case t_impl t of None \<Rightarrow> (tr, p) | Some i \<Rightarrow> tx_impl_destroy P tr p i)"

definition tx_new_level ::
  "('x, 'r) pqxx \<Rightarrow> px_trace \<Rightarrow> dbpool \<Rightarrow> isolation_level \<Rightarrow>
     (px_trace \<times> dbpool \<times> ('x db_exn, transaction) result) locked_section" where
  "tx_new_level P tr p l =
     (case tx_impl_new P tr p of
        Wait \<Rightarrow> Wait
      | Undef \<Rightarrow> Undef
      | Done (tr1, p1, Inl e) \<Rightarrow> Done (tr1, p1, Inl e)
      | Done (tr1, p1, Inr i) \<Rightarrow>
         (case setIsolationLevel P tr1 \<lparr>t_impl = Some i, t_isoLevel = l\<rparr> l of
            (tr2, t2, Inr _) \<Rightarrow> Done (tr2, p1, Inr t2)
          | (tr2, t2, Inl e) \<Rightarrow> (case tx_destroy_members P tr2 p1 t2 of (tr3, p3) \<Rightarrow> Done (tr3, p3, Inl e))))"

definition tx_active :: "transaction \<Rightarrow> bool" where
  "tx_active t \<longleftrightarrow> (case t_impl t of None \<Rightarrow> False | Some i \<Rightarrow> ct_active (ti_tx i))"

text \<open>\<open>commit\<close> and \<open>rollback\<close> give the connection back when they succeed.\<close>

definition tx_commit ::
  "('x, 'r) pqxx \<Rightarrow> px_trace \<Rightarrow> dbpool \<Rightarrow> transaction \<Rightarrow>
     px_trace \<times> dbpool \<times> transaction \<times> ('x db_exn, unit) result" where
  "tx_commit P tr p t =
     (case t_impl t of
        None \<Rightarrow> (tr, p, t, Inl (LogicError ''Invalid transaction handle''))
      | Some i \<Rightarrow>
         (case ct_commit P tr (ti_cs i) (ti_tx i) of
            (tr1, cs1, ct1, Inr _) \<Rightarrow>
              (case tx_impl_destroy P tr1 p (i\<lparr>ti_cs := cs1, ti_tx := ct1\<rparr>) of (tr2, p2) \<Rightarrow>
                 (tr2, p2, t\<lparr>t_impl := None\<rparr>, Inr ()))
          | (tr1, cs1, ct1, Inl e) \<Rightarrow>
              (let i1 = i\<lparr>ti_cs := cs1, ti_tx := ct1\<rparr> in
               if is_connection_error e
               then (case tx_mark_broken tr1 i1 of (tr2, i2) \<Rightarrow> (tr2, p, t\<lparr>t_impl := Some i2\<rparr>, Inl e))
               else (tr1, p, t\<lparr>t_impl := Some i1\<rparr>, Inl e))))"

definition tx_rollback ::
  "('x, 'r) pqxx \<Rightarrow> px_trace \<Rightarrow> dbpool \<Rightarrow> transaction \<Rightarrow>
     px_trace \<times> dbpool \<times> transaction \<times> ('x db_exn, unit) result" where
  "tx_rollback P tr p t =
     (case t_impl t of
        None \<Rightarrow> (tr, p, t, Inl (LogicError ''Invalid transaction handle''))
      | Some i \<Rightarrow>
         (case ct_rollback tr (ti_cs i) (ti_tx i) of
            (tr1, cs1, ct1, Inr _) \<Rightarrow>
              (case tx_impl_destroy P tr1 p (i\<lparr>ti_cs := cs1, ti_tx := ct1\<rparr>) of (tr2, p2) \<Rightarrow>
                 (tr2, p2, t\<lparr>t_impl := None\<rparr>, Inr ()))
          | (tr1, cs1, ct1, Inl e) \<Rightarrow>
              (let i1 = i\<lparr>ti_cs := cs1, ti_tx := ct1\<rparr> in
               if is_connection_error e
               then (case tx_mark_broken tr1 i1 of (tr2, i2) \<Rightarrow> (tr2, p, t\<lparr>t_impl := Some i2\<rparr>, Inl e))
               else (tr1, p, t\<lparr>t_impl := Some i1\<rparr>, Inl e))))"

text \<open>The destructor.  The handle of an \<open>Impl\<close> always has its connection, so its \<open>mark_broken\<close> branch is not
  taken; a running transaction is rolled back, then the members are destroyed.\<close>

definition tx_destroy :: "('x, 'r) pqxx \<Rightarrow> px_trace \<Rightarrow> dbpool \<Rightarrow> transaction \<Rightarrow> px_trace \<times> dbpool" where
  "tx_destroy P tr p t =
     (case t_impl t of
        None \<Rightarrow> (tr, p)
      | Some i \<Rightarrow>
         (let (tr0, i0) = (if \<not> ph_valid (ti_handle i) then tx_mark_broken tr i else (tr, i));
              (tr1, i1) = (if ct_active (ti_tx i0)
                then (case ct_rollback tr0 (ti_cs i0) (ti_tx i0) of (tr1, cs1, ct1, _ :: (unit db_exn, unit) result) \<Rightarrow>
                        (tr1, i0\<lparr>ti_cs := cs1, ti_tx := ct1\<rparr>))
                else (tr0, i0))
          in tx_impl_destroy P tr1 p i1))"

definition make_savepoint_name :: "transaction \<Rightarrow> transaction \<times> string" where
  "make_savepoint_name t =
     (case t_impl t of
        None \<Rightarrow> (t, [])
      | Some i \<Rightarrow> (t\<lparr>t_impl := Some (i\<lparr>ti_next_savepoint_id := ti_next_savepoint_id i + 1\<rparr>)\<rparr>,
                   ''tx_sp_'' @ nat_dec (unat (ti_next_savepoint_id i))))"

section \<open>Savepoints\<close>

text \<open>A savepoint refers to its transaction; its \<open>Impl\<close> is the name and the \<open>active\<close> flag.\<close>

record savepoint =
  sp_impl :: "(string \<times> bool) option"

definition sp_new_named ::
  "('x, 'r) pqxx \<Rightarrow> px_trace \<Rightarrow> transaction \<Rightarrow> string \<Rightarrow> px_trace \<times> transaction \<times> ('x db_exn, savepoint) result" where
  "sp_new_named P tr t name =
     (if \<not> tx_active t then (tr, t, Inl (LogicError ''Transaction is inactive''))
      else case tx_exec P tr t (''SAVEPOINT '' @ name) of
        (tr1, t1, Inl e) \<Rightarrow> (tr1, t1, Inl e)
      | (tr1, t1, Inr _) \<Rightarrow> (tr1, t1, Inr \<lparr>sp_impl = Some (name, True)\<rparr>))"

definition sp_new ::
  "('x, 'r) pqxx \<Rightarrow> px_trace \<Rightarrow> transaction \<Rightarrow> px_trace \<times> transaction \<times> ('x db_exn, savepoint) result" where
  "sp_new P tr t =
     (if \<not> tx_active t then (tr, t, Inl (LogicError ''Transaction is inactive''))
      else case make_savepoint_name t of (t1, name) \<Rightarrow>
        (case tx_exec P tr t1 (''SAVEPOINT '' @ name) of
           (tr2, t2, Inl e) \<Rightarrow> (tr2, t2, Inl e)
         | (tr2, t2, Inr _) \<Rightarrow> (tr2, t2, Inr \<lparr>sp_impl = Some (name, True)\<rparr>)))"

text \<open>\<open>rollback\<close> and \<open>release\<close> send one statement each and deactivate the savepoint when it succeeds.\<close>

definition sp_finish ::
  "string \<Rightarrow> ('x, 'r) pqxx \<Rightarrow> px_trace \<Rightarrow> transaction \<Rightarrow> savepoint \<Rightarrow>
     px_trace \<times> transaction \<times> savepoint \<times> ('x db_exn, unit) result" where
  "sp_finish stmt P tr t sp =
     (case sp_impl sp of
        Some (name, True) \<Rightarrow>
         (case tx_exec P tr t (stmt @ name) of
            (tr1, t1, Inl e) \<Rightarrow> (tr1, t1, sp, Inl e)
          | (tr1, t1, Inr _) \<Rightarrow> (tr1, t1, \<lparr>sp_impl = Some (name, False)\<rparr>, Inr ()))
      | _ \<Rightarrow> (tr, t, sp, Inl (LogicError ''Savepoint is not active'')))"

definition sp_rollback ::
  "('x, 'r) pqxx \<Rightarrow> px_trace \<Rightarrow> transaction \<Rightarrow> savepoint \<Rightarrow>
     px_trace \<times> transaction \<times> savepoint \<times> ('x db_exn, unit) result" where
  "sp_rollback = sp_finish ''ROLLBACK TO SAVEPOINT ''"

definition sp_release ::
  "('x, 'r) pqxx \<Rightarrow> px_trace \<Rightarrow> transaction \<Rightarrow> savepoint \<Rightarrow>
     px_trace \<times> transaction \<times> savepoint \<times> ('x db_exn, unit) result" where
  "sp_release = sp_finish ''RELEASE SAVEPOINT ''"

definition sp_active :: "savepoint \<Rightarrow> bool" where
  "sp_active sp \<longleftrightarrow> (case sp_impl sp of None \<Rightarrow> False | Some (_, a) \<Rightarrow> a)"

definition sp_name :: "savepoint \<Rightarrow> string" where
  "sp_name sp = (case sp_impl sp of None \<Rightarrow> [] | Some (n, _) \<Rightarrow> n)"

text \<open>The destructor rolls an active savepoint back and swallows every exception; move assignment only
  overwrites the target.\<close>

definition sp_destroy :: "('x, 'r) pqxx \<Rightarrow> px_trace \<Rightarrow> transaction \<Rightarrow> savepoint \<Rightarrow> px_trace \<times> transaction" where
  "sp_destroy P tr t sp =
     (if sp_active sp then (case sp_rollback P tr t sp of (tr1, t1, _, _) \<Rightarrow> (tr1, t1)) else (tr, t))"

definition sp_move_assign :: "savepoint \<Rightarrow> savepoint \<Rightarrow> savepoint \<times> savepoint" where
  "sp_move_assign target source = (source, \<lparr>sp_impl = None\<rparr>)"

section \<open>Retrying\<close>

definition retryable :: "'x db_exn \<Rightarrow> bool" where
  "retryable e \<longleftrightarrow> db_code e = Some db_serialization_failure \<or> db_code e = Some db_deadlock_detected"

text \<open>The user's function gets the transaction by reference.\<close>

type_synonym ('x, 'a) tx_fn =
  "px_trace \<Rightarrow> dbpool \<Rightarrow> transaction \<Rightarrow> px_trace \<times> dbpool \<times> transaction \<times> ('x db_exn, 'a) result"

text \<open>The body of the \<open>try\<close> block, and a \<open>catch\<close> block before its test for the last attempt.\<close>

definition retry_body ::
  "('x, 'r) pqxx \<Rightarrow> ('x, 'a) tx_fn \<Rightarrow> ('x, 'a) tx_fn" where
  "retry_body P fn tr p t =
     (case fn tr p t of
        (tr1, p1, t1, Inl e) \<Rightarrow> (tr1, p1, t1, Inl e)
      | (tr1, p1, t1, Inr v) \<Rightarrow>
         (case tx_commit P tr1 p1 t1 of
            (tr2, p2, t2, Inl e) \<Rightarrow> (tr2, p2, t2, Inl e)
          | (tr2, p2, t2, Inr _) \<Rightarrow> (tr2, p2, t2, Inr v)))"

definition retry_cleanup ::
  "('x, 'r) pqxx \<Rightarrow> px_trace \<Rightarrow> dbpool \<Rightarrow> transaction \<Rightarrow>
     px_trace \<times> dbpool \<times> transaction \<times> ('x db_exn, unit) result" where
  "retry_cleanup P tr p t = (if tx_active t then tx_rollback P tr p t else (tr, p, t, Inr ()))"

text \<open>\<open>k\<close> is the number of attempts left, \<open>m_maxRetries - i\<close>.\<close>

fun retry_loop ::
  "('x, 'r) pqxx \<Rightarrow> isolation_level \<Rightarrow> ('x, 'a) tx_fn \<Rightarrow> nat \<Rightarrow> px_trace \<Rightarrow> dbpool \<Rightarrow>
     (px_trace \<times> dbpool \<times> ('x db_exn, 'a) result) locked_section" where
  "retry_loop P l fn 0 tr p = Done (tr, p, Inl (RuntimeError ''Failed''))"
| "retry_loop P l fn (Suc k) tr p =
     (case tx_new_level P tr p l of
        Wait \<Rightarrow> Wait
      | Undef \<Rightarrow> Undef
      | Done (tr1, p1, Inl e) \<Rightarrow> Done (tr1, p1, Inl e)
      | Done (tr1, p1, Inr t1) \<Rightarrow>
         (case retry_body P fn tr1 p1 t1 of
            (tr2, p2, t2, Inr v) \<Rightarrow> (case tx_destroy P tr2 p2 t2 of (tr3, p3) \<Rightarrow> Done (tr3, p3, Inr v))
          | (tr2, p2, t2, Inl e) \<Rightarrow>
              if \<not> retryable e
              then (case tx_destroy P tr2 p2 t2 of (tr3, p3) \<Rightarrow> Done (tr3, p3, Inl e))
              else (case retry_cleanup P tr2 p2 t2 of
                  (tr3, p3, t3, Inl e') \<Rightarrow> (case tx_destroy P tr3 p3 t3 of (tr4, p4) \<Rightarrow> Done (tr4, p4, Inl e'))
                | (tr3, p3, t3, Inr _) \<Rightarrow>
                   (case tx_destroy P tr3 p3 t3 of (tr4, p4) \<Rightarrow>
                      if k = 0 then Done (tr4, p4, Inl e) else retry_loop P l fn k tr4 p4))))"

definition with_retry ::
  "('x, 'r) pqxx \<Rightarrow> isolation_level \<Rightarrow> ('x, 'a) tx_fn \<Rightarrow> nat \<Rightarrow> px_trace \<Rightarrow> dbpool \<Rightarrow>
     (px_trace \<times> dbpool \<times> ('x db_exn, 'a) result) locked_section" where
  "with_retry P l fn maxRetries tr p =
     (if maxRetries = 0 then Done (tr, p, Inl (LogicError ''Invalid number of retries''))
      else retry_loop P l fn maxRetries tr p)"

section \<open>Connections in use\<close>

text \<open>\<open>n\<close> connections are in use besides the one the transaction holds, if it holds one.\<close>

definition tx_accounts :: "nat \<Rightarrow> dbpool \<Rightarrow> transaction \<Rightarrow> bool" where
  "tx_accounts n p t \<longleftrightarrow> dbp_ok (case t_impl t of None \<Rightarrow> n | Some _ \<Rightarrow> Suc n) p"

lemma pool_acquire_ok:
  assumes ok: "dbp_ok n p" and r: "pool_acquire P tr p = Done (tr', p', x)"
  shows "case x of Inl _ \<Rightarrow> dbp_ok n p' | Inr h \<Rightarrow> dbp_ok (Suc n) p' \<and> ph_pool h \<and> ph_connection h \<noteq> None"
proof -
  obtain y where y: "dbp_acquire P tr p = Done (tr', p', y)" "x = to_handle y"
    using r by (auto simp: pool_acquire_def pool_acquire_section_def split: locked_section.splits)
  with acquire_done [OF ok] ok show ?thesis by (fastforce simp: to_handle_def)
qed

lemma ph_destroy_ok:
  assumes "dbp_ok (Suc n) p" "ph_pool h" "ph_destroy P tr p h = (tr', p')"
  shows "dbp_ok n p'"
  using assms by (auto simp: ph_destroy_def dest: return_connection_ok)

lemma tx_impl_new_ok:
  assumes ok: "dbp_ok n p" and r: "tx_impl_new P tr p = Done (tr', p', x)"
  shows "case x of Inl _ \<Rightarrow> dbp_ok n p' | Inr i \<Rightarrow> dbp_ok (Suc n) p'"
proof -
  obtain tr1 p1 y where y: "pool_acquire P tr p = Done (tr1, p1, y)"
    using r by (auto simp: tx_impl_new_def split: locked_section.splits)
  note acq = pool_acquire_ok [OF ok y]
  show ?thesis
  proof (cases y)
    case (Inl e)
    then show ?thesis using acq y r by (auto simp: tx_impl_new_def)
  next
    case (Inr h)
    then obtain cs where h: "dbp_ok (Suc n) p1" "ph_pool h" "ph_connection h = Some cs" using acq by auto
    obtain tr2 cs2 z where z: "conn_begin_transaction P tr1 cs = (tr2, cs2, z)" by (cases "conn_begin_transaction P tr1 cs")
    show ?thesis
      using r y Inr h z ph_destroy_ok [OF h(1), of "h\<lparr>ph_connection := Some cs2\<rparr>" P tr2]
      by (cases z) (auto simp: tx_impl_new_def ph_get_def split: prod.splits)
  qed
qed

lemma tx_impl_destroy_ok:
  assumes "dbp_ok (Suc n) p" "tx_impl_destroy P tr p i = (tr', p')"
  shows "dbp_ok n p'"
proof -
  obtain tr1 cs1 ct1 where "ct_finish tr (ti_cs i) (ti_tx i) = (tr1, cs1, ct1)" by (cases "ct_finish tr (ti_cs i) (ti_tx i)")
  with assms(2) have "ph_destroy P tr1 p (ti_handle (i\<lparr>ti_cs := cs1\<rparr>)) = (tr', p')"
    by (simp add: tx_impl_destroy_def)
  then show ?thesis by (rule ph_destroy_ok [OF assms(1), rotated]) (simp add: ti_handle_def)
qed

lemma tx_query_impl:
  assumes "tx_query q tr t = (tr', t', r)"
  shows "(t_impl t' = None) = (t_impl t = None)"
  using assms by (auto simp: tx_query_def split: option.splits prod.splits sum.splits if_splits)

lemma tx_accounts_query:
  assumes "tx_accounts n p t" "tx_query q tr t = (tr', t', r)"
  shows "tx_accounts n p t'"
  using assms tx_query_impl [OF assms(2)] by (auto simp: tx_accounts_def split: option.splits)

lemma tx_new_level_ok:
  assumes ok: "dbp_ok n p" and r: "tx_new_level P tr p l = Done (tr', p', x)"
  shows "case x of Inl _ \<Rightarrow> dbp_ok n p' | Inr t \<Rightarrow> tx_accounts n p' t"
proof -
  obtain tr1 p1 y where y: "tx_impl_new P tr p = Done (tr1, p1, y)"
    using r by (auto simp: tx_new_level_def split: locked_section.splits)
  show ?thesis
  proof (cases y)
    case (Inl e)
    then show ?thesis using tx_impl_new_ok [OF ok y] y r by (auto simp: tx_new_level_def)
  next
    case (Inr i)
    let ?t = "\<lparr>t_impl = Some i, t_isoLevel = l\<rparr>"
    have p1: "dbp_ok (Suc n) p1" using tx_impl_new_ok [OF ok y] Inr by simp
    obtain tr2 t2 z where z: "setIsolationLevel P tr1 ?t l = (tr2, t2, z)" by (cases "setIsolationLevel P tr1 ?t l")
    then obtain i2 where i2: "t_impl t2 = Some i2"
      using tx_query_impl unfolding setIsolationLevel_def by (cases "t_impl t2") force+
    show ?thesis
      using r y Inr z i2 p1 tx_impl_destroy_ok [OF p1]
      by (cases z) (auto simp: tx_new_level_def tx_accounts_def tx_destroy_members_def split: prod.splits)
  qed
qed

lemma tx_commit_ok:
  assumes "tx_accounts n p t" "tx_commit P tr p t = (tr', p', t', r)"
  shows "tx_accounts n p' t'"
  using assms tx_impl_destroy_ok [of n p]
  by (auto simp: tx_commit_def tx_accounts_def Let_def split: option.splits prod.splits sum.splits if_splits)

lemma tx_rollback_ok:
  assumes "tx_accounts n p t" "tx_rollback P tr p t = (tr', p', t', r)"
  shows "tx_accounts n p' t'"
  using assms tx_impl_destroy_ok [of n p]
  by (auto simp: tx_rollback_def tx_accounts_def Let_def split: option.splits prod.splits sum.splits if_splits)

lemma tx_destroy_ok:
  assumes "tx_accounts n p t" "tx_destroy P tr p t = (tr', p')"
  shows "dbp_ok n p'"
  using assms tx_impl_destroy_ok [of n p]
  by (auto simp: tx_destroy_def tx_accounts_def Let_def split: option.splits prod.splits if_splits)

text \<open>What \<open>with_retry\<close> relies on: the function gives back what it takes from the pool.\<close>

definition keeps_accounts :: "('x, 'a) tx_fn \<Rightarrow> bool" where
  "keeps_accounts fn \<longleftrightarrow> (\<forall>n tr p t tr' p' t' r. tx_accounts n p t \<longrightarrow> fn tr p t = (tr', p', t', r) \<longrightarrow> tx_accounts n p' t')"

lemma keeps_accountsD:
  "keeps_accounts fn \<Longrightarrow> tx_accounts n p t \<Longrightarrow> fn tr p t = (tr', p', t', r) \<Longrightarrow> tx_accounts n p' t'"
  unfolding keeps_accounts_def by blast

lemma retry_body_ok:
  assumes "keeps_accounts fn" "tx_accounts n p t" "retry_body P fn tr p t = (tr', p', t', r)"
  shows "tx_accounts n p' t'"
  using assms
  by (auto simp: retry_body_def split: prod.splits sum.splits dest!: keeps_accountsD dest: tx_commit_ok)

lemma retry_cleanup_ok:
  assumes "tx_accounts n p t" "retry_cleanup P tr p t = (tr', p', t', r)"
  shows "tx_accounts n p' t'"
  using assms tx_rollback_ok by (auto simp: retry_cleanup_def split: if_splits)

lemma retry_loop_ok:
  assumes "keeps_accounts fn"
  shows "dbp_ok n p \<Longrightarrow> retry_loop P l fn k tr p = Done (tr', p', r) \<Longrightarrow> dbp_ok n p'"
proof (induction k arbitrary: tr p)
  case (Suc k)
  obtain tr1 p1 x where x: "tx_new_level P tr p l = Done (tr1, p1, x)"
    using Suc.prems(2) by (auto split: locked_section.splits)
  note new = tx_new_level_ok [OF Suc.prems(1) x]
  show ?case
  proof (cases x)
    case (Inl e)
    then show ?thesis using new x Suc.prems(2) by auto
  next
    case (Inr t1)
    then have t1: "tx_accounts n p1 t1" using new by simp
    obtain tr2 p2 t2 y where y: "retry_body P fn tr1 p1 t1 = (tr2, p2, t2, y)" by (cases "retry_body P fn tr1 p1 t1")
    note t2 = retry_body_ok [OF assms t1 y]
    obtain tr3 p3 t3 z where z: "retry_cleanup P tr2 p2 t2 = (tr3, p3, t3, z)" by (cases "retry_cleanup P tr2 p2 t2")
    note t3 = retry_cleanup_ok [OF t2 z]
    show ?thesis
      using Suc.prems(2) x Inr y z
      by (auto split: sum.splits if_splits prod.splits dest: tx_destroy_ok [OF t2] tx_destroy_ok [OF t3]
          intro: Suc.IH [OF tx_destroy_ok [OF t3]])
  qed
qed simp

section \<open>Transactions begun\<close>

definition is_begin :: "px_call \<Rightarrow> bool" where
  "is_begin c = (case c of px_begin _ \<Rightarrow> True | _ \<Rightarrow> False)"

definition begins :: "px_trace \<Rightarrow> nat" where
  "begins tr = length (filter is_begin tr)"

lemma begins_append [simp]: "begins (tr @ tr') = begins tr + begins tr'"
  by (simp add: begins_def)

lemma begins_calls [simp]:
  "begins [] = 0" "begins (px_begin h # tr) = Suc (begins tr)"
  "begins (px_connect c # tr) = begins tr" "begins (px_disconnect h # tr) = begins tr"
  "begins (px_exec w q a # tr) = begins tr" "begins (px_exec_prepared w q a # tr) = begins tr"
  "begins (px_commit w # tr) = begins tr" "begins (px_end w # tr) = begins tr"
  "begins (px_prepare h n q # tr) = begins tr"
  by (simp_all add: begins_def is_begin_def)

lemma begins_ct_finish: "ct_finish tr cs ct = (tr', cs', ct') \<Longrightarrow> begins tr' = begins tr"
  by (auto simp: ct_finish_def split: option.splits)

lemma begins_ph_destroy: "ph_destroy P tr p h = (tr', p') \<Longrightarrow> begins tr' = begins tr"
  by (auto simp: ph_destroy_def return_connection_def destroy_connection_def Let_def
      split: option.splits if_splits)

lemma begins_take: "take_connection_locked P tr p = Done (tr', p', x) \<Longrightarrow> begins tr' = begins tr"
  by (auto simp: take_connection_locked_def init_new_connection_locked_def try_to_establish_connection_def
      Let_def split: option.splits if_splits prod.splits sum.splits bool.splits)

lemma begins_acquire: "pool_acquire P tr p = Done (tr', p', x) \<Longrightarrow> begins tr' = begins tr"
  by (auto simp: pool_acquire_def pool_acquire_section_def dbp_acquire_def dbp_acquire_wake_def
      split: locked_section.splits if_splits prod.splits sum.splits option.splits dest!: begins_take)

lemma begins_conn_begin: "conn_begin_transaction P tr cs = (tr', cs', x) \<Longrightarrow> begins tr' \<le> Suc (begins tr)"
  by (auto simp: conn_begin_transaction_def ct_begin_def split: sum.splits option.splits if_splits)

lemma begins_tx_impl_new: "tx_impl_new P tr p = Done (tr', p', x) \<Longrightarrow> begins tr' \<le> Suc (begins tr)"
  by (auto simp: tx_impl_new_def split: locked_section.splits prod.splits sum.splits
      dest!: begins_acquire begins_conn_begin begins_ph_destroy)

lemma begins_tx_impl_destroy: "tx_impl_destroy P tr p i = (tr', p') \<Longrightarrow> begins tr' = begins tr"
  by (auto simp: tx_impl_destroy_def split: prod.splits dest!: begins_ct_finish begins_ph_destroy)

lemma begins_mark_broken: "tx_mark_broken tr i = (tr', i') \<Longrightarrow> begins tr' = begins tr"
  by (auto simp: tx_mark_broken_def conn_close_def split: option.splits)

lemma begins_ct_exec: "ct_exec P tr ct sql = (tr', x) \<Longrightarrow> begins tr' = begins tr"
  by (auto simp: ct_exec_def px_run_def split: sum.splits option.splits)

lemma begins_set_level: "setIsolationLevel P tr t l = (tr', t', x) \<Longrightarrow> begins tr' = begins tr"
  by (auto simp: setIsolationLevel_def tx_query_def split: option.splits prod.splits sum.splits if_splits
      dest!: begins_ct_exec begins_mark_broken)

lemma begins_new_level: "tx_new_level P tr p l = Done (tr', p', x) \<Longrightarrow> begins tr' \<le> Suc (begins tr)"
  by (auto simp: tx_new_level_def tx_destroy_members_def
      split: locked_section.splits prod.splits sum.splits option.splits
      dest!: begins_tx_impl_new begins_set_level begins_tx_impl_destroy)

lemma begins_ct_commit: "ct_commit P tr cs ct = (tr', cs', ct', x) \<Longrightarrow> begins tr' = begins tr"
  by (auto simp: ct_commit_def ct_finish_def split: sum.splits option.splits)

lemma begins_ct_rollback: "ct_rollback tr cs ct = (tr', cs', ct', x) \<Longrightarrow> begins tr' = begins tr"
  by (auto simp: ct_rollback_def ct_finish_def split: sum.splits option.splits)

lemma begins_commit:
  assumes "tx_commit P tr p t = (tr', p', t', x)"
  shows "begins tr' = begins tr"
proof (cases "t_impl t")
  case None
  then show ?thesis using assms by (simp add: tx_commit_def)
next
  case (Some i)
  obtain tr1 cs1 ct1 y where y: "ct_commit P tr (ti_cs i) (ti_tx i) = (tr1, cs1, ct1, y)"
    by (cases "ct_commit P tr (ti_cs i) (ti_tx i)")
  from begins_ct_commit [OF y] assms Some y show ?thesis
    by (cases y) (auto simp: tx_commit_def Let_def split: prod.splits if_splits
        dest!: begins_tx_impl_destroy begins_mark_broken)
qed

lemma begins_cleanup:
  assumes "retry_cleanup P tr p t = (tr', p', t', x)"
  shows "begins tr' = begins tr"
proof (cases "t_impl t")
  case None
  then show ?thesis using assms by (simp add: retry_cleanup_def tx_active_def)
next
  case (Some i)
  obtain tr1 cs1 ct1 and y :: "('a db_exn, unit) result"
    where y: "ct_rollback tr (ti_cs i) (ti_tx i) = (tr1, cs1, ct1, y)"
    by (cases "ct_rollback tr (ti_cs i) (ti_tx i) :: _ \<times> _ \<times> _ \<times> ('a db_exn, unit) result")
  from begins_ct_rollback [OF y] assms Some y show ?thesis
    by (cases y) (auto simp: retry_cleanup_def tx_rollback_def Let_def split: prod.splits if_splits
        dest!: begins_tx_impl_destroy begins_mark_broken)
qed

lemma begins_destroy: "tx_destroy P tr p t = (tr', p') \<Longrightarrow> begins tr' = begins tr"
  by (auto simp: tx_destroy_def Let_def split: option.splits prod.splits if_splits
      dest!: begins_tx_impl_destroy begins_mark_broken begins_ct_rollback)

text \<open>The function works in the transaction it is given and begins none itself.\<close>

definition begins_none :: "('x, 'a) tx_fn \<Rightarrow> bool" where
  "begins_none fn \<longleftrightarrow> (\<forall>tr p t. begins (fst (fn tr p t)) = begins tr)"

lemma begins_body:
  assumes "begins_none fn" "retry_body P fn tr p t = (tr', p', t', x)"
  shows "begins tr' = begins tr"
proof -
  have "fn tr p t = (a, b) \<Longrightarrow> begins a = begins tr" for a b
    using assms(1) unfolding begins_none_def by (metis fst_conv)
  with assms(2) show ?thesis
    by (auto simp: retry_body_def split: prod.splits sum.splits dest!: begins_commit)
qed

lemma begins_retry_loop:
  assumes "begins_none fn"
  shows "retry_loop P l fn k tr p = Done (tr', p', r) \<Longrightarrow> begins tr' \<le> begins tr + k"
proof (induction k arbitrary: tr p)
  case (Suc k)
  then show ?case
    by (auto split: locked_section.splits prod.splits sum.splits if_splits
        dest!: begins_new_level begins_body [OF assms] begins_destroy begins_cleanup Suc.IH)
qed simp

text \<open>A value is only returned from an attempt that committed.\<close>

lemma retry_loop_value:
  assumes "retry_loop P l fn k tr p = Done (tr', p', Inr v)"
  shows "\<exists>tr1 p1 t1 tr2 p2 t2 tr3 p3 t3. fn tr1 p1 t1 = (tr2, p2, t2, Inr v) \<and>
    tx_commit P tr2 p2 t2 = (tr3, p3, t3, Inr ()) \<and> tx_destroy P tr3 p3 t3 = (tr', p')"
  using assms
proof (induction k arbitrary: tr p)
  case (Suc k)
  obtain tr1 p1 t1 where t1: "tx_new_level P tr p l = Done (tr1, p1, Inr t1)"
    using Suc.prems by (auto split: locked_section.splits prod.splits sum.splits)
  obtain tr2 p2 t2 y where y: "retry_body P fn tr1 p1 t1 = (tr2, p2, t2, y)" by (cases "retry_body P fn tr1 p1 t1")
  show ?case
  proof (cases y)
    case (Inl e)
    then obtain tr4 p4 where "retry_loop P l fn k tr4 p4 = Done (tr', p', Inr v)"
      using Suc.prems t1 y by (auto split: prod.splits sum.splits if_splits)
    then show ?thesis by (rule Suc.IH)
  next
    case (Inr w)
    then have "tx_destroy P tr2 p2 t2 = (tr', p')" "w = v"
      using Suc.prems t1 y by (auto split: prod.splits)
    moreover obtain a b c where "fn tr1 p1 t1 = (a, b, c, Inr w)" "tx_commit P a b c = (tr2, p2, t2, Inr ())"
      using y Inr by (auto simp: retry_body_def split: prod.splits sum.splits)
    ultimately show ?thesis by blast
  qed
qed simp

section \<open>Properties\<close>

lemmas tx_run_defs = tx_new_level_def tx_impl_new_def pool_acquire_def pool_acquire_section_def acquire_section_defs
  ph_get_def conn_begin_transaction_def conn_ensure_open_def cs_is_open_def ct_begin_def ct_fresh_def
  setIsolationLevel_def tx_query_def ct_exec_def ct_ensure_active_def px_run_def tx_commit_def ct_commit_def
  ct_finish_def tx_impl_destroy_def ph_destroy_def ti_handle_def return_connection_def tx_destroy_def

text \<open>C18: \<open>with_retry\<close> begins at most \<open>m_maxRetries\<close> transactions, whatever the driver answers; when it
  returns or throws, the pool has exactly as many connections in use as before, every connection taken
  for an attempt having been given back; and it returns a value only from an attempt whose commit
  succeeded.  The function it runs gives back what it takes from the pool and begins no transaction of
  its own.\<close>

theorem with_retry_correct:
  assumes "keeps_accounts fn" and "begins_none fn" and "dbp_ok n p"
    and "with_retry P l fn m tr p = Done (tr', p', r)"
  shows "unat (dbp_active_count p') = n \<and>
    unat (dbp_idle_count p') = length (dbp_connections p') \<and>
    begins tr' \<le> begins tr + m \<and>
    (\<forall>v. r = Inr v \<longrightarrow> (\<exists>tr1 p1 t1 tr2 p2 t2 tr3 p3 t3. fn tr1 p1 t1 = (tr2, p2, t2, Inr v) \<and>
       tx_commit P tr2 p2 t2 = (tr3, p3, t3, Inr ()) \<and> tx_destroy P tr3 p3 t3 = (tr', p')))"
proof (cases "m = 0")
  case True
  then show ?thesis
    using assms(3,4) by (auto simp: with_retry_def dbp_ok_def dbp_active_count_def dbp_idle_count_def)
next
  case False
  then have loop: "retry_loop P l fn m tr p = Done (tr', p', r)" using assms(4) by (simp add: with_retry_def)
  from retry_loop_ok [OF assms(1,3) loop] begins_retry_loop [OF assms(2) loop] retry_loop_value loop
  show ?thesis by (auto simp: dbp_ok_def dbp_active_count_def dbp_idle_count_def)
qed

theorem with_retry_correct_witness:
  "let P = sample_driver (\<lambda>tr c. None); p = ds_pool (one_slot_sys [] [] [] 0 0);
       fn = (\<lambda>tr p t. (tr, p, t, Inr 7)) :: (pqxx_class, nat) tx_fn
   in \<exists>tr' p'. with_retry P serializable fn 2 [] p = Done (tr', p', Inr 7) \<and>
      unat (dbp_active_count p') = 0 \<and> begins tr' \<le> 2"
proof -
  let ?P = "sample_driver (\<lambda>tr c. None)"
  let ?p = "ds_pool (one_slot_sys [] [] [] 0 0)"
  let ?fn = "(\<lambda>tr p t. (tr, p, t, Inr 7)) :: (pqxx_class, nat) tx_fn"
  have fn: "keeps_accounts ?fn" "begins_none ?fn" by (simp_all add: keeps_accounts_def begins_none_def)
  have ok: "dbp_ok 0 ?p" by (simp add: dbp_ok_def one_slot_sys_def)
  have "\<exists>tr' p'. with_retry ?P serializable ?fn 2 [] ?p = Done (tr', p', Inr 7)"
    by (simp add: with_retry_def numeral_2_eq_2 retry_body_def tx_run_defs one_slot_defs Let_def)
  then obtain tr' p' where r: "with_retry ?P serializable ?fn 2 [] ?p = Done (tr', p', Inr 7)" by blast
  from with_retry_correct [OF fn ok r] r show ?thesis by (auto simp: Let_def)
qed

text \<open>After a lost connection the transaction object destroys the driver's connection before the
  driver's transaction on it: \<open>mark_broken\<close> resets the connection as soon as a query reports the loss,
  while the work object, which refers to that connection, lives until the transaction is destroyed.
  The broken connection itself is not put back into the pool.\<close>

theorem broken_connection_dies_before_work:
  assumes "t_impl t = Some i" and "cs_connection (ti_cs i) = Some h" and "ct_impl (ti_tx i) = Some w"
    and "ct_active (ti_tx i)" and "ct_has_state (ti_tx i)"
    and "px_fail P tr (px_exec w sql []) = Some x" and "is_connection_error (translate_pqxx_exceptions P x)"
    and "\<not> dbp_shutdown p"
  shows "case tx_exec P tr t sql of (tr1, t1, r) \<Rightarrow>
    (case tx_destroy P tr1 p t1 of (tr2, p2) \<Rightarrow>
       r = Inl (translate_pqxx_exceptions P x) \<and>
       tr2 = tr @ [px_exec w sql [], px_disconnect h, px_end w] \<and> dbp_connections p2 = dbp_connections p)"
  using assms
  by (simp add: tx_exec_def tx_query_def ct_exec_def ct_ensure_active_def px_run_def tx_mark_broken_def
      conn_close_def tx_destroy_def ct_rollback_def ct_finish_def tx_impl_destroy_def ph_destroy_def
      ti_handle_def ph_valid_def return_connection_def cs_is_open_def destroy_connection_def Let_def)

definition sample_tx :: transaction where
  "sample_tx = \<lparr>t_impl = Some \<lparr>ti_cs = \<lparr>cs_connection = Some 0, cs_cfg = sample_con, cs_transaction_active = True\<rparr>,
     ti_broken = False, ti_tx = \<lparr>ct_has_state = True, ct_impl = Some 1, ct_active = True\<rparr>,
     ti_next_savepoint_id = 0\<rparr>, t_isoLevel = serializable\<rparr>"

theorem broken_connection_dies_before_work_witness:
  "let P = sample_driver (\<lambda>tr c. Some px_broken_connection);
       (tr1, t1, r) = tx_exec P [sample_connect, px_begin 0] sample_tx ''Q'';
       (tr2, p2) = tx_destroy P tr1 (ds_pool (one_slot_sys [] [] [] 0 0)) t1
   in tr2 = [sample_connect, px_begin 0, px_exec 1 ''Q'' [], px_disconnect 0, px_end 1]"
proof -
  let ?P = "sample_driver (\<lambda>tr c. Some px_broken_connection)"
  let ?i = "\<lparr>ti_cs = \<lparr>cs_connection = Some 0, cs_cfg = sample_con, cs_transaction_active = True\<rparr>,
     ti_broken = False, ti_tx = \<lparr>ct_has_state = True, ct_impl = Some 1, ct_active = True\<rparr>,
     ti_next_savepoint_id = 0\<rparr>"
  have err: "is_connection_error (translate_pqxx_exceptions ?P px_broken_connection)"
    by (simp add: is_connection_error_def translate_pqxx_exceptions_def db_code_def Let_def)
  show ?thesis
    using broken_connection_dies_before_work [of sample_tx ?i 0 1 ?P "[sample_connect, px_begin 0]" "''Q''"
        px_broken_connection "ds_pool (one_slot_sys [] [] [] 0 0)"] err
    by (auto simp: sample_tx_def one_slot_sys_def Let_def split: prod.splits)
qed



end
