(* ===== verification/Db_Result.thy ===== *)
theory Db_Result
  imports Db_Core
begin

text \<open>
  Query results (\<^verbatim>\<open>db/core/Result.hpp\<close>, \<^verbatim>\<open>db/core/Result.cpp\<close>).  A \<open>Result\<close>, a \<open>Row\<close> and a \<open>Field\<close> share
  one driver result through a \<open>shared_ptr\<close>; a null pointer is \<open>None\<close>.  The driver's result object is a
  parameter with the functions the code calls on it.
\<close>

section \<open>The driver's result\<close>

text \<open>\<open>rv_column_number\<close> and the conversions answer with the message of the exception they throw or with a
  value.  Addressing a row or column outside the result is undefined in the driver and never evaluated
  here.\<close>

record 'v pqxx_result =
  rv_size :: nat
  rv_columns :: nat
  rv_column_number :: "string \<Rightarrow> string + nat"
  rv_is_null :: "nat \<Rightarrow> nat \<Rightarrow> bool"
  rv_name :: "nat \<Rightarrow> nat \<Rightarrow> string"
  rv_view :: "nat \<Rightarrow> nat \<Rightarrow> string"
  rv_as_int64 :: "nat \<Rightarrow> nat \<Rightarrow> string + 64 word"
  rv_as_double :: "nat \<Rightarrow> nat \<Rightarrow> string + 'v"
  rv_as_string :: "nat \<Rightarrow> nat \<Rightarrow> string + string"
  rv_as_bool :: "nat \<Rightarrow> nat \<Rightarrow> string + bool"

section \<open>Result, Row and Field\<close>

record 'v db_result =
  res_state :: "'v pqxx_result option"

record 'v db_row =
  row_state :: "'v pqxx_result option"
  row_index :: nat

record 'v db_field =
  fld_state :: "'v pqxx_result option"
  fld_row :: nat
  fld_column :: nat

definition throw_invalid_state :: "string \<Rightarrow> ('x db_exn, 'a) result" where
  "throw_invalid_state object_name = Inl (QueryError (''Invalid '' @ object_name @ '' state''))"

text \<open>Every accessor first tests the shared pointer.\<close>

definition with_state ::
  "string \<Rightarrow> 'v pqxx_result option \<Rightarrow> ('v pqxx_result \<Rightarrow> ('x db_exn, 'a) result) \<Rightarrow> ('x db_exn, 'a) result" where
  "with_state object_name st f = (case st of None \<Rightarrow> throw_invalid_state object_name | Some r \<Rightarrow> f r)"

definition convert_field :: "string + 'a \<Rightarrow> string \<Rightarrow> ('x db_exn, 'a) result" where
  "convert_field answer target_type =
     (case answer of
        Inl what \<Rightarrow> Inl (MappingError (''Failed to convert field to '' @ target_type @ '': '' @ what))
      | Inr v \<Rightarrow> Inr v)"

definition make_from_pqxx_result :: "'v pqxx_result \<Rightarrow> 'v db_result" where
  "make_from_pqxx_result r = \<lparr>res_state = Some r\<rparr>"

definition field_is_null :: "'v db_field \<Rightarrow> ('x db_exn, bool) result" where
  "field_is_null f = with_state ''field'' (fld_state f) (\<lambda>r. Inr (rv_is_null r (fld_row f) (fld_column f)))"

definition field_name :: "'v db_field \<Rightarrow> ('x db_exn, string) result" where
  "field_name f = with_state ''field'' (fld_state f) (\<lambda>r. Inr (rv_name r (fld_row f) (fld_column f)))"

definition field_view :: "'v db_field \<Rightarrow> ('x db_exn, string) result" where
  "field_view f = with_state ''field'' (fld_state f) (\<lambda>r. Inr (rv_view r (fld_row f) (fld_column f)))"

definition field_as_int64 :: "'v db_field \<Rightarrow> ('x db_exn, 64 word) result" where
  "field_as_int64 f = with_state ''field'' (fld_state f)
     (\<lambda>r. convert_field (rv_as_int64 r (fld_row f) (fld_column f)) ''int64_t'')"

definition field_as_double :: "'v db_field \<Rightarrow> ('x db_exn, 'v) result" where
  "field_as_double f = with_state ''field'' (fld_state f)
     (\<lambda>r. convert_field (rv_as_double r (fld_row f) (fld_column f)) ''double'')"

definition field_as_string :: "'v db_field \<Rightarrow> ('x db_exn, string) result" where
  "field_as_string f = with_state ''field'' (fld_state f)
     (\<lambda>r. convert_field (rv_as_string r (fld_row f) (fld_column f)) ''string'')"

definition field_as_bool :: "'v db_field \<Rightarrow> ('x db_exn, bool) result" where
  "field_as_bool f = with_state ''field'' (fld_state f)
     (\<lambda>r. convert_field (rv_as_bool r (fld_row f) (fld_column f)) ''bool'')"

definition row_size :: "'v db_row \<Rightarrow> ('x db_exn, nat) result" where
  "row_size w = with_state ''row'' (row_state w) (\<lambda>r. Inr (rv_columns r))"

definition row_contains :: "'v db_row \<Rightarrow> string \<Rightarrow> ('x db_exn, bool) result" where
  "row_contains w column = with_state ''row'' (row_state w)
     (\<lambda>r. Inr (case rv_column_number r column of Inl _ \<Rightarrow> False | Inr _ \<Rightarrow> True))"

definition row_at :: "'v db_row \<Rightarrow> nat \<Rightarrow> ('x db_exn, 'v db_field) result" where
  "row_at w index = with_state ''row'' (row_state w)
     (\<lambda>r. if rv_columns r \<le> index then Inl (OutOfRange ''Column index out of bounds'')
          else Inr \<lparr>fld_state = row_state w, fld_row = row_index w, fld_column = index\<rparr>)"

definition row_named :: "'v db_row \<Rightarrow> string \<Rightarrow> ('x db_exn, 'v db_field) result" where
  "row_named w column = with_state ''row'' (row_state w)
     (\<lambda>r. case rv_column_number r column of
            Inl what \<Rightarrow> Inl (QueryError (''Column not found: '' @ column @ '': '' @ what))
          | Inr c \<Rightarrow> Inr \<lparr>fld_state = row_state w, fld_row = row_index w, fld_column = c\<rparr>)"

definition result_valid :: "'v db_result \<Rightarrow> bool" where
  "result_valid s \<longleftrightarrow> res_state s \<noteq> None"

definition result_size :: "'v db_result \<Rightarrow> ('x db_exn, nat) result" where
  "result_size s = with_state ''result'' (res_state s) (\<lambda>r. Inr (rv_size r))"

definition result_empty :: "'v db_result \<Rightarrow> ('x db_exn, bool) result" where
  "result_empty s = with_state ''result'' (res_state s) (\<lambda>r. Inr (rv_size r = 0))"

definition result_at :: "'v db_result \<Rightarrow> nat \<Rightarrow> ('x db_exn, 'v db_row) result" where
  "result_at s index = with_state ''result'' (res_state s)
     (\<lambda>r. if index \<ge> rv_size r then Inl (OutOfRange ''Row index out of bounds'')
          else Inr \<lparr>row_state = res_state s, row_index = index\<rparr>)"

text \<open>Copying shares the state; moving leaves a null pointer behind.\<close>

definition result_copy :: "'v db_result \<Rightarrow> 'v db_result" where
  "result_copy rhs = \<lparr>res_state = res_state rhs\<rparr>"

definition result_move :: "'v db_result \<Rightarrow> 'v db_result \<times> 'v db_result" where
  "result_move rhs = (\<lparr>res_state = res_state rhs\<rparr>, \<lparr>res_state = None\<rparr>)"

section \<open>Properties\<close>

text \<open>The driver's documented behaviour: column numbers it hands out lie inside the result.\<close>

definition columns_ok :: "'v pqxx_result \<Rightarrow> bool" where
  "columns_ok r \<longleftrightarrow> (\<forall>c n. rv_column_number r c = Inr n \<longrightarrow> n < rv_columns r)"

text \<open>C34: A field reached through a result always addresses a cell of that result: the row index is below
  its size and the column below its number of columns, whether the column was given by index or by
  name; every index outside throws \<open>out_of_range\<close>, and \<open>contains\<close> says exactly whether access by name
  succeeds.  The only fact used of the driver is that its column numbers are columns of the result.\<close>

theorem result_access_in_bounds:
  assumes "columns_ok r" and "s = make_from_pqxx_result r" and "result_at s i = Inr w"
  shows "i < rv_size r \<and> (\<forall>j. row_at w j = Inl (OutOfRange ''Column index out of bounds'') \<longleftrightarrow> rv_columns r \<le> j) \<and>
    (\<forall>j f. row_at w j = Inr f \<longrightarrow> fld_state f = Some r \<and> fld_row f < rv_size r \<and> fld_column f = j \<and> j < rv_columns r) \<and>
    (\<forall>c f. row_named w c = Inr f \<longrightarrow> fld_state f = Some r \<and> fld_row f < rv_size r \<and> fld_column f < rv_columns r) \<and>
    (\<forall>c. row_contains w c = Inr (\<exists>f. row_named w c = (Inr f :: ('x db_exn, 'v db_field) result)))"
  using assms
  by (auto simp: result_at_def make_from_pqxx_result_def with_state_def row_at_def row_named_def row_contains_def
      columns_ok_def split: if_splits sum.splits)

theorem result_access_in_bounds_witness:
  "let r = \<lparr>rv_size = 1, rv_columns = 2, rv_column_number = (\<lambda>c. if c = ''id'' then Inr 0 else Inl ''none''),
         rv_is_null = (\<lambda>_ _. False), rv_name = (\<lambda>_ _. []), rv_view = (\<lambda>_ _. []), rv_as_int64 = (\<lambda>_ _. Inr 7),
         rv_as_double = (\<lambda>_ _. Inr ()), rv_as_string = (\<lambda>_ _. Inr []), rv_as_bool = (\<lambda>_ _. Inr True)\<rparr>;
       w = \<lparr>row_state = Some r, row_index = 0\<rparr>
   in columns_ok r \<and> (result_at (make_from_pqxx_result r) 0 :: (unit db_exn, unit db_row) result) = Inr w \<and>
      (row_contains w ''id'' :: (unit db_exn, bool) result) = Inr True"
proof -
  let ?r = "\<lparr>rv_size = 1, rv_columns = 2, rv_column_number = (\<lambda>c. if c = ''id'' then Inr 0 else Inl ''none''),
         rv_is_null = (\<lambda>_ _. False), rv_name = (\<lambda>_ _. []), rv_view = (\<lambda>_ _. []), rv_as_int64 = (\<lambda>_ _. Inr 7),
         rv_as_double = (\<lambda>_ _. Inr ()), rv_as_string = (\<lambda>_ _. Inr []), rv_as_bool = (\<lambda>_ _. Inr True)\<rparr>"
  let ?w = "\<lparr>row_state = Some ?r, row_index = 0\<rparr>"
  have c: "columns_ok ?r" by (simp add: columns_ok_def)
  have a: "(result_at (make_from_pqxx_result ?r) 0 :: (unit db_exn, unit db_row) result) = Inr ?w"
    by (simp add: result_at_def make_from_pqxx_result_def with_state_def)
  have "(row_contains ?w ''id'' :: (unit db_exn, bool) result) =
      Inr (\<exists>f. row_named ?w ''id'' = (Inr f :: (unit db_exn, unit db_field) result))"
    using result_access_in_bounds [OF c refl a] by blast
  with c a show ?thesis by (simp add: row_named_def with_state_def Let_def)
qed

end
