(* ===== verification/Json_Value.thy ===== *)
theory Json_Value
  imports Rtl_Prelude "HOL-Library.List_Lexorder" "HOL-Library.Char_ord"
begin

text \<open>
  JSON documents as \<^verbatim>\<open>nlohmann::json\<close> keeps them: a tagged union whose numbers are signed, unsigned or
  floating-point 64-bit values and whose objects are maps ordered by key (\<open>std::map\<close>), with the accessors
  the sources call.  Parsing and printing of text are parameters of the functions that use them.  The two
  helper functions of \<^verbatim>\<open>json/JsonFunctions.cpp\<close> are at the end.
\<close>

section \<open>Values\<close>

datatype json =
    JNull
  | JBool bool
  | JInt "64 word"
  | JUnsigned "64 word"
  | JFloat "64 word"
  | JString string
  | JArray "json list"
  | JObject "(string \<times> json) list"

text \<open>Lookup and insertion in an object, kept sorted by key.\<close>

definition obj_find :: "string \<Rightarrow> (string \<times> 'v) list \<Rightarrow> 'v option" where
  "obj_find k ms = map_of ms k"

fun obj_set :: "string \<Rightarrow> 'v \<Rightarrow> (string \<times> 'v) list \<Rightarrow> (string \<times> 'v) list" where
  "obj_set k v [] = [(k, v)]"
| "obj_set k v ((k', v') # ms) =
     (if k = k' then (k, v) # ms
      else if k < k' then (k, v) # (k', v') # ms
      else (k', v') # obj_set k v ms)"

lemma obj_find_Nil [simp]: "obj_find k [] = None"
  by (simp add: obj_find_def)

lemma obj_find_set [simp]: "obj_find k (obj_set k' v ms) = (if k = k' then Some v else obj_find k ms)"
  by (induction ms) (auto simp: obj_find_def)

text \<open>The objects that occur have strictly increasing keys.\<close>

definition obj_ok :: "(string \<times> 'v) list \<Rightarrow> bool" where
  "obj_ok ms \<longleftrightarrow> sorted_wrt (\<lambda>a b. fst a < fst b) ms"

lemma fst_obj_set: "fst ` set (obj_set k v ms) = insert k (fst ` set ms)"
  by (induction k v ms rule: obj_set.induct) auto

lemma obj_set_ok: "obj_ok ms \<Longrightarrow> obj_ok (obj_set k v ms)"
proof (induction ms)
  case (Cons m ms)
  obtain k' v' where m: "m = (k', v')" by fastforce
  show ?case
  proof (cases "k = k' \<or> k < k'")
    case True
    then show ?thesis using Cons.prems m by (auto simp: obj_ok_def)
  next
    case False
    have "\<forall>b \<in> set (obj_set k v ms). k' < fst b"
    proof
      fix b assume "b \<in> set (obj_set k v ms)"
      then have "fst b \<in> insert k (fst ` set ms)" using fst_obj_set [of k v ms] by blast
      then show "k' < fst b" using Cons.prems m False by (auto simp: obj_ok_def)
    qed
    with Cons m False show ?thesis by (auto simp: obj_ok_def)
  qed
qed (simp add: obj_ok_def)

section \<open>Accessors\<close>

definition json_find :: "string \<Rightarrow> json \<Rightarrow> json option" where
  "json_find k j = (case j of JObject ms \<Rightarrow> obj_find k ms | _ \<Rightarrow> None)"

definition json_contains :: "json \<Rightarrow> string \<Rightarrow> bool" where
  "json_contains j k \<longleftrightarrow> json_find k j \<noteq> None"

definition is_object :: "json \<Rightarrow> bool" where
  "is_object j = (case j of JObject _ \<Rightarrow> True | _ \<Rightarrow> False)"

text \<open>\<open>is_number_integer\<close> holds for both integer kinds; \<open>get\<close> converts as \<open>static_cast\<close> does.\<close>

definition get_integer :: "json \<Rightarrow> 64 word option" where
  "get_integer j = (case j of JInt i \<Rightarrow> Some i | JUnsigned u \<Rightarrow> Some u | _ \<Rightarrow> None)"

definition to_int32 :: "64 word \<Rightarrow> 32 word" where
  "to_int32 w = ucast w"

definition get_unsigned :: "json \<Rightarrow> 64 word option" where
  "get_unsigned j = (case j of JUnsigned u \<Rightarrow> Some u | _ \<Rightarrow> None)"

definition get_string :: "json \<Rightarrow> string option" where
  "get_string j = (case j of JString s \<Rightarrow> Some s | _ \<Rightarrow> None)"

definition get_bool :: "json \<Rightarrow> bool option" where
  "get_bool j = (case j of JBool b \<Rightarrow> Some b | _ \<Rightarrow> None)"

text \<open>An object from an initializer list.\<close>

definition json_object :: "(string \<times> json) list \<Rightarrow> json" where
  "json_object ms = JObject (fold (\<lambda>(k, v) acc. obj_set k v acc) ms [])"

text \<open>\<open>j[k] = v\<close> on a null or object value.\<close>

definition json_assign :: "json \<Rightarrow> string \<Rightarrow> json \<Rightarrow> json" where
  "json_assign j k v = (case j of JObject ms \<Rightarrow> JObject (obj_set k v ms) | _ \<Rightarrow> JObject [(k, v)])"

lemma json_find_simps [simp]:
  "json_find k (JObject ms) = obj_find k ms"
  "json_find k (json_assign (JObject ms) k' v) = (if k = k' then Some v else obj_find k ms)"
  by (simp_all add: json_find_def json_assign_def)

lemma is_object_simps [simp]: "is_object (JObject ms)" "\<not> is_object JNull"
  by (simp_all add: is_object_def)

section \<open>JsonFunctions\<close>

text \<open>\<open>checkJson\<close>, and \<open>getJsonFromFile\<close> on the text of the file (\<open>None\<close> when it cannot be opened); \<open>parse\<close>
  is the parser, which throws \<open>Inl e\<close>.\<close>

fun checkJson :: "json \<Rightarrow> string list \<Rightarrow> bool" where
  "checkJson doc [] = True"
| "checkJson doc (f # fs) = (if \<not> json_contains doc f then False else checkJson doc fs)"

definition json_empty :: "json \<Rightarrow> bool" where
  "json_empty j = (case j of JNull \<Rightarrow> True | JArray xs \<Rightarrow> xs = [] | JObject ms \<Rightarrow> ms = [] | _ \<Rightarrow> False)"

definition getJsonFromFile :: "(string \<Rightarrow> 'e + json) \<Rightarrow> string option \<Rightarrow> ('e, json option) result" where
  "getJsonFromFile parse file =
     (case file of
        None \<Rightarrow> Inr None
      | Some text \<Rightarrow>
         (case parse text of
            Inl e \<Rightarrow> Inl e
          | Inr doc \<Rightarrow> if json_empty doc then Inr None else Inr (Some doc)))"

lemma checkJson_iff: "checkJson doc fs \<longleftrightarrow> (\<forall>f \<in> set fs. json_contains doc f)"
  by (induction fs) auto

end
