(* ===== verification/Ws_Protocol.thy ===== *)
theory Ws_Protocol
  imports Json_Value
begin

text \<open>
  The message envelope and the file transfer of \<^verbatim>\<open>ws/server/WsProtocol.hpp\<close>: messages to JSON and back,
  checksums, splitting a file into chunk messages and reassembling it.  The contents of files, the JSON
  parser and zlib's \<open>crc32\<close> are arguments; sizes and indices are 64-bit words where the code computes with
  them.
\<close>

section \<open>Messages\<close>

record json_message =
  jm_id :: string
  jm_correlation_id :: string
  jm_kind :: string
  jm_ts :: string
  jm_room :: string
  jm_type :: string
  jm_sender :: string
  jm_version :: string
  jm_error :: "string option"
  jm_payload :: json
  jm_meta :: json

definition new_message :: json_message where
  "new_message = \<lparr>jm_id = [], jm_correlation_id = [], jm_kind = ''event'', jm_ts = [], jm_room = [],
     jm_type = [], jm_sender = [], jm_version = ''1'', jm_error = None, jm_payload = JObject [],
     jm_meta = JObject []\<rparr>"

definition message_to_json :: "json_message \<Rightarrow> json" where
  "message_to_json m =
     (let j = JNull;
          j = json_assign j ''id'' (JString (jm_id m));
          j = json_assign j ''correlation_id'' (JString (jm_correlation_id m));
          j = json_assign j ''kind'' (JString (jm_kind m));
          j = json_assign j ''ts'' (JString (jm_ts m));
          j = json_assign j ''room'' (JString (jm_room m));
          j = json_assign j ''type'' (JString (jm_type m));
          j = json_assign j ''sender'' (JString (jm_sender m));
          j = json_assign j ''version'' (JString (jm_version m));
          j = (case jm_error m of None \<Rightarrow> j | Some e \<Rightarrow> json_assign j ''error'' (JString e));
          j = json_assign j ''payload'' (jm_payload m);
          j = json_assign j ''meta'' (jm_meta m)
      in j)"

definition set_payload :: "json_message \<Rightarrow> json \<Rightarrow> json_message" where
  "set_payload m p = m\<lparr>jm_payload := p\<rparr>"

definition get_payload :: "json_message \<Rightarrow> json option" where
  "get_payload m = Some (jm_payload m)"

text \<open>A missing field keeps the default, a field of another type rejects the message.\<close>

definition read_string_field :: "json \<Rightarrow> string \<Rightarrow> string \<Rightarrow> string option" where
  "read_string_field j key target =
     (case json_find key j of None \<Rightarrow> Some target | Some v \<Rightarrow> get_string v)"

definition read_error_field :: "json \<Rightarrow> string option option" where
  "read_error_field j =
     (case json_find ''error'' j of
        None \<Rightarrow> Some None
      | Some JNull \<Rightarrow> Some None
      | Some (JString s) \<Rightarrow> Some (Some s)
      | Some _ \<Rightarrow> None)"

definition read_any_field :: "json \<Rightarrow> string \<Rightarrow> json" where
  "read_any_field j key = (case json_find key j of None \<Rightarrow> JObject [] | Some v \<Rightarrow> v)"

definition json_to_message :: "json \<Rightarrow> json_message option" where
  "json_to_message j =
     (if \<not> is_object j then None
      else case (read_string_field j ''id'' [], read_string_field j ''correlation_id'' [],
                 read_string_field j ''kind'' ''event'', read_string_field j ''ts'' [],
                 read_string_field j ''room'' [], read_string_field j ''type'' [],
                 read_string_field j ''sender'' [], read_string_field j ''version'' ''1'') of
          (Some i, Some c, Some k, Some t, Some r, Some ty, Some s, Some v) \<Rightarrow>
            (case read_error_field j of
               None \<Rightarrow> None
             | Some e \<Rightarrow> Some \<lparr>jm_id = i, jm_correlation_id = c, jm_kind = k, jm_ts = t, jm_room = r,
                 jm_type = ty, jm_sender = s, jm_version = v, jm_error = e,
                 jm_payload = read_any_field j ''payload'', jm_meta = read_any_field j ''meta''\<rparr>)
        | _ \<Rightarrow> None)"

text \<open>\<open>json::parse(text, nullptr, false)\<close> yields a discarded value, here \<open>None\<close>, instead of throwing.\<close>

definition string_to_message :: "(string \<Rightarrow> json option) \<Rightarrow> string \<Rightarrow> json_message option" where
  "string_to_message parse text =
     (case parse text of None \<Rightarrow> None | Some j \<Rightarrow> json_to_message j)"

section \<open>Checksums\<close>

text \<open>\<open>crc\<close> is zlib's \<open>crc32\<close>; the byte count is narrowed to the 32-bit \<open>uInt\<close>.\<close>

definition crc32_of_bytes :: "(32 word \<Rightarrow> byte list \<Rightarrow> 32 word) \<Rightarrow> byte list \<Rightarrow> 32 word" where
  "crc32_of_bytes crc data = crc 0 (take (length data mod 2 ^ 32) data)"

text \<open>The read loop: a read that hits the end of the file ends it.\<close>

function crc_loop :: "(32 word \<Rightarrow> byte list \<Rightarrow> 32 word) \<Rightarrow> 32 word \<Rightarrow> byte list \<Rightarrow> 32 word" where
  "crc_loop crc acc data =
     (let buffer = take 65536 data;
          acc' = (if buffer \<noteq> [] then crc acc buffer else acc)
      in if length buffer < 65536 then acc' else crc_loop crc acc' (drop 65536 data))"
  by auto
termination
  by (relation "measure (\<lambda>(crc, acc, data). length data)") (auto simp: Let_def)

declare crc_loop.simps [simp del]

definition crc32_of_file ::
  "(32 word \<Rightarrow> byte list \<Rightarrow> 32 word) \<Rightarrow> byte list option \<Rightarrow> (string, 32 word) result" where
  "crc32_of_file crc file =
     (case file of None \<Rightarrow> Inl ''Cannot open file'' | Some data \<Rightarrow> Inr (crc_loop crc (crc 0 []) data))"

section \<open>From a file to chunks\<close>

definition read_binary_file :: "byte list option \<Rightarrow> byte list" where
  "read_binary_file file = (case file of None \<Rightarrow> [] | Some data \<Rightarrow> data)"

definition chunk_start_message :: "string \<Rightarrow> string \<Rightarrow> size_t \<Rightarrow> size_t \<Rightarrow> size_t \<Rightarrow> json_message" where
  "chunk_start_message transfer_id file_name size_of_file total_chunks chunk_size =
     new_message\<lparr>jm_id := transfer_id @ '':start'', jm_correlation_id := transfer_id, jm_type := ''chunk_start'',
       jm_meta := json_object [(''transfer_id'', JString transfer_id), (''file_name'', JString file_name),
         (''total_bytes'', JUnsigned size_of_file), (''total_chunks'', JUnsigned total_chunks),
         (''chunk_size'', JUnsigned chunk_size)],
       jm_payload := JObject []\<rparr>"

definition chunk_data_message ::
  "string \<Rightarrow> size_t \<Rightarrow> byte list \<Rightarrow> size_t \<Rightarrow> nat \<Rightarrow> json_message" where
  "chunk_data_message transfer_id total_chunks binaryData chunk_size chunk_index =
     (let offset = of_nat chunk_index * chunk_size;
          current_chunk_size = min chunk_size (of_nat (length binaryData) - offset)
      in new_message\<lparr>jm_id := transfer_id @ '':'' @ nat_dec chunk_index, jm_correlation_id := transfer_id,
           jm_type := ''chunk_data'',
           jm_meta := json_object [(''transfer_id'', JString transfer_id),
             (''chunk_index'', JUnsigned (of_nat chunk_index)), (''total_chunks'', JUnsigned total_chunks),
             (''chunk_bytes'', JUnsigned current_chunk_size)],
           jm_payload := JArray (map (\<lambda>b. JUnsigned (ucast b)) 
             (take (unat current_chunk_size) (drop (unat offset) binaryData)))\<rparr>)"

definition chunk_end_message :: "string \<Rightarrow> size_t \<Rightarrow> size_t \<Rightarrow> json_message" where
  "chunk_end_message transfer_id size_of_file total_chunks =
     new_message\<lparr>jm_id := transfer_id @ '':end'', jm_correlation_id := transfer_id, jm_type := ''chunk_end'',
       jm_meta := json_object [(''transfer_id'', JString transfer_id), (''total_bytes'', JUnsigned size_of_file),
         (''total_chunks'', JUnsigned total_chunks)],
       jm_payload := JObject []\<rparr>"

text \<open>The number of chunks, computed in \<open>size_t\<close>.\<close>

definition chunk_count :: "size_t \<Rightarrow> size_t \<Rightarrow> size_t" where
  "chunk_count size_of_file chunk_size = (size_of_file + chunk_size - 1) div chunk_size"

definition blob_to_chunk ::
  "string \<Rightarrow> byte list option \<Rightarrow> size_t \<Rightarrow> string \<Rightarrow> json_message list" where
  "blob_to_chunk file_name file chunk_size naming =
     (let binaryData = read_binary_file file in
      if chunk_size = 0 \<or> binaryData = [] then []
      else let size_of_file = of_nat (length binaryData);
               transfer_id = (if naming = [] then file_name else naming);
               total_chunks = chunk_count size_of_file chunk_size
           in chunk_start_message transfer_id file_name size_of_file total_chunks chunk_size #
              map (chunk_data_message transfer_id total_chunks binaryData chunk_size) [0..<unat total_chunks] @
              [chunk_end_message transfer_id size_of_file total_chunks])"

section \<open>From chunks to a file\<close>

definition read_size :: "json \<Rightarrow> string \<Rightarrow> size_t option" where
  "read_size obj key = (case json_find key obj of None \<Rightarrow> None | Some v \<Rightarrow> get_unsigned v)"

definition read_string :: "json \<Rightarrow> string \<Rightarrow> string option" where
  "read_string obj key = (case json_find key obj of None \<Rightarrow> None | Some v \<Rightarrow> get_string v)"

text \<open>One payload element: \<open>get<unsigned int>()\<close> narrows to 32 bits before the range test.\<close>

definition payload_byte :: "json \<Rightarrow> byte option" where
  "payload_byte item =
     (case get_unsigned item of
        None \<Rightarrow> None
      | Some u \<Rightarrow> (let value = (ucast u :: 32 word) in if value > 0xFF then None else Some (ucast value)))"

fun payload_bytes :: "json list \<Rightarrow> byte list option" where
  "payload_bytes [] = Some []"
| "payload_bytes (item # items) =
     (case payload_byte item of
        None \<Rightarrow> None
      | Some b \<Rightarrow> (case payload_bytes items of None \<Rightarrow> None | Some bs \<Rightarrow> Some (b # bs)))"

type_synonym chunk_state = "byte list list \<times> bool list \<times> size_t"

text \<open>The loop body.\<close>

definition take_chunk :: "string \<Rightarrow> size_t \<Rightarrow> json_message \<Rightarrow> chunk_state \<Rightarrow> chunk_state option" where
  "take_chunk transfer_id total_chunks chunk st =
     (case st of (ordered_chunks, seen, accumulated_bytes) \<Rightarrow>
        if jm_type chunk \<noteq> ''chunk_data'' \<or> \<not> is_object (jm_meta chunk) then None
        else case jm_payload chunk of
          JArray items \<Rightarrow>
           (case (read_string (jm_meta chunk) ''transfer_id'', read_size (jm_meta chunk) ''chunk_index'',
                  read_size (jm_meta chunk) ''total_chunks'', read_size (jm_meta chunk) ''chunk_bytes'') of
              (Some chunk_transfer_id, Some chunk_index, Some chunk_cnt, Some chunk_bytes) \<Rightarrow>
                if chunk_transfer_id \<noteq> transfer_id \<or> chunk_cnt \<noteq> total_chunks \<or> chunk_index \<ge> total_chunks \<or>
                   seen ! unat chunk_index then None
                else if of_nat (length items) \<noteq> chunk_bytes then None
                else (case payload_bytes items of
                    None \<Rightarrow> None
                  | Some target \<Rightarrow>
                      Some (ordered_chunks[unat chunk_index := target], seen[unat chunk_index := True],
                        accumulated_bytes + of_nat (length target)))
            | _ \<Rightarrow> None)
        | _ \<Rightarrow> None)"

fun take_chunks :: "string \<Rightarrow> size_t \<Rightarrow> json_message list \<Rightarrow> chunk_state \<Rightarrow> chunk_state option" where
  "take_chunks transfer_id total_chunks [] st = Some st"
| "take_chunks transfer_id total_chunks (c # cs) st =
     (case take_chunk transfer_id total_chunks c st of
        None \<Rightarrow> None
      | Some st' \<Rightarrow> take_chunks transfer_id total_chunks cs st')"

text \<open>The tests on the first and the last message: the transfer id, the number of chunks and of bytes.\<close>

definition transfer_header :: "json_message list \<Rightarrow> (string \<times> size_t \<times> size_t) option" where
  "transfer_header chunks =
     (if length chunks < 3 then None
      else let start_message = hd chunks; end_message = last chunks in
        if jm_type start_message \<noteq> ''chunk_start'' \<or> jm_type end_message \<noteq> ''chunk_end'' then None
        else if \<not> is_object (jm_meta start_message) \<or> \<not> is_object (jm_meta end_message) then None
        else case (read_string (jm_meta start_message) ''transfer_id'', read_size (jm_meta start_message) ''total_chunks'',
                   read_size (jm_meta start_message) ''total_bytes'', read_string (jm_meta end_message) ''transfer_id'',
                   read_size (jm_meta end_message) ''total_chunks'', read_size (jm_meta end_message) ''total_bytes'') of
            (Some tid, Some n, Some b, Some tid', Some n', Some b') \<Rightarrow>
              if tid \<noteq> tid' \<or> n \<noteq> n' \<or> b \<noteq> b' then None
              else if of_nat (length chunks) \<noteq> n + 2 then None
              else Some (tid, n, b)
          | _ \<Rightarrow> None)"

text \<open>What is written to the output file; \<open>opens\<close> says whether it can be opened and \<open>writes\<close> whether a write
  of the given bytes succeeds.\<close>

fun write_chunks :: "(byte list \<Rightarrow> bool) \<Rightarrow> byte list list \<Rightarrow> byte list \<times> bool" where
  "write_chunks writes [] = ([], True)"
| "write_chunks writes (c # cs) =
     (if c = [] then write_chunks writes cs
      else if \<not> writes c then ([], False)
      else (case write_chunks writes cs of (out, ok) \<Rightarrow> (c @ out, ok)))"

definition chunks_to_blob ::
  "bool \<Rightarrow> (byte list \<Rightarrow> bool) \<Rightarrow> json_message list \<Rightarrow> byte list option \<times> bool" where
  "chunks_to_blob opens writes chunks =
     (case transfer_header chunks of
        None \<Rightarrow> (None, False)
      | Some (tid, n, total_bytes) \<Rightarrow>
         (case take_chunks tid n (butlast (tl chunks)) (replicate (unat n) [], replicate (unat n) False, 0) of
            None \<Rightarrow> (None, False)
          | Some (ordered, seen, accumulated) \<Rightarrow>
              if \<not> list_all id seen then (None, False)
              else if accumulated \<noteq> total_bytes then (None, False)
              else if \<not> opens then (None, False)
              else (case write_chunks writes ordered of (out, ok) \<Rightarrow> (Some out, ok))))"


section \<open>Messages survive the wire\<close>

lemma json_assign_simps [simp]:
  "json_assign JNull k v = JObject [(k, v)]"
  "json_assign (JObject ms) k v = JObject (obj_set k v ms)"
  by (simp_all add: json_assign_def)

lemma get_simps [simp]:
  "get_string (JString s) = Some s" "get_unsigned (JUnsigned u) = Some u"
  by (simp_all add: get_string_def get_unsigned_def)

lemma get_string_Some: "get_string v \<noteq> None \<longleftrightarrow> (\<exists>s. v = JString s)"
  by (cases v) (auto simp: get_string_def)

lemma read_string_field_Some:
  "read_string_field (JObject ms) k d \<noteq> None \<longleftrightarrow>
     (case obj_find k ms of None \<Rightarrow> True | Some v \<Rightarrow> \<exists>s. v = JString s)"
  using get_string_Some by (auto simp: read_string_field_def split: option.split)

lemma read_error_field_Some:
  "read_error_field (JObject ms) \<noteq> None \<longleftrightarrow>
     (case obj_find ''error'' ms of None \<Rightarrow> True | Some v \<Rightarrow> v = JNull \<or> (\<exists>s. v = JString s))"
  by (auto simp: read_error_field_def split: option.split json.split)

lemma json_to_message_Some:
  "json_to_message j \<noteq> None \<longleftrightarrow> is_object j \<and>
     list_all (\<lambda>(k, d). read_string_field j k d \<noteq> None)
       [(''id'', []), (''correlation_id'', []), (''kind'', ''event''), (''ts'', []), (''room'', []),
        (''type'', []), (''sender'', []), (''version'', ''1'')] \<and> read_error_field j \<noteq> None"
  by (simp add: json_to_message_def split: option.split)

lemma is_object_ex: "is_object j \<longleftrightarrow> (\<exists>ms. j = JObject ms)"
  by (cases j) (simp_all add: is_object_def)

lemma json_message_back: "json_to_message (message_to_json m) = Some m"
  by (cases m, cases "jm_error m")
    (simp_all add: message_to_json_def json_to_message_def read_string_field_def read_error_field_def
      read_any_field_def Let_def obj_find_def)

text \<open>C20: Converting a message to JSON and back gives the same message, whatever its fields, payload and
  metadata are; reading a text is total and succeeds exactly when the text parses to an object whose eight
  string fields are absent or strings and whose error is absent, null or a string.\<close>

theorem message_roundtrip:
  "json_to_message (message_to_json m) = Some m \<and>
   (string_to_message parse text \<noteq> None \<longleftrightarrow>
     (\<exists>ms. parse text = Some (JObject ms) \<and>
        list_all (\<lambda>k. case obj_find k ms of None \<Rightarrow> True | Some v \<Rightarrow> \<exists>s. v = JString s)
          [''id'', ''correlation_id'', ''kind'', ''ts'', ''room'', ''type'', ''sender'', ''version''] \<and>
        (case obj_find ''error'' ms of None \<Rightarrow> True | Some v \<Rightarrow> v = JNull \<or> (\<exists>s. v = JString s))))"
proof (cases "parse text")
  case None
  then show ?thesis by (simp add: string_to_message_def json_message_back)
next
  case (Some j)
  have "json_to_message j \<noteq> None \<longleftrightarrow>
     (\<exists>ms. j = JObject ms \<and>
        list_all (\<lambda>k. case obj_find k ms of None \<Rightarrow> True | Some v \<Rightarrow> \<exists>s. v = JString s)
          [''id'', ''correlation_id'', ''kind'', ''ts'', ''room'', ''type'', ''sender'', ''version''] \<and>
        (case obj_find ''error'' ms of None \<Rightarrow> True | Some v \<Rightarrow> v = JNull \<or> (\<exists>s. v = JString s)))"
    by (cases j) (simp_all only: json_to_message_Some is_object_ex list.pred_inject prod.case
      read_string_field_Some read_error_field_Some json.distinct json.inject simp_thms
      ex_simps HOL.simp_thms)
  with Some show ?thesis by (simp add: string_to_message_def json_message_back)
qed

section \<open>Checksums of files and of their bytes agree\<close>

lemma crc_loop_whole:
  assumes app: "\<And>a xs ys. crc (crc a xs) ys = crc a (xs @ ys)" and nil: "\<And>a. crc a [] = a"
  shows "crc_loop crc acc data = crc acc data"
proof (induction "length data" arbitrary: acc data rule: less_induct)
  case less
  show ?case
  proof (cases "length data < 65536")
    case True
    then show ?thesis by (subst crc_loop.simps) (simp add: nil)
  next
    case False
    then have "crc_loop crc acc data = crc_loop crc (crc acc (take 65536 data)) (drop 65536 data)"
      by (subst crc_loop.simps) auto
    also have "\<dots> = crc (crc acc (take 65536 data)) (drop 65536 data)"
      using less False by simp
    finally show ?thesis by (simp add: app)
  qed
qed

text \<open>C37: The checksum of a file, computed in buffers of 64 KiB, is the checksum of its bytes computed at
  once, for files below 4 GiB; \<open>crc\<close> stands for zlib's \<open>crc32\<close>, of which only the documented running-checksum
  law is used.\<close>

theorem crc_file_equals_bytes:
  assumes "\<And>a xs ys. crc (crc a xs) ys = crc a (xs @ ys)" and "\<And>a. crc a [] = a"
    and "length data < 2 ^ 32"
  shows "crc32_of_file crc (Some data) = Inr (crc32_of_bytes crc data)"
  using assms(3) by (simp add: crc32_of_file_def crc32_of_bytes_def crc_loop_whole [OF assms(1,2)] assms(2))

definition sum_crc :: "32 word \<Rightarrow> byte list \<Rightarrow> 32 word" where
  "sum_crc a xs = foldl (\<lambda>h b. 31 * h + ucast b) a xs"

lemma sum_crc_laws: "sum_crc (sum_crc a xs) ys = sum_crc a (xs @ ys)" "sum_crc a [] = a"
  by (simp_all add: sum_crc_def)

theorem crc_file_equals_bytes_witness:
  "crc32_of_file sum_crc (Some [1, 2, 255]) = Inr (crc32_of_bytes sum_crc [1, 2, 255]) \<and>
   crc32_of_bytes sum_crc [1, 2, 255] = 1278"
  using crc_file_equals_bytes [where crc = sum_crc and data = "[1, 2, 255]", OF sum_crc_laws]
  by (simp add: crc32_of_bytes_def sum_crc_def)

section \<open>Chunks of a file\<close>

definition piece :: "nat \<Rightarrow> byte list \<Rightarrow> nat \<Rightarrow> byte list" where
  "piece c data i = take c (drop (i * c) data)"

lemma concat_pieces: "concat (map (piece c data) [0..<m]) = take (m * c) data"
proof (induction m)
  case (Suc m)
  have "take (Suc m * c) data = take (m * c) data @ take c (drop (m * c) data)"
    using take_add [of "m * c" c data] by (simp add: add.commute)
  with Suc show ?case by (simp add: piece_def)
qed simp

lemma payload_byte_of_byte: "payload_byte (JUnsigned (ucast b)) = Some b"
proof -
  have e: "(ucast (ucast b :: 64 word) :: 32 word) = ucast b" by (rule bit_word_eqI) (auto simp: bit_simps)
  have "unat b < 2 ^ LENGTH(8)" by (rule unsigned_less)
  then have "unat (ucast b :: 32 word) \<le> 255" by (simp add: unsigned_ucast_eq take_bit_nat_def)
  moreover have "(ucast (ucast b :: 32 word) :: byte) = b" by (rule bit_word_eqI) (auto simp: bit_simps)
  ultimately show ?thesis
    by (simp add: payload_byte_def e Let_def word_less_nat_alt)
qed

lemma payload_bytes_of_bytes: "payload_bytes (map (\<lambda>b. JUnsigned (ucast b)) bs) = Some bs"
  by (induction bs) (simp_all add: payload_byte_of_byte)

lemma write_chunks_all: "write_chunks (\<lambda>_. True) cs = (concat cs, True)"
  by (induction cs) auto


lemma read_object [simp]:
  "read_size (JObject ms) k = (case obj_find k ms of None \<Rightarrow> None | Some v \<Rightarrow> get_unsigned v)"
  "read_string (JObject ms) k = (case obj_find k ms of None \<Rightarrow> None | Some v \<Rightarrow> get_string v)"
  by (simp_all add: read_size_def read_string_def)

lemma json_object_is [simp]: "is_object (json_object ms)"
  by (simp add: json_object_def)

lemma unat_times_nowrap: "i * unat (c :: size_t) < 18446744073709551616 \<Longrightarrow> unat (of_nat i * c) = i * unat c"
proof -
  assume "i * unat c < 18446744073709551616"
  moreover have "of_nat (i * unat c) = (of_nat i * c :: size_t)" by simp
  ultimately show ?thesis by (metis unat_of_nat_size)
qed

text \<open>A chunk message carries its piece of the file.\<close>

lemma take_chunk_data:
  assumes c: "0 < c" and len: "length data < 18446744073709551616" and i: "i * unat c \<le> length data"
    and n: "i < unat n" "unat n = length seen" "\<not> seen ! i"
  shows "take_chunk tid n (chunk_data_message tid n data c i) (ordered, seen, acc) =
     Some (ordered[i := piece (unat c) data i], seen[i := True], acc + of_nat (length (piece (unat c) data i)))"
proof -
  define cur where "cur = min c (of_nat (length data) - of_nat i * c)"
  have o: "unat (of_nat i * c) = i * unat c" using i len by (intro unat_times_nowrap) simp
  have l: "unat (of_nat (length data) :: size_t) = length data" by (rule unat_of_nat_size [OF len])
  have cur: "unat cur = min (unat c) (length data - i * unat c)"
    using i o l by (simp add: cur_def min_def word_le_nat_alt unat_sub_nowrap)
  have p: "take (unat cur) (drop (i * unat c) data) = piece (unat c) data i"
    by (simp add: cur piece_def min_def)
  have lp: "of_nat (length (piece (unat c) data i)) = cur"
  proof -
    have "length (piece (unat c) data i) = unat cur" by (simp add: cur piece_def)
    then show ?thesis by simp
  qed
  have i': "unat (of_nat i :: size_t) = i" using n(1) unat_size_bound [of n] by (intro unat_of_nat_size) linarith
  have "of_nat i < n" using n(1) i' by (simp add: word_less_nat_alt)
  then show ?thesis
    using n lp by (simp add: take_chunk_def chunk_data_message_def Let_def cur_def [symmetric] o p i'
        json_object_def obj_find_def payload_bytes_of_bytes not_le [symmetric])
qed


lemma take_chunks_data:
  assumes "0 < c" "length data < 18446744073709551616" "\<And>i. i \<in> set is \<Longrightarrow> i * unat c \<le> length data"
    and "\<And>i. i \<in> set is \<Longrightarrow> i < unat n \<and> \<not> seen ! i" "unat n = length seen" "distinct is"
    and "length ordered = unat n"
  shows "take_chunks tid n (map (chunk_data_message tid n data c) is) (ordered, seen, acc) =
     Some (map (\<lambda>i. if i \<in> set is then piece (unat c) data i else ordered ! i) [0..<unat n],
       map (\<lambda>i. i \<in> set is \<or> seen ! i) [0..<unat n],
       acc + of_nat (sum_list (map (\<lambda>i. length (piece (unat c) data i)) is)))"
  using assms
proof (induction "is" arbitrary: ordered seen acc)
  case Nil
  then show ?case by (auto intro: nth_equalityI)
next
  case (Cons i "is")
  have i: "i < unat n" "\<not> seen ! i" "i * unat c \<le> length data" using Cons.prems by auto
  let ?o = "ordered[i := piece (unat c) data i]" and ?s = "seen[i := True]"
  have "take_chunks tid n (map (chunk_data_message tid n data c) (i # is)) (ordered, seen, acc) =
      take_chunks tid n (map (chunk_data_message tid n data c) is)
        (?o, ?s, acc + of_nat (length (piece (unat c) data i)))"
    using take_chunk_data [OF Cons.prems(1,2) i(3) i(1) Cons.prems(5) i(2)] by simp
  also have "\<dots> = Some (map (\<lambda>k. if k \<in> set is then piece (unat c) data k else ?o ! k) [0..<unat n],
       map (\<lambda>k. k \<in> set is \<or> ?s ! k) [0..<unat n],
       acc + of_nat (length (piece (unat c) data i)) +
         of_nat (sum_list (map (\<lambda>i. length (piece (unat c) data i)) is)))"
    using Cons.prems by (intro Cons.IH) (auto simp: nth_list_update)
  also have "map (\<lambda>k. if k \<in> set is then piece (unat c) data k else ?o ! k) [0..<unat n] =
      map (\<lambda>k. if k \<in> set (i # is) then piece (unat c) data k else ordered ! k) [0..<unat n]"
    using i Cons.prems by (auto simp: nth_list_update)
  also have "map (\<lambda>k. k \<in> set is \<or> ?s ! k) [0..<unat n] = map (\<lambda>k. k \<in> set (i # is) \<or> seen ! k) [0..<unat n]"
    using i Cons.prems by (auto simp: nth_list_update)
  finally show ?case by (simp add: algebra_simps)
qed

text \<open>The number of chunks is the quotient rounded up, as long as the sum does not wrap.\<close>

lemma chunk_count_ceil:
  assumes "0 < c" "0 < len" "len + unat c \<le> 18446744073709551616"
  shows "unat (chunk_count (of_nat len) c) = (len + unat c - 1) div unat c"
proof -
  have c: "0 < unat c" using assms(1) by (simp add: unat_gt_0 word_neq_0_conv)
  have l: "unat (of_nat len :: size_t) = len" using assms c by (intro unat_of_nat_size) simp
  have "unat (of_nat len + (c - 1)) = len + (unat c - 1)"
    using assms c l by (subst unat_add_nowrap) (simp_all add: unat_dec_nowrap)
  then show ?thesis using c by (simp add: chunk_count_def unat_div add_diff_eq)
qed

lemma ceil_div_covers: "0 < (c :: nat) \<Longrightarrow> len \<le> (len + c - 1) div c * c"
  using div_mult_mod_eq [of "len + c - 1" c] mod_less_divisor [of c "len + c - 1"] by linarith

lemma ceil_div_below: "0 < (c :: nat) \<Longrightarrow> i < (len + c - 1) div c \<Longrightarrow> i * c \<le> len"
proof -
  assume c: "0 < c" and "i < (len + c - 1) div c"
  then have "Suc i * c \<le> len + c - 1" using c by (metis Suc_leI less_eq_div_iff_mult_less_eq)
  then show ?thesis using c by simp
qed


lemma mset_map_perm: "mset ys = mset (map f xs) \<Longrightarrow> \<exists>zs. ys = map f zs \<and> mset zs = mset xs"
proof (induction xs arbitrary: ys)
  case (Cons x xs)
  then have "f x \<in> set ys" by (metis list.set_intros(1) list.simps(9) mset_eq_setD)
  then obtain as bs where ys: "ys = as @ f x # bs" by (meson split_list)
  with Cons.prems have "mset (as @ bs) = mset (map f xs)" by simp
  from Cons.IH [OF this] obtain zs where "as @ bs = map f zs" "mset zs = mset xs" by blast
  then obtain us vs where "zs = us @ vs" "as = map f us" "bs = map f vs" by (metis append_eq_map_conv)
  with ys \<open>mset zs = mset xs\<close> have "ys = map f (us @ x # vs) \<and> mset (us @ x # vs) = mset (x # xs)" by simp
  then show ?case by blast
qed simp

lemma transfer_header_of_chunks:
  assumes "length mid = unat n" "0 < n" "unat n + 2 < 18446744073709551616"
  shows "transfer_header (chunk_start_message tid name sz n c # mid @ [chunk_end_message tid sz n]) =
    Some (tid, n, sz)"
proof -
  have "0 < length mid" using assms(1,2) by (simp add: word_neq_0_conv unat_gt_0)
  moreover have "(of_nat (length mid + 2) :: size_t) = n + 2" using assms(1) by simp
  ultimately show ?thesis
    by (simp add: transfer_header_def Let_def chunk_start_message_def chunk_end_message_def json_object_def
        obj_find_def)
qed

text \<open>The loop over the data chunks, in any order, collects the pieces in order.\<close>

lemma take_chunks_perm:
  assumes "0 < c" "length data < 18446744073709551616" "\<And>i. i < unat n \<Longrightarrow> i * unat c \<le> length data"
    and cover: "length data \<le> unat n * unat c"
    and perm: "mset mid = mset (map (chunk_data_message tid n data c) [0..<unat n])"
  shows "length mid = unat n \<and>
    take_chunks tid n mid (replicate (unat n) [], replicate (unat n) False, 0) =
      Some (map (piece (unat c) data) [0..<unat n], replicate (unat n) True, of_nat (length data))"
proof -
  let ?p = "piece (unat c) data"
  from mset_map_perm [OF perm] obtain "is" where mid: "mid = map (chunk_data_message tid n data c) is"
    and perm_is: "mset is = mset [0..<unat n]" by blast
  have dis: "distinct is" using perm_is by (metis distinct_upt mset_eq_imp_distinct_iff)
  have set_is: "set is = {..<unat n}" using mset_eq_setD [OF perm_is] by (simp add: atLeast0LessThan)
  have len: "length mid = unat n" using mset_eq_length [OF perm_is] by (simp add: mid)
  have "sum_list (map (\<lambda>i. length (?p i)) is) = sum_list (map (\<lambda>i. length (?p i)) [0..<unat n])"
    unfolding sum_mset_sum_list [symmetric] mset_map perm_is ..
  also have "\<dots> = length (concat (map ?p [0..<unat n]))" by (simp add: length_concat comp_def)
  finally have sum: "sum_list (map (\<lambda>i. length (?p i)) is) = length data"
    using cover by (simp add: concat_pieces)
  have "take_chunks tid n mid (replicate (unat n) [], replicate (unat n) False, 0) =
     Some (map (\<lambda>i. if i \<in> set is then ?p i else replicate (unat n) [] ! i) [0..<unat n],
       map (\<lambda>i. i \<in> set is \<or> replicate (unat n) False ! i) [0..<unat n],
       0 + of_nat (sum_list (map (\<lambda>i. length (?p i)) is)))"
    unfolding mid using assms(1-3) dis by (intro take_chunks_data) (auto simp: set_is)
  moreover have "map (\<lambda>i. if i \<in> set is then ?p i else replicate (unat n) [] ! i) [0..<unat n] =
      map ?p [0..<unat n]" by (simp add: set_is)
  moreover have "map (\<lambda>i. i \<in> set is \<or> replicate (unat n) False ! i) [0..<unat n] = replicate (unat n) True"
    by (rule nth_equalityI) (auto simp: set_is)
  ultimately show ?thesis using len by (simp add: sum)
qed

text \<open>C19: A file cut into chunks by \<open>blob_to_chunk\<close> is written back byte for byte by \<open>chunks_to_blob\<close>, for
  every chunk size and in whatever order the data chunks between the start and the end message arrive, when
  the size of the file plus the chunk size does not exceed \<open>size_t\<close>.\<close>

theorem chunk_transfer_roundtrip:
  assumes "data \<noteq> []" "0 < c" "length data + unat c < 2 ^ 64 - 2"
    and "chunks = blob_to_chunk name (Some data) c naming"
    and "mset mid = mset (butlast (tl chunks))"
  shows "chunks_to_blob True (\<lambda>_. True) (hd chunks # mid @ [last chunks]) = (Some data, True)"
proof -
  define tid where "tid = (if naming = [] then name else naming)"
  define n where "n = chunk_count (of_nat (length data)) c"
  let ?len = "of_nat (length data) :: size_t"
  have c: "0 < unat c" using assms(2) by (simp add: unat_gt_0 word_neq_0_conv)
  have n: "unat n = (length data + unat c - 1) div unat c"
    unfolding n_def using assms(1-3) by (intro chunk_count_ceil) auto
  have "unat n \<le> length data + unat c - 1" unfolding n by (rule div_le_dividend)
  then have n_le: "unat n + 2 < 18446744073709551616" using assms(3) c by simp
  have cover: "length data \<le> unat n * unat c" unfolding n by (rule ceil_div_covers [OF c])
  have n0: "0 < n" using cover assms(1) by (cases "n = 0") (auto simp: word_neq_0_conv)
  have chunks: "chunks = chunk_start_message tid name ?len n c #
      map (chunk_data_message tid n data c) [0..<unat n] @ [chunk_end_message tid ?len n]"
    using assms(1,2) by (auto simp: assms(4) blob_to_chunk_def read_binary_file_def tid_def n_def Let_def)
  have mid: "mset mid = mset (map (chunk_data_message tid n data c) [0..<unat n])"
    using assms(5) by (simp add: chunks butlast_append)
  have below: "\<And>i. i < unat n \<Longrightarrow> i * unat c \<le> length data" unfolding n by (rule ceil_div_below [OF c])
  have "length data < 18446744073709551616" using assms(3) by simp
  note tc = take_chunks_perm [OF assms(2) this below cover mid]
  have "transfer_header (hd chunks # mid @ [last chunks]) = Some (tid, n, ?len)"
    using transfer_header_of_chunks [of mid n tid name ?len c] tc n0 n_le by (simp add: chunks)
  moreover have "write_chunks (\<lambda>_. True) (map (piece (unat c) data) [0..<unat n]) = (data, True)"
    using cover by (simp add: write_chunks_all concat_pieces)
  ultimately show ?thesis using tc by (simp add: chunks_to_blob_def list_all_iff)
qed


theorem chunk_transfer_roundtrip_witness:
  "let chunks = blob_to_chunk ''a.bin'' (Some [1, 2, 3, 4, 255]) 2 [] in
     chunks_to_blob True (\<lambda>_. True) (hd chunks # rev (butlast (tl chunks)) @ [last chunks]) =
       (Some [1, 2, 3, 4, 255], True)"
  unfolding Let_def by (rule chunk_transfer_roundtrip [OF _ _ _ refl]) simp_all

end
