(* ===== verification/Ws_Router.thy ===== *)
theory Ws_Router
  imports Ws_Protocol
begin

text \<open>
  Routing of the WebSocket server: the authentication and authorization vocabulary of
  \<^verbatim>\<open>middleware/Auth/\<close>, the accepting decisions and the handler table of \<^verbatim>\<open>ws/server/WsRouter.hpp\<close>.  A
  handler is a function of the session it is given; what it asks of the session through the public members
  of \<open>WsSession\<close> is the list of calls it makes.
\<close>

section \<open>Authentication and authorization\<close>

record authentication_request =
  ar_authorization_header :: "string option"
  ar_normalized_headers :: "string \<rightharpoonup> string"
  ar_query_params :: "string \<rightharpoonup> string"
  ar_cookies :: "string \<rightharpoonup> string"
  ar_endpoint :: string
  ar_raw_target :: string
  ar_query_string :: string
  ar_remote_address :: string
  ar_remote_port :: "16 word"
  ar_host :: string
  ar_origin :: string
  ar_user_agent :: string

definition new_authentication_request :: authentication_request where
  "new_authentication_request = \<lparr>ar_authorization_header = None, ar_normalized_headers = Map.empty,
     ar_query_params = Map.empty, ar_cookies = Map.empty, ar_endpoint = [], ar_raw_target = [],
     ar_query_string = [], ar_remote_address = [], ar_remote_port = 0, ar_host = [], ar_origin = [],
     ar_user_agent = []\<rparr>"

record authenticated_principal =
  ap_user_id :: string
  ap_auth_scheme :: string
  ap_subject :: string
  ap_issuer :: string
  ap_roles :: "string list"
  ap_scopes :: "string list"
  ap_expires_at :: "int option"

datatype authentication_failure_code =
    missing_credentials | malformed_credentials | invalid_token | expired_token | invalid_issuer
  | invalid_audience | auth_forbidden | auth_temporarily_unavailable

record authentication_failure =
  af_code :: authentication_failure_code
  af_message :: string
  af_retryable :: bool

text \<open>The variant returned by \<open>IAuthenticator::authenticate\<close>, which the application supplies.\<close>

type_synonym authentication_result = "authentication_failure + authenticated_principal"

type_synonym authenticator = "authentication_request \<Rightarrow> authentication_result"

record authorization_request =
  az_action :: string
  az_endpoint :: string
  az_resource_type :: "string option"
  az_resource_id :: "string option"

datatype authorization_failure_code =
    insufficient_role | insufficient_scope | authz_forbidden | authz_temporarily_unavailable
  | authz_expired_token | unknown_request | unknown_resource

fun authorization_failure_code_to_string :: "authorization_failure_code \<Rightarrow> string" where
  "authorization_failure_code_to_string insufficient_role = ''insufficient_role''"
| "authorization_failure_code_to_string insufficient_scope = ''insufficient_scope''"
| "authorization_failure_code_to_string authz_forbidden = ''forbidden''"
| "authorization_failure_code_to_string authz_temporarily_unavailable = ''temporarily_unavailable''"
| "authorization_failure_code_to_string authz_expired_token = ''expired_token''"
| "authorization_failure_code_to_string unknown_request = ''unknown_request''"
| "authorization_failure_code_to_string unknown_resource = ''unknown_resource''"

record authorization_failure =
  zf_code :: authorization_failure_code
  zf_message :: string
  zf_retryable :: bool

type_synonym authorizer = "authenticated_principal \<Rightarrow> authorization_request \<Rightarrow> authorization_failure + unit"

section \<open>Accepting decisions\<close>

text \<open>The HTTP status codes the decisions use.\<close>

datatype http_status =
    st_switching_protocols | st_ok | st_created | st_accepted | st_no_content | st_bad_request
  | st_unauthorized | st_forbidden | st_not_found | st_conflict | st_payload_too_large
  | st_too_many_requests | st_internal_server_error | st_not_implemented | st_service_unavailable

record accepting_decision =
  ad_status :: http_status
  ad_message :: string
  ad_accept :: bool

definition make_accept :: "http_status \<Rightarrow> string \<Rightarrow> accepting_decision" where
  "make_accept st msg = \<lparr>ad_status = st, ad_message = msg, ad_accept = True\<rparr>"

definition reject :: "http_status \<Rightarrow> string \<Rightarrow> accepting_decision" where
  "reject st msg = \<lparr>ad_status = st, ad_message = msg, ad_accept = False\<rparr>"

definition default_accept :: "string \<Rightarrow> accepting_decision" where
  "default_accept = make_accept st_switching_protocols"

definition accept_ok :: "string \<Rightarrow> accepting_decision" where
  "accept_ok = make_accept st_ok"

definition accept_authorized :: "string \<Rightarrow> accepting_decision" where
  "accept_authorized = make_accept st_accepted"

definition accept_created :: "string \<Rightarrow> accepting_decision" where
  "accept_created = make_accept st_created"

definition accept_accepted :: "string \<Rightarrow> accepting_decision" where
  "accept_accepted = make_accept st_accepted"

definition accept_no_content :: "string \<Rightarrow> accepting_decision" where
  "accept_no_content = make_accept st_no_content"

definition reject_bad_request :: "string \<Rightarrow> accepting_decision" where
  "reject_bad_request = reject st_bad_request"

definition reject_unauthorized :: "string \<Rightarrow> accepting_decision" where
  "reject_unauthorized = reject st_unauthorized"

definition reject_forbidden :: "string \<Rightarrow> accepting_decision" where
  "reject_forbidden = reject st_forbidden"

definition reject_not_found :: "string \<Rightarrow> accepting_decision" where
  "reject_not_found = reject st_not_found"

definition reject_404 :: "string \<Rightarrow> accepting_decision" where
  "reject_404 = reject_not_found"

definition reject_conflict :: "string \<Rightarrow> accepting_decision" where
  "reject_conflict = reject st_conflict"

definition reject_payload_too_large :: "string \<Rightarrow> accepting_decision" where
  "reject_payload_too_large = reject st_payload_too_large"

definition reject_too_many_requests :: "string \<Rightarrow> accepting_decision" where
  "reject_too_many_requests = reject st_too_many_requests"

definition reject_internal_server_error :: "string \<Rightarrow> accepting_decision" where
  "reject_internal_server_error = reject st_internal_server_error"

definition reject_not_implemented :: "string \<Rightarrow> accepting_decision" where
  "reject_not_implemented = reject st_not_implemented"

definition reject_service_unavailable :: "string \<Rightarrow> accepting_decision" where
  "reject_service_unavailable = reject st_service_unavailable"

definition reject_503 :: "string \<Rightarrow> accepting_decision" where
  "reject_503 = reject_service_unavailable"

lemma decision_simps [simp]:
  "ad_accept (make_accept st msg)" "\<not> ad_accept (reject st msg)"
  "ad_accept (default_accept msg)" "ad_accept (accept_authorized msg)" "\<not> ad_accept (reject_unauthorized msg)"
  "\<not> ad_accept (reject_forbidden msg)" "\<not> ad_accept (reject_service_unavailable msg)"
  by (simp_all add: make_accept_def reject_def default_accept_def accept_authorized_def reject_unauthorized_def
      reject_forbidden_def reject_service_unavailable_def)

section \<open>The handler table\<close>

text \<open>Error codes of the network library: success, a cancelled operation, a connection closed by the peer,
  and every other error.\<close>

datatype erc = erc_ok | erc_aborted | erc_closed | erc_other string

text \<open>The public operations of a session that a handler may call.\<close>

datatype session_call =
    call_send_text string
  | call_send_binary string
  | call_close
  | call_close_for_shutdown
  | call_close_forcefully
  | call_set_principal authenticated_principal

record 's ws_router =
  m_errorHandler :: "('s \<Rightarrow> erc \<Rightarrow> session_call list) option"
  m_openHandler :: "('s \<Rightarrow> session_call list) option"
  m_closeHandler :: "('s \<Rightarrow> session_call list) option"
  m_messageHandler :: "('s \<Rightarrow> string \<Rightarrow> session_call list) option"
  m_acceptHandler :: "('s \<Rightarrow> accepting_decision \<times> session_call list) option"
  m_protoErrHandler :: "('s \<Rightarrow> string \<Rightarrow> session_call list) option"
  m_authHandler :: "('s \<Rightarrow> accepting_decision \<times> session_call list) option"

definition new_router :: "'s ws_router" where
  "new_router = \<lparr>m_errorHandler = None, m_openHandler = None, m_closeHandler = None, m_messageHandler = None,
     m_acceptHandler = None, m_protoErrHandler = None, m_authHandler = None\<rparr>"

definition router_on_accept where "router_on_accept h r = r\<lparr>m_acceptHandler := Some h\<rparr>"
definition router_on_open where "router_on_open h r = r\<lparr>m_openHandler := Some h\<rparr>"
definition router_on_close where "router_on_close h r = r\<lparr>m_closeHandler := Some h\<rparr>"
definition router_on_message where "router_on_message h r = r\<lparr>m_messageHandler := Some h\<rparr>"
definition router_on_error where "router_on_error h r = r\<lparr>m_errorHandler := Some h\<rparr>"
definition router_on_protocol_error where "router_on_protocol_error h r = r\<lparr>m_protoErrHandler := Some h\<rparr>"
definition router_on_auth where "router_on_auth h r = r\<lparr>m_authHandler := Some h\<rparr>"

definition handle_open :: "'s ws_router \<Rightarrow> 's \<Rightarrow> session_call list" where
  "handle_open r s = (case m_openHandler r of Some h \<Rightarrow> h s | None \<Rightarrow> [])"

definition handle_accept :: "'s ws_router \<Rightarrow> 's \<Rightarrow> accepting_decision \<times> session_call list" where
  "handle_accept r s = (case m_acceptHandler r of Some h \<Rightarrow> h s | None \<Rightarrow> (default_accept [], []))"

definition handle_close :: "'s ws_router \<Rightarrow> 's \<Rightarrow> session_call list" where
  "handle_close r s = (case m_closeHandler r of Some h \<Rightarrow> h s | None \<Rightarrow> [])"

definition handle_message :: "'s ws_router \<Rightarrow> 's \<Rightarrow> string \<Rightarrow> session_call list" where
  "handle_message r s msg = (case m_messageHandler r of Some h \<Rightarrow> h s msg | None \<Rightarrow> [])"

definition handle_error :: "'s ws_router \<Rightarrow> 's \<Rightarrow> erc \<Rightarrow> session_call list" where
  "handle_error r s ec = (case m_errorHandler r of Some h \<Rightarrow> h s ec | None \<Rightarrow> [])"

definition handle_protocol_error :: "'s ws_router \<Rightarrow> 's \<Rightarrow> string \<Rightarrow> session_call list" where
  "handle_protocol_error r s msg = (case m_protoErrHandler r of Some h \<Rightarrow> h s msg | None \<Rightarrow> [])"

definition handle_auth :: "'s ws_router \<Rightarrow> 's \<Rightarrow> accepting_decision \<times> session_call list" where
  "handle_auth r s = (case m_authHandler r of Some h \<Rightarrow> h s | None \<Rightarrow> (default_accept [], []))"

definition handle_binary :: "'s ws_router \<Rightarrow> 's \<Rightarrow> session_call list" where
  "handle_binary r s = []"

end
