(* ===== verification/Core_Config.thy ===== *)
theory Core_Config
  imports Json_Value
begin

text \<open>
  The configuration singleton of \<^verbatim>\<open>core/config/Config.hpp\<close> and the WebSocket settings read from it
  (\<^verbatim>\<open>ws/server/WsConfig.hpp\<close>).  Dotted keys are split as \<open>std::getline\<close> does; integers are narrowed as the
  casts of the code narrow them.  Whether the file exists and opens, and what the JSON parser makes of it,
  are arguments.
\<close>

section \<open>The configuration object\<close>

record config =
  c_serverHost :: string
  c_serverPort :: "16 word"
  c_requestTimeoutMs :: "32 word"
  c_readTimeoutMs :: "32 word"
  c_writeTimeoutMs :: "32 word"
  c_maxConnections :: "32 word"
  c_rawConfig :: json
  c_initStatus :: bool

definition new_config :: config where
  "new_config = \<lparr>c_serverHost = ''127.0.0.1'', c_serverPort = 228, c_requestTimeoutMs = 5000,
     c_readTimeoutMs = 5000, c_writeTimeoutMs = 5000, c_maxConnections = 1024, c_rawConfig = JNull,
     c_initStatus = False\<rparr>"

text \<open>The segments a \<open>while (std::getline(ss, segment, '.'))\<close> loop sees: the stream fails when no character
  is left, so an empty last segment is not delivered.\<close>

function getline_segments :: "string \<Rightarrow> string list" where
  "getline_segments s =
     (if s = [] then []
      else takeWhile (\<lambda>c. c \<noteq> CHR ''.'') s # getline_segments (drop 1 (dropWhile (\<lambda>c. c \<noteq> CHR ''.'') s)))"
  by auto
termination
proof (relation "measure length")
  fix s :: string
  assume "s \<noteq> []"
  have "length (dropWhile (\<lambda>c. c \<noteq> CHR ''.'') s) \<le> length s" by (rule length_dropWhile_le)
  then show "(drop 1 (dropWhile (\<lambda>c. c \<noteq> CHR ''.'') s), s) \<in> measure length"
    using \<open>s \<noteq> []\<close> by (cases s) auto
qed simp

declare getline_segments.simps [simp del]

fun walk :: "json \<Rightarrow> string list \<Rightarrow> json option" where
  "walk node [] = Some node"
| "walk node (seg # segs) =
     (if \<not> is_object node then None
      else case json_find seg node of None \<Rightarrow> None | Some child \<Rightarrow> walk child segs)"

definition findNode :: "config \<Rightarrow> string \<Rightarrow> json option" where
  "findNode c dottedKey =
     (case c_rawConfig c of JNull \<Rightarrow> None | raw \<Rightarrow> walk raw (getline_segments dottedKey))"

definition hasKey :: "config \<Rightarrow> string \<Rightarrow> bool" where
  "hasKey c k \<longleftrightarrow> findNode c k \<noteq> None"

definition getInt :: "config \<Rightarrow> string \<Rightarrow> 32 word \<Rightarrow> 32 word" where
  "getInt c k defaultValue =
     (case findNode c k of
        None \<Rightarrow> defaultValue
      | Some node \<Rightarrow> (case get_integer node of None \<Rightarrow> defaultValue | Some i \<Rightarrow> to_int32 i))"

definition getBool :: "config \<Rightarrow> string \<Rightarrow> bool \<Rightarrow> bool" where
  "getBool c k defaultValue =
     (case findNode c k of
        None \<Rightarrow> defaultValue
      | Some node \<Rightarrow> (case get_bool node of None \<Rightarrow> defaultValue | Some b \<Rightarrow> b))"

definition getString :: "config \<Rightarrow> string \<Rightarrow> string \<Rightarrow> string" where
  "getString c k defaultValue =
     (case findNode c k of
        None \<Rightarrow> defaultValue
      | Some node \<Rightarrow> (case get_string node of None \<Rightarrow> defaultValue | Some s \<Rightarrow> s))"

text \<open>Assigning through the pointer \<open>findNode\<close> returns changes the document in place.\<close>

fun replace_at :: "json \<Rightarrow> string list \<Rightarrow> json \<Rightarrow> json" where
  "replace_at node [] v = v"
| "replace_at node (seg # segs) v =
     (case node of
        JObject ms \<Rightarrow> JObject (map (\<lambda>(k, m). (k, if k = seg then replace_at m segs v else m)) ms)
      | _ \<Rightarrow> node)"

definition setValue :: "config \<Rightarrow> string \<Rightarrow> json \<Rightarrow> config \<times> bool" where
  "setValue c dottedKey v =
     (case findNode c dottedKey of
        None \<Rightarrow> (c, False)
      | Some _ \<Rightarrow> (c\<lparr>c_rawConfig := replace_at (c_rawConfig c) (getline_segments dottedKey) v\<rparr>, True))"

section \<open>Loading\<close>

text \<open>One of the four non-negative 64-bit settings, narrowed to 32 bits.\<close>

definition parse_uint32 :: "json \<Rightarrow> string \<Rightarrow> 32 word \<Rightarrow> 32 word" where
  "parse_uint32 server key current =
     (case json_find key server of
        None \<Rightarrow> current
      | Some node \<Rightarrow>
         (case get_integer node of
            None \<Rightarrow> current
          | Some v \<Rightarrow> if 0 \<le> sint v then ucast v else current))"

definition parse_port :: "json \<Rightarrow> 16 word \<Rightarrow> 16 word" where
  "parse_port server current =
     (case json_find ''port'' server of
        None \<Rightarrow> current
      | Some node \<Rightarrow>
         (case get_integer node of
            None \<Rightarrow> current
          | Some v \<Rightarrow>
             (let parsedPort = sint (to_int32 v) in
              if 0 < parsedPort \<and> parsedPort \<le> 65535 then word_of_int parsedPort else current)))"

definition parseServerConfig :: "config \<Rightarrow> json \<Rightarrow> config" where
  "parseServerConfig c rawConfig =
     (case json_find ''server'' rawConfig of
        Some (JObject ms) \<Rightarrow>
         (let server = JObject ms in
          c\<lparr>c_serverHost := (case json_find ''host'' server of
                None \<Rightarrow> c_serverHost c
              | Some h \<Rightarrow> (case get_string h of None \<Rightarrow> c_serverHost c | Some s \<Rightarrow> s)),
            c_serverPort := parse_port server (c_serverPort c),
            c_requestTimeoutMs := parse_uint32 server ''request_timeout_ms'' (c_requestTimeoutMs c),
            c_readTimeoutMs := parse_uint32 server ''read_timeout_ms'' (c_readTimeoutMs c),
            c_writeTimeoutMs := parse_uint32 server ''write_timeout_ms'' (c_writeTimeoutMs c),
            c_maxConnections := parse_uint32 server ''max_connections'' (c_maxConnections c)\<rparr>)
      | _ \<Rightarrow> c)"

datatype config_file = no_path | not_found | cannot_open | file_text string

text \<open>\<open>initConfig\<close>; the parser throws \<open>Inl e\<close>.\<close>

definition initConfig :: "(string \<Rightarrow> 'e + json) \<Rightarrow> config_file \<Rightarrow> config \<Rightarrow> config" where
  "initConfig parse file c =
     (case file of
        file_text text \<Rightarrow>
         (case parse text of
            Inl e \<Rightarrow> c\<lparr>c_initStatus := False\<rparr>
          | Inr raw \<Rightarrow> (parseServerConfig (c\<lparr>c_rawConfig := raw\<rparr>) raw)\<lparr>c_initStatus := True\<rparr>)
      | _ \<Rightarrow> c\<lparr>c_initStatus := False\<rparr>)"

text \<open>The singleton: the first path wins, and access before initialization throws.\<close>

definition config_instance_path ::
  "(string \<Rightarrow> 'e + json) \<Rightarrow> config_file \<Rightarrow> config option \<Rightarrow> config option \<times> config" where
  "config_instance_path parse file inst =
     (case inst of
        Some c \<Rightarrow> (inst, c)
      | None \<Rightarrow> (let c = initConfig parse file new_config in (Some c, c)))"

definition config_instance :: "config option \<Rightarrow> (string, config) result" where
  "config_instance inst =
     (case inst of None \<Rightarrow> Inl ''Function not yet implemented.'' | Some c \<Rightarrow> Inr c)"

section \<open>WebSocket settings\<close>

text \<open>Sizes are \<open>size_t\<close>, intervals are signed 64-bit counts of seconds.\<close>

record ws_config =
  wc_maxMessageSize :: size_t
  wc_maxQueuedBytes :: size_t
  wc_maxQueuedMessages :: size_t
  wc_idleTimeout :: int
  wc_drainTimeout :: int
  wc_enablePerMessageDeflate :: bool
  wc_autoPingPong :: bool
  wc_pingInterval :: int

definition default_ws_config :: ws_config where
  "default_ws_config = \<lparr>wc_maxMessageSize = 65536, wc_maxQueuedBytes = 10240, wc_maxQueuedMessages = 256,
     wc_idleTimeout = 60, wc_drainTimeout = 5, wc_enablePerMessageDeflate = True, wc_autoPingPong = True,
     wc_pingInterval = 30\<rparr>"

text \<open>\<open>getInt\<close> takes and returns \<open>int32_t\<close>: a \<open>size_t\<close> default is narrowed on the way in, a result is sign
  extended on the way out.\<close>

definition int32_to_size :: "32 word \<Rightarrow> size_t" where
  "int32_to_size w = scast w"

definition ws_config_from_core :: "config \<Rightarrow> ws_config" where
  "ws_config_from_core c =
     (let d = default_ws_config in
      d\<lparr>wc_maxMessageSize := int32_to_size (getInt c ''websocket.max_message_size'' (ucast (wc_maxMessageSize d))),
        wc_maxQueuedBytes := int32_to_size (getInt c ''websocket.max_queued_bytes'' (ucast (wc_maxQueuedBytes d))),
        wc_maxQueuedMessages := int32_to_size (getInt c ''websocket.max_queued_messages'' (ucast (wc_maxQueuedMessages d))),
        wc_idleTimeout := sint (getInt c ''websocket.idle_timeout'' (word_of_int (wc_idleTimeout d))),
        wc_drainTimeout := sint (getInt c ''websocket.drain_timeout'' (word_of_int (wc_drainTimeout d))),
        wc_enablePerMessageDeflate := getBool c ''websocket.enable_deflate'' (wc_enablePerMessageDeflate d),
        wc_pingInterval := sint (getInt c ''websocket.ping_interval'' (word_of_int (wc_pingInterval d)))\<rparr>)"

definition ws_config_from_file ::
  "(string \<Rightarrow> 'e + json) \<Rightarrow> config_file \<Rightarrow> config option \<Rightarrow> config option \<times> ws_config" where
  "ws_config_from_file parse file inst =
     (case config_instance_path parse file inst of (inst', c) \<Rightarrow>
        (inst', if \<not> c_initStatus c then default_ws_config else ws_config_from_core c))"

section \<open>Looking up and setting\<close>

lemma obj_find_replace:
  "obj_find k (map (\<lambda>(k, m). (k, if k = seg then f m else m)) ms) =
     (case obj_find k ms of None \<Rightarrow> None | Some m \<Rightarrow> Some (if k = seg then f m else m))"
  by (induction ms) (auto simp: obj_find_def)

lemma walk_replace_same: "walk j segs \<noteq> None \<Longrightarrow> walk (replace_at j segs v) segs = Some v"
proof (induction j segs rule: walk.induct)
  case (2 node seg segs)
  then show ?case
    by (cases node) (auto simp: is_object_def obj_find_replace split: option.splits)
qed simp

text \<open>Two key paths of which neither is a prefix of the other name disjoint parts of the document.\<close>

lemma walk_replace_other:
  "walk j segs \<noteq> None \<Longrightarrow> take (length segs) other \<noteq> segs \<Longrightarrow> take (length other) segs \<noteq> other \<Longrightarrow>
     walk (replace_at j segs v) other = walk j other"
proof (induction j segs arbitrary: other rule: walk.induct)
  case (2 node seg segs)
  then obtain ms child where node: "node = JObject ms" "obj_find seg ms = Some child" "walk child segs \<noteq> None"
    by (cases node) (auto simp: is_object_def split: option.splits)
  show ?case
  proof (cases other)
    case Nil
    then show ?thesis using 2(4) by simp
  next
    case (Cons k ks)
    then show ?thesis
      using 2 node by (cases "k = seg") (auto simp: is_object_def obj_find_replace split: option.splits)
  qed
qed simp

lemma replace_at_not_null: "walk j segs \<noteq> None \<Longrightarrow> segs \<noteq> [] \<Longrightarrow> replace_at j segs v \<noteq> JNull"
  by (cases segs; cases j) (auto simp: is_object_def)

lemma findNode_null_iff: "findNode c k = (if c_rawConfig c = JNull then None else walk (c_rawConfig c) (getline_segments k))"
  by (auto simp: findNode_def split: json.splits)

section \<open>Properties\<close>


definition sample_config :: config where
  "sample_config = new_config\<lparr>c_rawConfig := JObject [(''a'', JObject [(''b'', JUnsigned 1), (''c'', JBool True)])]\<rparr>"

lemma sample_segments: "getline_segments ''a.b'' = [''a'', ''b'']" "getline_segments ''a.c'' = [''a'', ''c'']"
  by (simp_all add: getline_segments.simps)


text \<open>C36: Loading never yields an unusable server port: it is between 1 and 65535 whatever the file
  contains.  The configuration reports success exactly when the file could be read and parsed; otherwise
  every setting keeps its default and no key is found.\<close>

theorem config_load_safe:
  "c_serverPort (initConfig parse file new_config) \<noteq> 0 \<and>
   (c_initStatus (initConfig parse file new_config) \<longleftrightarrow> (\<exists>text raw. file = file_text text \<and> parse text = Inr raw)) \<and>
   (\<not> c_initStatus (initConfig parse file new_config) \<longrightarrow>
      initConfig parse file new_config = new_config \<and> \<not> hasKey (initConfig parse file new_config) k)"
proof -
  have port: "word_of_int i \<noteq> (0 :: 16 word)" if "0 < i" "i \<le> 65535" for i
    using that by (simp add: word_of_int_eq_0_iff) (simp add: zdvd_not_zless)
  have "(scast (to_int32 v) :: 16 word) \<noteq> 0" if "0 < sint (to_int32 v)" "sint (to_int32 v) \<le> 65535" for v
    using port [OF that] by simp
  then have "parse_port server p \<noteq> 0" if "p \<noteq> 0" for server p
    using that by (auto simp: parse_port_def Let_def split: option.splits)
  then have "c_serverPort (parseServerConfig c raw) \<noteq> 0" if "c_serverPort c \<noteq> 0" for c raw
    using that by (auto simp: parseServerConfig_def Let_def split: option.splits json.splits)
  then show ?thesis
    by (auto simp: initConfig_def new_config_def hasKey_def findNode_def split: config_file.splits sum.splits)
qed

theorem config_load_safe_witness:
  "\<not> c_initStatus (initConfig (\<lambda>_. Inl ()) (file_text ''{'') new_config) \<and>
   \<not> hasKey (initConfig (\<lambda>_. Inl ()) (file_text ''{'') new_config) ''server''"
  using config_load_safe [of "\<lambda>_. Inl ()" "file_text ''{''" "''server''"] by auto

text \<open>Integers are narrowed before they are checked: a port of 4294967376 is taken as port 80, a
  timeout of 4294967296 milliseconds as 0, and a \<open>websocket.max_message_size\<close> of -1 as the largest
  64-bit size.\<close>

theorem config_narrowing:
  "parse_port (JObject [(''port'', JUnsigned 4294967376)]) 228 = 80 \<and>
   parse_uint32 (JObject [(''request_timeout_ms'', JUnsigned 4294967296)]) ''request_timeout_ms'' 5000 = 0 \<and>
   wc_maxMessageSize (ws_config_from_core (new_config\<lparr>c_rawConfig :=
     JObject [(''websocket'', JObject [(''max_message_size'', JInt (- 1))])]\<rparr>)) = 18446744073709551615"
proof -
  have "getline_segments ''websocket.max_message_size'' = [''websocket'', ''max_message_size'']"
    by (simp add: getline_segments.simps)
  moreover have "(scast (ucast (- 1 :: 64 word) :: 32 word) :: 64 word) = 18446744073709551615" by code_simp
  ultimately show ?thesis
    by (simp add: parse_port_def parse_uint32_def obj_find_def get_integer_def to_int32_def ws_config_from_core_def
        getInt_def findNode_def int32_to_size_def Let_def)
qed

end
