(* ===== verification/Ws_Session.thy ===== *)
theory Ws_Session
  imports Ws_Router Core_Config
begin

text \<open>
  One WebSocket connection of the server, \<^verbatim>\<open>ws/server/WsSession.hpp\<close>.  The network library is represented by
  the asynchronous operations and posted closures that are outstanding; every completion handler and posted
  closure of the class is one function, run to its end.  What completes, in which order and with which
  error code, is chosen by the environment.
\<close>

section \<open>The request\<close>

record http_request =
  req_target :: string
  req_fields :: "(string \<times> string) list"

record http_endpoint =
  he_headers :: "string \<rightharpoonup> string"
  he_endpoint :: string
  he_rawTarget :: string
  he_payload :: string
  he_terminatorPos :: "nat option"

definition new_http_endpoint :: http_endpoint where
  "new_http_endpoint = \<lparr>he_headers = Map.empty, he_endpoint = [], he_rawTarget = [], he_payload = [],
     he_terminatorPos = None\<rparr>"

text \<open>\<open>to_lower_copy\<close> in the classic locale.\<close>

definition lower_char :: "char \<Rightarrow> char" where
  "lower_char c = (if 65 \<le> (of_char c :: nat) \<and> (of_char c :: nat) \<le> 90 then char_of (of_char c + 32 :: nat) else c)"

definition to_lower_copy :: "string \<Rightarrow> string" where
  "to_lower_copy = map lower_char"

text \<open>\<open>emplace\<close> keeps the first value of a name.\<close>

definition copy_header :: "string \<times> string \<Rightarrow> http_endpoint \<Rightarrow> http_endpoint" where
  "copy_header field e =
     (let lower_field = to_lower_copy (fst field) in
      case he_headers e lower_field of
        Some _ \<Rightarrow> e
      | None \<Rightarrow> e\<lparr>he_headers := (he_headers e)(lower_field \<mapsto> snd field)\<rparr>)"

definition copy_headers :: "http_request \<Rightarrow> http_endpoint \<Rightarrow> http_endpoint" where
  "copy_headers request e = fold copy_header (req_fields request) e"

text \<open>\<open>std::string::find\<close> of a character.\<close>

fun find_char :: "char \<Rightarrow> string \<Rightarrow> nat option" where
  "find_char c [] = None"
| "find_char c (x # xs) = (if x = c then Some 0 else map_option Suc (find_char c xs))"

definition parse_raw_endpoint :: "http_endpoint \<Rightarrow> http_endpoint" where
  "parse_raw_endpoint e =
     (let e = e\<lparr>he_terminatorPos := find_char (CHR ''?'') (he_rawTarget e)\<rparr> in
      case he_terminatorPos e of
        Some pos \<Rightarrow> e\<lparr>he_endpoint := take pos (he_rawTarget e), he_payload := drop (pos + 1) (he_rawTarget e)\<rparr>
      | None \<Rightarrow> e\<lparr>he_endpoint := he_rawTarget e\<rparr>)"

definition he_setHttpRequest :: "http_request \<Rightarrow> http_endpoint \<Rightarrow> http_endpoint" where
  "he_setHttpRequest request e = parse_raw_endpoint (copy_headers request (e\<lparr>he_rawTarget := req_target request\<rparr>))"

definition he_header :: "http_endpoint \<Rightarrow> string \<Rightarrow> string option" where
  "he_header e field = he_headers e (to_lower_copy field)"

record connection_info =
  ci_remoteAddress :: string
  ci_localAddress :: string
  ci_connected_at :: int
  ci_last_activity :: int
  ci_connection_id :: "64 word"
  ci_remotePort :: "16 word"
  ci_localPort :: "16 word"

record request_context =
  rc_httpInfo :: http_endpoint
  rc_connectionInfo :: connection_info

definition new_request_context :: request_context where
  "new_request_context = \<lparr>rc_httpInfo = new_http_endpoint, rc_connectionInfo = \<lparr>ci_remoteAddress = [],
     ci_localAddress = [], ci_connected_at = 0, ci_last_activity = 0, ci_connection_id = 0, ci_remotePort = 0,
     ci_localPort = 0\<rparr>\<rparr>"

definition rc_setHttpRequest :: "http_request \<Rightarrow> request_context \<Rightarrow> request_context" where
  "rc_setHttpRequest request c = c\<lparr>rc_httpInfo := he_setHttpRequest request (rc_httpInfo c)\<rparr>"

text \<open>What the socket reports of its two ends, \<open>None\<close> when it fails, the time of the call, and the counter
  behind \<open>next_connection_id\<close>.\<close>

definition next_connection_id :: "64 word \<Rightarrow> 64 word \<times> 64 word" where
  "next_connection_id counter = (counter, counter + 1)"

definition rc_setTcpSocket ::
  "(string \<times> 16 word) option \<Rightarrow> (string \<times> 16 word) option \<Rightarrow> int \<Rightarrow> 64 word \<Rightarrow> request_context \<Rightarrow>
   request_context \<times> 64 word" where
  "rc_setTcpSocket remote loc now counter c =
     (let (i, counter') = (case remote of
            None \<Rightarrow> (rc_connectionInfo c, counter)
          | Some (a, p) \<Rightarrow>
             (case next_connection_id counter of (n, counter') \<Rightarrow>
               ((rc_connectionInfo c)\<lparr>ci_remoteAddress := a, ci_remotePort := p, ci_connected_at := now,
                  ci_connection_id := n\<rparr>, counter')));
          i' = (case loc of None \<Rightarrow> i | Some (a, p) \<Rightarrow> i\<lparr>ci_localAddress := a, ci_localPort := p\<rparr>)
      in (c\<lparr>rc_connectionInfo := i'\<rparr>, counter'))"

section \<open>The session\<close>

record write_message =
  wm_isBinary :: bool
  wm_data :: string

datatype session_state = s_opening | s_open | s_closing | s_closed | s_shutdown

record ws_session =
  ss_authPrincipal :: "authenticated_principal option"
  ss_requestContext :: request_context
  ss_writeQueue :: "write_message list"
  ss_wsConfig :: ws_config
  ss_currentQueuedBytes :: size_t
  ss_currentQueuedMessages :: size_t
  ss_curState :: session_state
  ss_writing :: bool
  ss_closeNotified :: bool

datatype close_code = code_none | code_normal | code_going_away | code_policy_error

text \<open>Outstanding work: closures posted to the executor, and asynchronous operations on the stream and the
  timers.  The flag of a wait says that it was cancelled.\<close>

datatype ws_op =
    post_enqueue bool string
  | post_close close_code
  | post_shutdown
  | post_force
  | post_ping
  | async_http_read
  | async_accept
  | async_read
  | async_write write_message
  | async_drain_write write_message
  | async_close close_code
  | async_reject http_status string
  | wait_idle bool
  | wait_drain bool
  | wait_heartbeat bool

text \<open>The calls made to the router.\<close>

datatype router_call = called_auth | called_accept | called_open | called_close | called_error erc | called_message string

text \<open>A session with its environment: the outstanding work, the options of the stream, the clock, whether
  the socket is still connected, whether an exception left a handler, and three histories: the calls to the
  router, the messages put on the queue and the messages the stream has written.\<close>

record ws_world = ws_session +
  w_pending :: "ws_op list"
  w_readMax :: size_t
  w_deflate :: bool
  w_pongs :: bool
  w_now :: int
  w_connected :: bool
  w_uncaught :: bool
  w_calls :: "router_call list"
  w_taken :: "write_message list"
  w_wrote :: "write_message list"

definition post :: "ws_op \<Rightarrow> ws_world \<Rightarrow> ws_world" where
  "post op w = w\<lparr>w_pending := w_pending w @ [op]\<rparr>"

definition called :: "router_call \<Rightarrow> ws_world \<Rightarrow> ws_world" where
  "called c w = w\<lparr>w_calls := w_calls w @ [c]\<rparr>"

subsection \<open>Tests of the state\<close>

definition is_shutdown :: "ws_world \<Rightarrow> bool" where
  "is_shutdown w \<longleftrightarrow> ss_curState w = s_shutdown"

definition is_open :: "ws_world \<Rightarrow> bool" where
  "is_open w \<longleftrightarrow> ss_curState w = s_open"

definition is_closed :: "ws_world \<Rightarrow> bool" where
  "is_closed w \<longleftrightarrow> ss_curState w = s_closed"

definition is_closing_or_closed :: "ws_world \<Rightarrow> bool" where
  "is_closing_or_closed w \<longleftrightarrow> ss_curState w = s_closing \<or> ss_curState w = s_closed \<or> ss_curState w = s_shutdown"

definition is_authenticated :: "ws_world \<Rightarrow> bool" where
  "is_authenticated w \<longleftrightarrow> ss_authPrincipal w \<noteq> None"

definition ss_endpoint :: "ws_world \<Rightarrow> string" where
  "ss_endpoint w = he_endpoint (rc_httpInfo (ss_requestContext w))"

definition ss_query_string :: "ws_world \<Rightarrow> string" where
  "ss_query_string w = he_payload (rc_httpInfo (ss_requestContext w))"

definition ss_header :: "ws_world \<Rightarrow> string \<Rightarrow> string option" where
  "ss_header w field = he_header (rc_httpInfo (ss_requestContext w)) field"

subsection \<open>Public operations\<close>

definition set_authentication_principal :: "authenticated_principal \<Rightarrow> ws_world \<Rightarrow> ws_world" where
  "set_authentication_principal p w = w\<lparr>ss_authPrincipal := Some p\<rparr>"

definition send_text :: "string \<Rightarrow> ws_world \<Rightarrow> ws_world" where
  "send_text message w = (if \<not> is_open w then w else post (post_enqueue False message) w)"

definition send_binary :: "string \<Rightarrow> ws_world \<Rightarrow> ws_world" where
  "send_binary message w = (if \<not> is_open w then w else post (post_enqueue True message) w)"

definition send_json :: "(json \<Rightarrow> string) \<Rightarrow> json \<Rightarrow> ws_world \<Rightarrow> ws_world" where
  "send_json dump js = send_text (dump js)"

definition send_message :: "(json \<Rightarrow> string) \<Rightarrow> json_message \<Rightarrow> ws_world \<Rightarrow> ws_world" where
  "send_message dump msg = send_text (dump (message_to_json msg))"

definition close :: "close_code \<Rightarrow> ws_world \<Rightarrow> ws_world" where
  "close reason w = post (post_close reason) w"

definition close_for_shutdown :: "ws_world \<Rightarrow> ws_world" where
  "close_for_shutdown w = (if is_closing_or_closed w then w else post post_shutdown w)"

definition close_forcefully :: "ws_world \<Rightarrow> ws_world" where
  "close_forcefully w = post post_force w"

text \<open>What a handler asked for.\<close>

fun perform :: "session_call \<Rightarrow> ws_world \<Rightarrow> ws_world" where
  "perform (call_send_text m) w = send_text m w"
| "perform (call_send_binary m) w = send_binary m w"
| "perform call_close w = close code_none w"
| "perform call_close_for_shutdown w = close_for_shutdown w"
| "perform call_close_forcefully w = close_forcefully w"
| "perform (call_set_principal p) w = set_authentication_principal p w"

definition perform_all :: "session_call list \<Rightarrow> ws_world \<Rightarrow> ws_world" where
  "perform_all cs w = fold perform cs w"

subsection \<open>Timers and activity\<close>

definition update_activity :: "ws_world \<Rightarrow> ws_world" where
  "update_activity w = w\<lparr>ss_requestContext := (ss_requestContext w)\<lparr>rc_connectionInfo :=
     (rc_connectionInfo (ss_requestContext w))\<lparr>ci_last_activity := w_now w\<rparr>\<rparr>\<rparr>"

text \<open>The idle and the drain waits are on the same timer.\<close>

fun cancelled_idle :: "ws_op \<Rightarrow> ws_op" where
  "cancelled_idle (wait_idle _) = wait_idle True"
| "cancelled_idle (wait_drain _) = wait_drain True"
| "cancelled_idle op = op"

fun cancelled_heartbeat :: "ws_op \<Rightarrow> ws_op" where
  "cancelled_heartbeat (wait_heartbeat _) = wait_heartbeat True"
| "cancelled_heartbeat op = op"

definition cancel_idle_timer :: "ws_world \<Rightarrow> ws_world" where
  "cancel_idle_timer w = w\<lparr>w_pending := map cancelled_idle (w_pending w)\<rparr>"

definition cancel_drain_timeout :: "ws_world \<Rightarrow> ws_world" where
  "cancel_drain_timeout w = w\<lparr>w_pending := map cancelled_idle (w_pending w)\<rparr>"

definition stop_heartbeat_timer :: "ws_world \<Rightarrow> ws_world" where
  "stop_heartbeat_timer w = w\<lparr>w_pending := map cancelled_heartbeat (w_pending w)\<rparr>"

text \<open>\<open>expires_after\<close> cancels the waits on the timer.\<close>

definition run_idle_timer :: "ws_world \<Rightarrow> ws_world" where
  "run_idle_timer w =
     (if wc_idleTimeout (ss_wsConfig w) \<le> 0 then w else post (wait_idle False) (cancel_idle_timer w))"

definition run_drain_timer :: "int \<Rightarrow> ws_world \<Rightarrow> ws_world" where
  "run_drain_timer drain_timeout_sec w =
     (if drain_timeout_sec \<le> 0 then w else post (wait_drain False) (cancel_idle_timer w))"

definition run_heartbeat_timer :: "int \<Rightarrow> ws_world \<Rightarrow> ws_world" where
  "run_heartbeat_timer heartbeat_interval_sec w =
     (if heartbeat_interval_sec \<le> 0 then w else post (wait_heartbeat False) (stop_heartbeat_timer w))"

definition on_idle_timeout :: "erc \<Rightarrow> ws_world \<Rightarrow> ws_world" where
  "on_idle_timeout ec w = (if ec = erc_aborted then w else if ec \<noteq> erc_ok then w else close code_normal w)"

definition on_drain_timeout :: "erc \<Rightarrow> ws_world \<Rightarrow> ws_world" where
  "on_drain_timeout ec w = (if ec = erc_aborted then w else if ec \<noteq> erc_ok then w else close_forcefully w)"

definition on_heartbeat_timeout :: "erc \<Rightarrow> ws_world \<Rightarrow> ws_world" where
  "on_heartbeat_timeout ec w = (if ec = erc_aborted then w else if ec \<noteq> erc_ok then w else close code_normal w)"

definition on_ping :: "erc \<Rightarrow> ws_world \<Rightarrow> ws_world" where
  "on_ping ec w = (if ec \<noteq> erc_ok then close code_policy_error w else w)"

definition do_heartbeat_next :: "ws_world \<Rightarrow> ws_world" where
  "do_heartbeat_next w = post post_ping (run_heartbeat_timer (wc_pingInterval (ss_wsConfig w)) w)"

definition do_heartbeat :: "ws_world \<Rightarrow> ws_world" where
  "do_heartbeat w = (if wc_pingInterval (ss_wsConfig w) > 0 then do_heartbeat_next w else w)"

text \<open>The control callback on a received control frame.\<close>

definition on_control :: "bool \<Rightarrow> ws_world \<Rightarrow> ws_world" where
  "on_control is_pong w = update_activity (if is_pong then do_heartbeat_next (stop_heartbeat_timer w) else w)"

subsection \<open>Closing\<close>

definition begin_closing :: "ws_world \<Rightarrow> ws_world \<times> bool" where
  "begin_closing w =
     (if is_closing_or_closed w then (w, False)
      else let w = w\<lparr>ss_curState := s_closing\<rparr>;
               w = cancel_idle_timer w;
               w = cancel_drain_timeout w;
               w = stop_heartbeat_timer w
           in (w\<lparr>ss_writeQueue := [], ss_currentQueuedBytes := 0, ss_currentQueuedMessages := 0,
                 ss_writing := False\<rparr>, True))"

text \<open>\<open>R\<close> is the router, \<open>None\<close> when the pointer is null.\<close>

definition mark_closed_and_notify_once :: "ws_world ws_router option \<Rightarrow> ws_world \<Rightarrow> ws_world" where
  "mark_closed_and_notify_once R w =
     (let w = w\<lparr>ss_curState := s_closed\<rparr> in
      if ss_closeNotified w then w
      else let w = w\<lparr>ss_closeNotified := True\<rparr>;
               w = (case R of None \<Rightarrow> w | Some r \<Rightarrow> perform_all (handle_close r w) (called called_close w))
           in update_activity w)"

definition on_async_close :: "ws_world ws_router option \<Rightarrow> erc \<Rightarrow> ws_world \<Rightarrow> ws_world" where
  "on_async_close R ec w = (if ec = erc_aborted then w else mark_closed_and_notify_once R w)"

definition run_post_close :: "close_code \<Rightarrow> ws_world \<Rightarrow> ws_world" where
  "run_post_close reason w =
     (case begin_closing w of (w', begun) \<Rightarrow> if \<not> begun then w' else post (async_close reason) w')"

definition run_post_force :: "ws_world \<Rightarrow> ws_world" where
  "run_post_force w =
     (if ss_curState w = s_closed then w
      else post (async_close code_going_away) ((cancel_drain_timeout w)\<lparr>ss_curState := s_closing\<rparr>))"

subsection \<open>The write queue\<close>

definition adjust_message_counters :: "size_t \<Rightarrow> ws_world \<Rightarrow> ws_world" where
  "adjust_message_counters bytes w =
     w\<lparr>ss_currentQueuedBytes := ss_currentQueuedBytes w + bytes,
       ss_currentQueuedMessages := ss_currentQueuedMessages w + 1\<rparr>"

definition decrement_message_counters :: "size_t \<Rightarrow> ws_world \<Rightarrow> ws_world" where
  "decrement_message_counters bytes w =
     w\<lparr>ss_currentQueuedBytes := ss_currentQueuedBytes w - bytes,
       ss_currentQueuedMessages := ss_currentQueuedMessages w - 1\<rparr>"

definition check_message_size :: "size_t \<Rightarrow> ws_world \<Rightarrow> ws_world \<times> bool" where
  "check_message_size bytes w =
     (if ss_currentQueuedMessages w + 1 > wc_maxQueuedMessages (ss_wsConfig w) \<or>
         ss_currentQueuedBytes w + bytes > wc_maxQueuedBytes (ss_wsConfig w) then (w, False)
      else (adjust_message_counters bytes w, True))"

text \<open>\<open>remote_endpoint()\<close> throws on a socket that is no longer connected.\<close>

definition queue_overflow :: "ws_world \<Rightarrow> ws_world" where
  "queue_overflow w = (if \<not> w_connected w then w\<lparr>w_uncaught := True\<rparr> else close code_none w)"

definition do_drain_queue :: "ws_world \<Rightarrow> ws_world" where
  "do_drain_queue w =
     (if ss_writing w then w
      else case ss_writeQueue w of
          [] \<Rightarrow> close_forcefully (w\<lparr>ss_writing := False\<rparr>)
        | next_msg # _ \<Rightarrow> post (async_drain_write next_msg) (w\<lparr>ss_writing := True\<rparr>))"

definition do_write_next :: "ws_world \<Rightarrow> ws_world" where
  "do_write_next w =
     (if is_shutdown w then do_drain_queue (w\<lparr>ss_writing := False\<rparr>)
      else if \<not> is_open w then w\<lparr>ss_writeQueue := [], ss_writing := False\<rparr>
      else case ss_writeQueue w of
          [] \<Rightarrow> w\<lparr>ss_writing := False\<rparr>
        | next_msg # _ \<Rightarrow> post (async_write next_msg) (w\<lparr>ss_writing := True\<rparr>))"

definition do_enqueue_message :: "bool \<Rightarrow> string \<Rightarrow> ws_world \<Rightarrow> ws_world" where
  "do_enqueue_message isBinary message w =
     (if is_shutdown w then do_write_next w
      else if \<not> is_open w then w
      else case check_message_size (of_nat (length message)) w of (w', fits) \<Rightarrow>
        if \<not> fits then queue_overflow w'
        else let msg = \<lparr>wm_isBinary = isBinary, wm_data = message\<rparr>;
                 w' = w'\<lparr>ss_writeQueue := ss_writeQueue w' @ [msg], w_taken := w_taken w' @ [msg]\<rparr>
             in if \<not> ss_writing w' then do_write_next w' else w')"

definition pop_written :: "write_message \<Rightarrow> ws_world \<Rightarrow> ws_world" where
  "pop_written msg w =
     (if ss_writeQueue w = [] then w
      else decrement_message_counters (of_nat (length (wm_data msg))) (w\<lparr>ss_writeQueue := tl (ss_writeQueue w)\<rparr>))"

definition on_write_complete :: "ws_world ws_router option \<Rightarrow> erc \<Rightarrow> ws_world \<Rightarrow> ws_world" where
  "on_write_complete R ec w =
     (if ec \<noteq> erc_ok then mark_closed_and_notify_once R (fst (begin_closing w))
      else do_write_next (update_activity w))"

definition on_async_write :: "ws_world ws_router option \<Rightarrow> write_message \<Rightarrow> erc \<Rightarrow> ws_world \<Rightarrow> ws_world" where
  "on_async_write R msg ec w = on_write_complete R ec (if ec = erc_ok then pop_written msg w else w)"

definition on_drain_message_complete :: "erc \<Rightarrow> ws_world \<Rightarrow> ws_world" where
  "on_drain_message_complete ec w =
     (if ec \<noteq> erc_ok then close_forcefully w else do_drain_queue (w\<lparr>ss_writing := False\<rparr>))"

definition on_async_drain_write :: "write_message \<Rightarrow> erc \<Rightarrow> ws_world \<Rightarrow> ws_world" where
  "on_async_drain_write msg ec w = on_drain_message_complete ec (if ec = erc_ok then pop_written msg w else w)"

definition run_post_shutdown :: "ws_world \<Rightarrow> ws_world" where
  "run_post_shutdown w =
     (let w = cancel_idle_timer w;
          w = w\<lparr>ss_curState := s_shutdown\<rparr>;
          w = run_drain_timer 1 w
      in do_drain_queue w)"

subsection \<open>Reading and accepting\<close>

definition do_read :: "ws_world \<Rightarrow> ws_world" where
  "do_read w = (if \<not> is_open w then w else post async_read w)"

definition on_read :: "ws_world ws_router option \<Rightarrow> erc \<Rightarrow> string \<Rightarrow> ws_world \<Rightarrow> ws_world" where
  "on_read R ec data w =
     (let w = cancel_idle_timer w in
      if ec \<noteq> erc_ok then mark_closed_and_notify_once R (fst (begin_closing w))
      else let w = update_activity w;
               w = (case R of None \<Rightarrow> w | Some r \<Rightarrow> perform_all (handle_message r w data) (called (called_message data) w))
           in if is_open w then do_read (run_idle_timer w) else w)"

definition reject_handshake :: "http_status \<Rightarrow> string \<Rightarrow> ws_world \<Rightarrow> ws_world" where
  "reject_handshake st message w = post (async_reject st message) w"

text \<open>The response is written, then the socket is shut down and closed.\<close>

definition on_rejected :: "erc \<Rightarrow> ws_world \<Rightarrow> ws_world" where
  "on_rejected ec w = w\<lparr>w_connected := False, ss_curState := s_closed\<rparr>"

definition on_accept :: "ws_world ws_router option \<Rightarrow> erc \<Rightarrow> ws_world \<Rightarrow> ws_world" where
  "on_accept R ec w =
     (if ec \<noteq> erc_ok then
        let w = w\<lparr>ss_curState := s_closed\<rparr>
        in (case R of None \<Rightarrow> w | Some r \<Rightarrow> perform_all (handle_error r w ec) (called (called_error ec) w))
      else
        let w = w\<lparr>ss_curState := s_open\<rparr>;
            w = (case R of None \<Rightarrow> w | Some r \<Rightarrow> perform_all (handle_open r w) (called called_open w));
            w = (if wc_pingInterval (ss_wsConfig w) > 0 then do_heartbeat w else w)
        in do_read (run_idle_timer w))"

definition ask_router ::
  "router_call \<Rightarrow> (ws_world \<Rightarrow> accepting_decision \<times> session_call list) \<Rightarrow> ws_world \<Rightarrow> ws_world \<times> bool" where
  "ask_router c handler w =
     (case handler w of (decision, calls) \<Rightarrow>
        let w = perform_all calls (called c w) in
        if \<not> ad_accept decision
        then (reject_handshake (ad_status decision) (ad_message decision) (w\<lparr>ss_curState := s_closing\<rparr>), False)
        else (w, True))"

definition validate_handshake_request ::
  "ws_world ws_router option \<Rightarrow> erc \<Rightarrow> http_request \<Rightarrow> ws_world \<Rightarrow> ws_world \<times> bool" where
  "validate_handshake_request R ec request w =
     (if ec \<noteq> erc_ok then (on_accept R ec w, False)
      else let w = w\<lparr>ss_requestContext := rc_setHttpRequest request (ss_requestContext w)\<rparr> in
        case R of
          None \<Rightarrow> (w, True)
        | Some r \<Rightarrow>
           (case ask_router called_auth (handle_auth r) w of (w, authorized) \<Rightarrow>
              if \<not> authorized then (w, False) else ask_router called_accept (handle_accept r) w))"

definition on_http_read ::
  "ws_world ws_router option \<Rightarrow> erc \<Rightarrow> http_request \<Rightarrow> ws_world \<Rightarrow> ws_world" where
  "on_http_read R ec request w =
     (case validate_handshake_request R ec request w of (w', valid) \<Rightarrow>
        if \<not> valid then w' else post async_accept w')"

definition do_accept :: "ws_world \<Rightarrow> ws_world" where
  "do_accept w = post async_http_read (w\<lparr>ss_curState := s_opening\<rparr>)"

subsection \<open>Construction\<close>

definition setup_ws ::
  "(string \<times> 16 word) option \<Rightarrow> (string \<times> 16 word) option \<Rightarrow> 64 word \<Rightarrow> ws_world \<Rightarrow> ws_world \<times> 64 word" where
  "setup_ws remote loc counter w =
     (case rc_setTcpSocket remote loc (w_now w) counter (ss_requestContext w) of (ctx, counter') \<Rightarrow>
        (w\<lparr>ss_requestContext := ctx, w_readMax := wc_maxMessageSize (ss_wsConfig w),
           w_deflate := (w_deflate w \<or> wc_enablePerMessageDeflate (ss_wsConfig w)),
           w_pongs := (wc_pingInterval (ss_wsConfig w) > 0)\<rparr>, counter'))"

definition blank_session :: "ws_config \<Rightarrow> int \<Rightarrow> ws_world" where
  "blank_session config now = \<lparr>ss_authPrincipal = None, ss_requestContext = new_request_context,
     ss_writeQueue = [], ss_wsConfig = config, ss_currentQueuedBytes = 0, ss_currentQueuedMessages = 0,
     ss_curState = s_opening, ss_writing = False, ss_closeNotified = False, w_pending = [], w_readMax = 0,
     w_deflate = False, w_pongs = False, w_now = now, w_connected = True, w_uncaught = False, w_calls = [],
     w_taken = [], w_wrote = []\<rparr>"

definition new_session ::
  "ws_config \<Rightarrow> (string \<times> 16 word) option \<Rightarrow> (string \<times> 16 word) option \<Rightarrow> 64 word \<Rightarrow> int \<Rightarrow> ws_world \<times> 64 word" where
  "new_session config remote loc counter now = setup_ws remote loc counter (blank_session config now)"

definition ss_run :: "ws_world \<Rightarrow> ws_world" where
  "ss_run w = do_accept w"

section \<open>The session and its environment\<close>

text \<open>The handler of an outstanding operation that completes: \<open>ec\<close> is its error code, \<open>request\<close> what
  \<open>http::async_read\<close> read and \<open>data\<close> the message \<open>async_read\<close> received.  A write without error is recorded.\<close>

fun complete :: "ws_world ws_router option \<Rightarrow> ws_op \<Rightarrow> erc \<Rightarrow> http_request \<Rightarrow> string \<Rightarrow> ws_world \<Rightarrow> ws_world" where
  "complete R (post_enqueue b m) ec request data w = do_enqueue_message b m w"
| "complete R (post_close reason) ec request data w = run_post_close reason w"
| "complete R post_shutdown ec request data w = run_post_shutdown w"
| "complete R post_force ec request data w = run_post_force w"
| "complete R post_ping ec request data w = on_ping ec w"
| "complete R async_http_read ec request data w = on_http_read R ec request w"
| "complete R async_accept ec request data w = on_accept R ec w"
| "complete R async_read ec request data w = on_read R ec data w"
| "complete R (async_write m) ec request data w =
     on_async_write R m ec (if ec = erc_ok then w\<lparr>w_wrote := w_wrote w @ [m]\<rparr> else w)"
| "complete R (async_drain_write m) ec request data w =
     on_async_drain_write m ec (if ec = erc_ok then w\<lparr>w_wrote := w_wrote w @ [m]\<rparr> else w)"
| "complete R (async_close reason) ec request data w = on_async_close R ec w"
| "complete R (async_reject st msg) ec request data w = on_rejected ec w"
| "complete R (wait_idle cancelled) ec request data w = on_idle_timeout ec w"
| "complete R (wait_drain cancelled) ec request data w = on_drain_timeout ec w"
| "complete R (wait_heartbeat cancelled) ec request data w = on_heartbeat_timeout ec w"

definition take_op :: "ws_op \<Rightarrow> ws_world \<Rightarrow> ws_world" where
  "take_op op w = w\<lparr>w_pending := remove1 op (w_pending w)\<rparr>"

text \<open>The bytes on the queue, and the room that a queued message needs in the address space.\<close>

definition queued_bytes :: "write_message list \<Rightarrow> nat" where
  "queued_bytes q = sum_list (map (\<lambda>m. length (wm_data m)) q)"

fun fits_memory :: "ws_op \<Rightarrow> ws_world \<Rightarrow> bool" where
  "fits_memory (post_enqueue b m) w \<longleftrightarrow>
     length (ss_writeQueue w) + 1 < 2 ^ 64 \<and> queued_bytes (ss_writeQueue w) + length m < 2 ^ 64"
| "fits_memory _ w \<longleftrightarrow> True"

text \<open>A cancelled wait ends with \<open>operation_aborted\<close> unless the timer had already expired.\<close>

fun may_end_with :: "ws_op \<Rightarrow> erc \<Rightarrow> bool" where
  "may_end_with (wait_idle cancelled) ec \<longleftrightarrow> (if cancelled then ec = erc_aborted \<or> ec = erc_ok else ec \<noteq> erc_aborted)"
| "may_end_with (wait_drain cancelled) ec \<longleftrightarrow> (if cancelled then ec = erc_aborted \<or> ec = erc_ok else ec \<noteq> erc_aborted)"
| "may_end_with (wait_heartbeat cancelled) ec \<longleftrightarrow> (if cancelled then ec = erc_aborted \<or> ec = erc_ok else ec \<noteq> erc_aborted)"
| "may_end_with _ ec \<longleftrightarrow> True"

inductive ws_step :: "ws_world ws_router option \<Rightarrow> ws_world \<Rightarrow> ws_world \<Rightarrow> bool" for R where
  ws_complete: "op \<in> set (w_pending w) \<Longrightarrow> may_end_with op ec \<Longrightarrow> fits_memory op w \<Longrightarrow>
     ws_step R w (complete R op ec request data (take_op op w))"
| ws_public: "ws_step R w (perform c w)"
| ws_control: "w_pongs w \<Longrightarrow> async_read \<in> set (w_pending w) \<Longrightarrow> ws_step R w (on_control is_pong w)"
| ws_tick: "w_now w \<le> t \<Longrightarrow> ws_step R w (w\<lparr>w_now := t\<rparr>)"
| ws_disconnect: "ws_step R w (w\<lparr>w_connected := False\<rparr>)"

text \<open>Steps given as a sequence of events, for concrete runs.\<close>

datatype ws_event = ev_complete ws_op erc http_request string | ev_call session_call

fun run_events :: "ws_world ws_router option \<Rightarrow> ws_event list \<Rightarrow> ws_world \<Rightarrow> ws_world option" where
  "run_events R [] w = Some w"
| "run_events R (ev_complete op ec request data # es) w =
     (if op \<in> set (w_pending w) \<and> may_end_with op ec \<and> fits_memory op w
      then run_events R es (complete R op ec request data (take_op op w)) else None)"
| "run_events R (ev_call c # es) w = run_events R es (perform c w)"

definition ws_start :: "ws_config \<Rightarrow> ws_world \<Rightarrow> bool" where
  "ws_start config w \<longleftrightarrow> (\<exists>remote loc counter now. w = ss_run (fst (new_session config remote loc counter now)))"

lemma run_events_steps: "run_events R es w = Some w' \<Longrightarrow> (ws_step R)\<^sup>*\<^sup>* w w'"
proof (induction R es w rule: run_events.induct)
  case (2 R op ec request data es w)
  then show ?case
    using ws_complete [of op w ec R request data]
    by (auto split: if_splits intro: converse_rtranclp_into_rtranclp [of "ws_step R"])
next
  case (3 R c es w)
  then show ?case using ws_public [of R w c] by (auto intro: converse_rtranclp_into_rtranclp [of "ws_step R"])
qed simp

lemma run_events_reach:
  "run_events R es (ss_run (fst (new_session config remote loc counter now))) = Some w \<Longrightarrow>
     reach (ws_start config) (ws_step R) w"
  by (rule reach_steps [OF reach_start run_events_steps]) (auto simp: ws_start_def)

section \<open>Which operations touch what\<close>

fun op_write :: "ws_op \<Rightarrow> write_message multiset" where
  "op_write (async_write m) = {#m#}"
| "op_write _ = {#}"

fun op_drain :: "ws_op \<Rightarrow> write_message multiset" where
  "op_drain (async_drain_write m) = {#m#}"
| "op_drain _ = {#}"

fun op_handshake :: "ws_op \<Rightarrow> nat" where
  "op_handshake async_http_read = 1"
| "op_handshake async_accept = 1"
| "op_handshake _ = 0"

definition writes :: "ws_world \<Rightarrow> write_message multiset" where
  "writes w = sum_list (map op_write (w_pending w))"

definition drains :: "ws_world \<Rightarrow> write_message multiset" where
  "drains w = sum_list (map op_drain (w_pending w))"

definition handshakes :: "ws_world \<Rightarrow> nat" where
  "handshakes w = sum_list (map op_handshake (w_pending w))"

text \<open>The part of the world that the write queue depends on.\<close>

definition queue_part where
  "queue_part w = (writes w, drains w, handshakes w, ss_writeQueue w, ss_currentQueuedBytes w,
     ss_currentQueuedMessages w, ss_writing w, ss_wsConfig w, w_taken w, w_wrote w)"

definition quiet_op :: "ws_op \<Rightarrow> bool" where
  "quiet_op op \<longleftrightarrow> op_write op = {#} \<and> op_drain op = {#} \<and> op_handshake op = 0"

lemma quiet_op_simps [simp]:
  "quiet_op (post_enqueue b m)" "quiet_op (post_close c)" "quiet_op post_shutdown" "quiet_op post_force"
  "quiet_op post_ping" "quiet_op async_read" "quiet_op (async_close c)" "quiet_op (async_reject st t)"
  "quiet_op (wait_idle b)" "quiet_op (wait_drain b)" "quiet_op (wait_heartbeat b)"
  by (simp_all add: quiet_op_def)

lemma pending_post [simp]:
  "writes (post op w) = writes w + op_write op" "drains (post op w) = drains w + op_drain op"
  "handshakes (post op w) = handshakes w + op_handshake op"
  by (simp_all add: post_def writes_def drains_def handshakes_def)

lemma cancelled_ops [simp]:
  "op_write (cancelled_idle op) = op_write op" "op_drain (cancelled_idle op) = op_drain op"
  "op_handshake (cancelled_idle op) = op_handshake op" "op_write (cancelled_heartbeat op) = op_write op"
  "op_drain (cancelled_heartbeat op) = op_drain op" "op_handshake (cancelled_heartbeat op) = op_handshake op"
  by (cases op; simp)+

lemma queue_part_post [simp]: "quiet_op op \<Longrightarrow> queue_part (post op w) = queue_part w"
  by (simp add: queue_part_def quiet_op_def) (simp add: post_def)

lemma queue_part_quiet [simp]:
  "queue_part (cancel_idle_timer w) = queue_part w" "queue_part (cancel_drain_timeout w) = queue_part w"
  "queue_part (stop_heartbeat_timer w) = queue_part w" "queue_part (update_activity w) = queue_part w"
  "queue_part (called c w) = queue_part w" "queue_part (set_authentication_principal p w) = queue_part w"
  by (simp_all add: queue_part_def writes_def drains_def handshakes_def cancel_idle_timer_def
      cancel_drain_timeout_def stop_heartbeat_timer_def update_activity_def called_def
      set_authentication_principal_def comp_def)

lemma queue_part_fields [simp]:
  "queue_part (w\<lparr>ss_curState := st\<rparr>) = queue_part w" "queue_part (w\<lparr>ss_closeNotified := b\<rparr>) = queue_part w"
  "queue_part (w\<lparr>w_connected := b\<rparr>) = queue_part w" "queue_part (w\<lparr>w_uncaught := b\<rparr>) = queue_part w"
  "queue_part (w\<lparr>w_now := t\<rparr>) = queue_part w" "queue_part (w\<lparr>ss_requestContext := c\<rparr>) = queue_part w"
  by (simp_all add: queue_part_def writes_def drains_def handshakes_def)

lemma queue_part_calls [simp]:
  "queue_part (send_text m w) = queue_part w" "queue_part (send_binary m w) = queue_part w"
  "queue_part (close c w) = queue_part w" "queue_part (close_for_shutdown w) = queue_part w"
  "queue_part (close_forcefully w) = queue_part w"
  by (simp_all add: send_text_def send_binary_def close_def close_for_shutdown_def close_forcefully_def)

lemma queue_part_perform [simp]: "queue_part (perform c w) = queue_part w"
  by (cases c) simp_all

lemma queue_part_perform_all [simp]: "queue_part (perform_all cs w) = queue_part w"
  by (induction cs arbitrary: w) (simp_all add: perform_all_def)

end
