(* ===== verification/Ws_Session_Queue.thy ===== *)
theory Ws_Session_Queue
  imports Ws_Session
begin

text \<open>
  The write queue of a session: while the session is open the counters are exact and within the configured
  limits, at most one write is in flight and messages leave in the order they were accepted; a graceful
  shutdown flushes the queue.  A message sent just before the shutdown breaks the rule that writes do not
  overlap.
\<close>

section \<open>Operations that keep the state of the session\<close>

lemma state_post [simp]: "ss_curState (post op w) = ss_curState w"
  by (simp add: post_def)

lemma state_quiet [simp]:
  "ss_curState (cancel_idle_timer w) = ss_curState w" "ss_curState (cancel_drain_timeout w) = ss_curState w"
  "ss_curState (stop_heartbeat_timer w) = ss_curState w" "ss_curState (update_activity w) = ss_curState w"
  "ss_curState (called c w) = ss_curState w" "ss_curState (set_authentication_principal p w) = ss_curState w"
  "ss_curState (send_text m w) = ss_curState w" "ss_curState (send_binary m w) = ss_curState w"
  "ss_curState (close code w) = ss_curState w" "ss_curState (close_for_shutdown w) = ss_curState w"
  "ss_curState (close_forcefully w) = ss_curState w"
  by (simp_all add: cancel_idle_timer_def cancel_drain_timeout_def stop_heartbeat_timer_def update_activity_def
      called_def set_authentication_principal_def send_text_def send_binary_def close_def close_for_shutdown_def
      close_forcefully_def)

lemma state_perform [simp]: "ss_curState (perform c w) = ss_curState w"
  by (cases c) simp_all

lemma state_perform_all [simp]: "ss_curState (perform_all cs w) = ss_curState w"
  by (induction cs arbitrary: w) (simp_all add: perform_all_def)

lemmas timer_defs = run_idle_timer_def run_drain_timer_def run_heartbeat_timer_def do_heartbeat_next_def
  do_heartbeat_def

lemma timer_quiet [simp]:
  "queue_part (run_idle_timer w) = queue_part w" "queue_part (run_drain_timer n w) = queue_part w"
  "queue_part (run_heartbeat_timer n w) = queue_part w" "queue_part (do_heartbeat_next w) = queue_part w"
  "queue_part (do_heartbeat w) = queue_part w" "queue_part (do_read w) = queue_part w"
  "ss_curState (run_idle_timer w) = ss_curState w" "ss_curState (run_drain_timer n w) = ss_curState w"
  "ss_curState (run_heartbeat_timer n w) = ss_curState w" "ss_curState (do_heartbeat_next w) = ss_curState w"
  "ss_curState (do_heartbeat w) = ss_curState w" "ss_curState (do_read w) = ss_curState w"
  by (simp_all add: timer_defs do_read_def)

lemma mark_closed_quiet [simp]:
  "queue_part (mark_closed_and_notify_once R w) = queue_part w"
  "ss_curState (mark_closed_and_notify_once R w) = s_closed"
  by (simp_all add: mark_closed_and_notify_once_def Let_def split: option.split)

section \<open>The invariant of the queue\<close>

definition before_open where
  "before_open qp = (case qp of (ws, ds, hs, q, b, n, writing, cfg, taken, wrote) \<Rightarrow>
     ws = {#} \<and> ds = {#} \<and> q = [] \<and> b = 0 \<and> n = 0 \<and> \<not> writing \<and> taken = [] \<and> wrote = [])"

definition while_open where
  "while_open qp = (case qp of (ws, ds, hs, q, b, n, writing, cfg, taken, wrote) \<Rightarrow>
     hs = (0 :: nat) \<and> ds = {#} \<and> ws = (if writing then {#hd q#} else {#}) \<and> (writing \<longleftrightarrow> q \<noteq> []) \<and>
     b = of_nat (queued_bytes q) \<and> n = of_nat (length q) \<and>
     queued_bytes q \<le> unat (wc_maxQueuedBytes cfg) \<and> length q \<le> unat (wc_maxQueuedMessages cfg) \<and>
     taken = wrote @ q)"

definition queue_inv :: "ws_world \<Rightarrow> bool" where
  "queue_inv w \<longleftrightarrow> handshakes w \<le> 1 \<and> (handshakes w = 1 \<longrightarrow> before_open (queue_part w)) \<and>
     (is_open w \<longrightarrow> while_open (queue_part w))"

lemma handshakes_part: "queue_part w = queue_part w' \<Longrightarrow> handshakes w = handshakes w'"
  by (simp add: queue_part_def)

lemma while_open_handshakes: "while_open (queue_part w) \<Longrightarrow> handshakes w = 0"
  by (simp add: while_open_def queue_part_def)

lemma queue_inv_quiet:
  "queue_part w' = queue_part w \<Longrightarrow> (is_open w' \<Longrightarrow> is_open w) \<Longrightarrow> queue_inv w \<Longrightarrow> queue_inv w'"
  using handshakes_part [of w' w] by (auto simp: queue_inv_def)

lemma queue_inv_done: "handshakes w = 0 \<Longrightarrow> \<not> is_open w \<Longrightarrow> queue_inv w"
  by (simp add: queue_inv_def)

text \<open>An outstanding operation is taken out.\<close>

lemma take_op_pending:
  assumes "op \<in> set (w_pending w)"
  shows "writes w = op_write op + writes (take_op op w)" "drains w = op_drain op + drains (take_op op w)"
    "handshakes w = op_handshake op + handshakes (take_op op w)"
  using assms by (simp_all add: writes_def drains_def handshakes_def take_op_def sum_list_map_remove1)

lemma take_op_fields [simp]:
  "ss_writeQueue (take_op op w) = ss_writeQueue w" "ss_currentQueuedBytes (take_op op w) = ss_currentQueuedBytes w"
  "ss_currentQueuedMessages (take_op op w) = ss_currentQueuedMessages w" "ss_writing (take_op op w) = ss_writing w"
  "ss_wsConfig (take_op op w) = ss_wsConfig w" "w_taken (take_op op w) = w_taken w"
  "w_wrote (take_op op w) = w_wrote w" "ss_curState (take_op op w) = ss_curState w"
  by (simp_all add: take_op_def)

lemma take_op_quiet: "op \<in> set (w_pending w) \<Longrightarrow> quiet_op op \<Longrightarrow> queue_part (take_op op w) = queue_part w"
  using take_op_pending [of op w] by (simp add: queue_part_def quiet_op_def)

lemma queue_inv_take: "queue_inv w \<Longrightarrow> op \<in> set (w_pending w) \<Longrightarrow> quiet_op op \<Longrightarrow> queue_inv (take_op op w)"
  using queue_inv_quiet [OF take_op_quiet] by (simp add: is_open_def)

section \<open>The handlers keep it\<close>

lemma begin_closing_cases:
  obtains "begin_closing w = (w, False)" "\<not> is_open w"
  | w' where "begin_closing w = (w', True)" "\<not> is_open w'" "handshakes w' = handshakes w"
      "before_open (queue_part w) \<Longrightarrow> before_open (queue_part w')"
proof (cases "is_closing_or_closed w")
  case True
  then show ?thesis using that(1) by (auto simp: begin_closing_def is_closing_or_closed_def is_open_def)
next
  case False
  let ?c = "stop_heartbeat_timer (cancel_drain_timeout (cancel_idle_timer (w\<lparr>ss_curState := s_closing\<rparr>)))"
  let ?w = "?c\<lparr>ss_writeQueue := [], ss_currentQueuedBytes := 0, ss_currentQueuedMessages := 0, ss_writing := False\<rparr>"
  have c: "queue_part ?c = queue_part w" by simp
  have "begin_closing w = (?w, True)" using False by (simp add: begin_closing_def Let_def)
  moreover have "\<not> is_open ?w" by (simp add: is_open_def)
  moreover have "handshakes ?w = handshakes w" using handshakes_part [OF c] by (simp add: handshakes_def)
  moreover have "before_open (queue_part ?w)" if "before_open (queue_part w)"
    using c that by (simp add: before_open_def queue_part_def writes_def drains_def)
  ultimately show ?thesis by (rule that(2))
qed

lemma begin_closing_facts:
  "handshakes (fst (begin_closing w)) = handshakes w" "\<not> is_open (fst (begin_closing w))"
  by (rule begin_closing_cases [of w]; simp)+

lemma begin_closing_inv: "queue_inv w \<Longrightarrow> queue_inv (fst (begin_closing w))"
  by (rule begin_closing_cases [of w]) (auto simp: queue_inv_def)

lemma closed_inv: "queue_inv w \<Longrightarrow> queue_inv (mark_closed_and_notify_once R w)"
  by (erule queue_inv_quiet [rotated 2]) (simp_all add: is_open_def)

lemma do_drain_inv: "queue_inv w \<Longrightarrow> \<not> is_open w \<Longrightarrow> queue_inv (do_drain_queue w)"
proof (cases "handshakes w = 0")
  case True
  assume "\<not> is_open w"
  then have "\<not> is_open (do_drain_queue w)"
    by (auto simp: do_drain_queue_def is_open_def split: list.split)
  moreover have "handshakes (do_drain_queue w) = 0" using True
    by (auto simp: do_drain_queue_def close_forcefully_def split: list.split) (simp_all add: handshakes_def)
  ultimately show ?thesis by (intro queue_inv_done)
next
  case False
  assume inv: "queue_inv w" and no: "\<not> is_open w"
  then have q: "ss_writeQueue w = []" "\<not> ss_writing w" using False
    by (auto simp: queue_inv_def before_open_def queue_part_def)
  then have same: "w\<lparr>ss_writing := False\<rparr> = w" by (cases w) simp
  show ?thesis
    using q no by (intro queue_inv_quiet [OF _ _ inv]) (simp_all add: do_drain_queue_def is_open_def same)
qed

lemma do_write_next_closed: "queue_inv w \<Longrightarrow> \<not> is_open w \<Longrightarrow> queue_inv (do_write_next w)"
proof -
  assume inv: "queue_inv w" and no: "\<not> is_open w"
  have "queue_inv (w\<lparr>ss_writing := False\<rparr>)" "queue_inv (w\<lparr>ss_writeQueue := [], ss_writing := False\<rparr>)"
    using inv no by (simp_all add: queue_inv_def is_open_def before_open_def queue_part_def writes_def drains_def
        handshakes_def)
  with no show ?thesis
    using do_drain_inv [of "w\<lparr>ss_writing := False\<rparr>"] by (simp add: do_write_next_def is_open_def is_shutdown_def)
qed


lemma queued_bytes_simps [simp]:
  "queued_bytes [] = 0" "queued_bytes (m # q) = length (wm_data m) + queued_bytes q"
  "queued_bytes (q @ q') = queued_bytes q + queued_bytes q'"
  by (simp_all add: queued_bytes_def)

lemma post_fields [simp]:
  "ss_writeQueue (post op w) = ss_writeQueue w" "ss_currentQueuedBytes (post op w) = ss_currentQueuedBytes w"
  "ss_currentQueuedMessages (post op w) = ss_currentQueuedMessages w" "ss_writing (post op w) = ss_writing w"
  "ss_wsConfig (post op w) = ss_wsConfig w" "w_taken (post op w) = w_taken w" "w_wrote (post op w) = w_wrote w"
  by (simp_all add: post_def)

lemma open_fields:
  "while_open (queue_part w) \<longleftrightarrow> handshakes w = 0 \<and> drains w = {#} \<and>
     writes w = (if ss_writing w then {#hd (ss_writeQueue w)#} else {#}) \<and> (ss_writing w \<longleftrightarrow> ss_writeQueue w \<noteq> []) \<and>
     ss_currentQueuedBytes w = of_nat (queued_bytes (ss_writeQueue w)) \<and>
     ss_currentQueuedMessages w = of_nat (length (ss_writeQueue w)) \<and>
     queued_bytes (ss_writeQueue w) \<le> unat (wc_maxQueuedBytes (ss_wsConfig w)) \<and>
     length (ss_writeQueue w) \<le> unat (wc_maxQueuedMessages (ss_wsConfig w)) \<and>
     w_taken w = w_wrote w @ ss_writeQueue w"
  by (simp add: while_open_def queue_part_def)

lemma pending_fields [simp]:
  "writes (w\<lparr>ss_writing := b\<rparr>) = writes w" "drains (w\<lparr>ss_writing := b\<rparr>) = drains w"
  "handshakes (w\<lparr>ss_writing := b\<rparr>) = handshakes w" "writes (w\<lparr>ss_writeQueue := q\<rparr>) = writes w"
  "drains (w\<lparr>ss_writeQueue := q\<rparr>) = drains w" "handshakes (w\<lparr>ss_writeQueue := q\<rparr>) = handshakes w"
  "writes (w\<lparr>ss_currentQueuedBytes := x\<rparr>) = writes w" "drains (w\<lparr>ss_currentQueuedBytes := x\<rparr>) = drains w"
  "handshakes (w\<lparr>ss_currentQueuedBytes := x\<rparr>) = handshakes w"
  "writes (w\<lparr>ss_currentQueuedMessages := x\<rparr>) = writes w" "drains (w\<lparr>ss_currentQueuedMessages := x\<rparr>) = drains w"
  "handshakes (w\<lparr>ss_currentQueuedMessages := x\<rparr>) = handshakes w"
  "writes (w\<lparr>w_taken := t\<rparr>) = writes w" "drains (w\<lparr>w_taken := t\<rparr>) = drains w"
  "handshakes (w\<lparr>w_taken := t\<rparr>) = handshakes w" "writes (w\<lparr>w_wrote := t\<rparr>) = writes w"
  "drains (w\<lparr>w_wrote := t\<rparr>) = drains w" "handshakes (w\<lparr>w_wrote := t\<rparr>) = handshakes w"
  by (simp_all add: writes_def drains_def handshakes_def)

text \<open>Starting the next write establishes the invariant when nothing is in flight.\<close>

definition ready_to_write :: "ws_world \<Rightarrow> bool" where
  "ready_to_write w \<longleftrightarrow> handshakes w = 0 \<and> drains w = {#} \<and> writes w = {#} \<and>
     ss_currentQueuedBytes w = of_nat (queued_bytes (ss_writeQueue w)) \<and>
     ss_currentQueuedMessages w = of_nat (length (ss_writeQueue w)) \<and>
     queued_bytes (ss_writeQueue w) \<le> unat (wc_maxQueuedBytes (ss_wsConfig w)) \<and>
     length (ss_writeQueue w) \<le> unat (wc_maxQueuedMessages (ss_wsConfig w)) \<and>
     w_taken w = w_wrote w @ ss_writeQueue w"

lemma ready_part: "queue_part w = queue_part w' \<Longrightarrow> ready_to_write w = ready_to_write w'"
  by (simp add: queue_part_def ready_to_write_def)

lemma do_write_next_open:
  "is_open w \<Longrightarrow> ready_to_write w \<Longrightarrow> is_open (do_write_next w) \<and> while_open (queue_part (do_write_next w))"
  by (cases "ss_writeQueue w")
    (auto simp: do_write_next_def is_open_def is_shutdown_def open_fields ready_to_write_def)

lemma open_inv: "while_open (queue_part w) \<Longrightarrow> queue_inv w"
  by (simp add: queue_inv_def while_open_handshakes)

text \<open>The room test is exact because the queue fits into memory.\<close>

lemma check_message_size_fits:
  assumes "while_open (queue_part w)" "fits_memory (post_enqueue b m) w" "check_message_size (of_nat (length m)) w = (w', True)"
  shows "w' = adjust_message_counters (of_nat (length m)) w"
    "queued_bytes (ss_writeQueue w) + length m \<le> unat (wc_maxQueuedBytes (ss_wsConfig w))"
    "length (ss_writeQueue w) + 1 \<le> unat (wc_maxQueuedMessages (ss_wsConfig w))"
proof -
  let ?q = "ss_writeQueue w"
  have n: "ss_currentQueuedMessages w + 1 = of_nat (length ?q + 1)"
    and b: "ss_currentQueuedBytes w + of_nat (length m) = of_nat (queued_bytes ?q + length m)"
    using assms(1) by (simp_all add: open_fields)
  have "unat (of_nat (length ?q + 1) :: size_t) = length ?q + 1"
    "unat (of_nat (queued_bytes ?q + length m) :: size_t) = queued_bytes ?q + length m"
    using assms(2) by (intro unat_of_nat_size; simp)+
  moreover have "\<not> of_nat (length ?q + 1) > wc_maxQueuedMessages (ss_wsConfig w)"
    "\<not> of_nat (queued_bytes ?q + length m) > wc_maxQueuedBytes (ss_wsConfig w)"
    using assms(3) unfolding check_message_size_def n b by (auto split: if_splits)
  ultimately show "queued_bytes ?q + length m \<le> unat (wc_maxQueuedBytes (ss_wsConfig w))"
    "length ?q + 1 \<le> unat (wc_maxQueuedMessages (ss_wsConfig w))"
    by (simp_all add: word_less_nat_alt not_less)
  show "w' = adjust_message_counters (of_nat (length m)) w"
    using assms(3) by (simp add: check_message_size_def split: if_splits)
qed

lemma enqueue_open_inv:
  assumes o: "is_open w" and inv: "queue_inv w" and mem: "fits_memory (post_enqueue b m) w"
  shows "queue_inv (do_enqueue_message b m w)"
proof -
  obtain w1 fits where c: "check_message_size (of_nat (length m)) w = (w1, fits)" by fastforce
  have wo: "while_open (queue_part w)" using inv o by (simp add: queue_inv_def)
  show ?thesis
  proof (cases fits)
    case False
    then have "w1 = w" using c by (simp add: check_message_size_def split: if_splits)
    then have "do_enqueue_message b m w = queue_overflow w"
      using False c o by (simp add: do_enqueue_message_def is_open_def is_shutdown_def)
    then show ?thesis
      using inv by (auto simp: queue_overflow_def is_open_def intro!: queue_inv_quiet [OF _ _ inv])
  next
    case True
    with c have c': "check_message_size (of_nat (length m)) w = (w1, True)" by simp
    note room = check_message_size_fits [OF wo mem c']
    let ?m = "\<lparr>wm_isBinary = b, wm_data = m\<rparr>"
    define w2 where "w2 = w1\<lparr>ss_writeQueue := ss_writeQueue w1 @ [?m], w_taken := w_taken w1 @ [?m]\<rparr>"
    have e: "do_enqueue_message b m w = (if \<not> ss_writing w2 then do_write_next w2 else w2)"
      using True c o by (simp add: do_enqueue_message_def is_open_def is_shutdown_def w2_def Let_def)
    have o2: "is_open w2" using o by (simp add: w2_def room adjust_message_counters_def is_open_def)
    have "ss_writing w \<Longrightarrow> while_open (queue_part w2)" "\<not> ss_writing w \<Longrightarrow> ready_to_write w2"
      using wo room(2,3) by (auto simp: open_fields ready_to_write_def w2_def room(1) adjust_message_counters_def)
    moreover have "ss_writing w2 = ss_writing w" by (simp add: w2_def room adjust_message_counters_def)
    ultimately show ?thesis unfolding e using do_write_next_open [OF o2] by (auto intro: open_inv)
  qed
qed

lemma enqueue_inv:
  "queue_inv w \<Longrightarrow> fits_memory (post_enqueue b m) w \<Longrightarrow> queue_inv (do_enqueue_message b m w)"
proof (cases "is_open w")
  case False
  assume "queue_inv w"
  with False show ?thesis by (simp add: do_enqueue_message_def do_write_next_closed)
qed (rule enqueue_open_inv)

text \<open>A write completes.\<close>

lemma write_closed: "\<not> is_open w \<Longrightarrow> handshakes w = 0 \<Longrightarrow> queue_inv (on_async_write R m ec w)"
proof -
  assume no: "\<not> is_open w" and hs: "handshakes w = 0"
  let ?p = "if ec = erc_ok then pop_written m w else w"
  have "\<not> is_open ?p" "handshakes ?p = 0"
    using no hs by (simp_all add: pop_written_def decrement_message_counters_def is_open_def)
  then have "queue_inv ?p" by (rule queue_inv_done [rotated])
  moreover have "queue_inv (update_activity ?p)" "\<not> is_open (update_activity ?p)"
    using \<open>queue_inv ?p\<close> \<open>\<not> is_open ?p\<close> by (auto simp: is_open_def intro: queue_inv_quiet [of _ ?p])
  ultimately show ?thesis
    using do_write_next_closed closed_inv [OF begin_closing_inv]
    by (cases "ec = erc_ok") (simp_all add: on_async_write_def on_write_complete_def)
qed

lemma pop_ready:
  assumes "ss_writeQueue t = m # rest" "writes t = {#}" "drains t = {#}" "handshakes t = 0"
    "ss_currentQueuedBytes t = of_nat (queued_bytes (m # rest))" "ss_currentQueuedMessages t = of_nat (length (m # rest))"
    "queued_bytes (m # rest) \<le> unat (wc_maxQueuedBytes (ss_wsConfig t))"
    "length (m # rest) \<le> unat (wc_maxQueuedMessages (ss_wsConfig t))" "w_taken t = w_wrote t @ m # rest"
  shows "ready_to_write (update_activity (pop_written m (t\<lparr>w_wrote := w_wrote t @ [m]\<rparr>)))"
proof -
  let ?v = "pop_written m (t\<lparr>w_wrote := w_wrote t @ [m]\<rparr>)"
  have "ready_to_write ?v"
    using assms by (simp add: ready_to_write_def pop_written_def decrement_message_counters_def)
  then show ?thesis by (simp add: ready_part [OF queue_part_quiet(4) [of ?v]])
qed

lemma write_open:
  assumes o: "is_open w" and r: "while_open (queue_part w)" and m: "async_write m \<in> set (w_pending w)"
  shows "queue_inv (complete R (async_write m) ec request data (take_op (async_write m) w))"
proof -
  define t where "t = take_op (async_write m) w"
  have p: "writes w = {#m#} + writes t" "drains t = drains w" "handshakes t = handshakes w"
    using take_op_pending [OF m] by (simp_all add: t_def)
  then have "ss_writing w" "m = hd (ss_writeQueue w)" "ss_writeQueue w \<noteq> []" and wt: "writes t = {#}"
    using r by (auto simp: open_fields split: if_splits)
  then obtain rest where rest: "ss_writeQueue w = m # rest" by (cases "ss_writeQueue w") auto
  have ot: "is_open t" using o by (simp add: is_open_def t_def)
  have "queue_inv (complete R (async_write m) ec request data t)"
  proof (cases "ec = erc_ok")
    case True
    let ?u = "update_activity (pop_written m (t\<lparr>w_wrote := w_wrote t @ [m]\<rparr>))"
    have "ready_to_write ?u" using r rest
      by (intro pop_ready [OF _ wt]) (simp_all add: p open_fields, simp_all add: t_def)
    moreover have "is_open ?u" using ot by (simp add: is_open_def pop_written_def decrement_message_counters_def)
    ultimately have "queue_inv (do_write_next ?u)" using do_write_next_open [of ?u] open_inv by blast
    with True show ?thesis by (simp add: on_async_write_def on_write_complete_def)
  next
    case False
    have "queue_inv (fst (begin_closing t))"
      using r p(3) begin_closing_facts [of t] by (intro queue_inv_done) (simp_all add: open_fields)
    with False show ?thesis by (simp add: on_async_write_def on_write_complete_def closed_inv)
  qed
  then show ?thesis by (simp add: t_def)
qed

lemma drain_write_inv:
  assumes inv: "queue_inv w" and m: "async_drain_write m \<in> set (w_pending w)"
  shows "queue_inv (complete R (async_drain_write m) ec request data (take_op (async_drain_write m) w))"
proof -
  let ?t = "take_op (async_drain_write m) w"
  have p: "drains w = {#m#} + drains ?t" "handshakes w = handshakes ?t"
    using take_op_pending [OF m] by simp_all
  then have hs: "handshakes ?t = 0" and no: "\<not> is_open ?t"
    using inv by (auto simp: queue_inv_def while_open_def before_open_def queue_part_def is_open_def le_Suc_eq)
  let ?p = "if ec = erc_ok then pop_written m (?t\<lparr>w_wrote := w_wrote ?t @ [m]\<rparr>) else ?t"
  have "\<not> is_open ?p" "handshakes ?p = 0"
    using no hs by (simp_all add: pop_written_def decrement_message_counters_def is_open_def)
  then have "queue_inv ?p" "queue_inv (?p\<lparr>ss_writing := False\<rparr>)" "\<not> is_open (?p\<lparr>ss_writing := False\<rparr>)"
    by (auto intro: queue_inv_done simp: is_open_def)
  then show ?thesis
    using do_drain_inv [of "?p\<lparr>ss_writing := False\<rparr>"] queue_inv_quiet [of "close_forcefully ?t" ?t]
    by (cases "ec = erc_ok") (simp_all add: on_async_drain_write_def on_drain_message_complete_def is_open_def)
qed

text \<open>The handshake.\<close>

lemma ask_router_quiet:
  "queue_part (fst (ask_router c h w)) = queue_part w"
  "is_open (fst (ask_router c h w)) \<Longrightarrow> is_open w"
  by (cases "h w"; auto simp: ask_router_def reject_handshake_def Let_def is_open_def split: if_splits)+


lemma before_open_while_open: "before_open (queue_part w) \<Longrightarrow> handshakes w = 0 \<Longrightarrow> while_open (queue_part w)"
  by (simp add: before_open_def while_open_def queue_part_def)

lemma on_accept_part: "queue_part (on_accept R ec w) = queue_part w"
  by (simp add: on_accept_def Let_def split: option.split)

lemma on_accept_inv:
  assumes "handshakes w = 0" "before_open (queue_part w)"
  shows "queue_inv (on_accept R ec w)"
proof -
  have "while_open (queue_part (on_accept R ec w))"
    unfolding on_accept_part using assms by (intro before_open_while_open)
  then show ?thesis by (rule open_inv)
qed

lemma validate_quiet:
  "queue_part (fst (validate_handshake_request R ec request w)) = queue_part w"
  by (simp add: validate_handshake_request_def on_accept_part ask_router_quiet Let_def
      split: option.split prod.split) (metis ask_router_quiet(1) fst_conv queue_part_fields(6))

lemma on_accept_error: "ec \<noteq> erc_ok \<Longrightarrow> \<not> is_open (on_accept R ec w)"
  by (simp add: on_accept_def Let_def is_open_def split: option.split)

lemma validate_state:
  assumes "validate_handshake_request R ec request w = (w', valid)" "\<not> is_open w"
  shows "\<not> is_open w'"
proof (cases "ec = erc_ok")
  case False
  then show ?thesis using assms(1) on_accept_error by (auto simp: validate_handshake_request_def)
next
  case True
  let ?w = "w\<lparr>ss_requestContext := rc_setHttpRequest request (ss_requestContext w)\<rparr>"
  have no: "\<not> is_open ?w" using assms(2) by (simp add: is_open_def)
  show ?thesis
  proof (cases R)
    case None
    then have "w' = ?w" using assms(1) True by (simp add: validate_handshake_request_def Let_def)
    with no show ?thesis by simp
  next
    case (Some r)
    obtain w1 ok where a: "ask_router called_auth (handle_auth r) ?w = (w1, ok)" by fastforce
    then have "\<not> is_open w1" using ask_router_quiet(2) [of called_auth "handle_auth r" ?w] no by auto
    moreover have "w' = w1 \<or> w' = fst (ask_router called_accept (handle_accept r) w1)"
      using assms(1) True Some a by (cases ok) (simp_all add: validate_handshake_request_def Let_def)
    ultimately show ?thesis using ask_router_quiet(2) by blast
  qed
qed

lemma on_http_read_inv:
  assumes "handshakes w = 0" "before_open (queue_part w)" "\<not> is_open w"
  shows "queue_inv (on_http_read R ec request w)"
proof -
  obtain w' valid where v: "validate_handshake_request R ec request w = (w', valid)" by fastforce
  have part: "queue_part w' = queue_part w" using validate_quiet [of R ec request w] v by simp
  then have hs: "handshakes w' = 0" and b: "before_open (queue_part w')"
    using assms(1,2) handshakes_part [OF part] by simp_all
  show ?thesis
  proof (cases valid)
    case True
    then have "\<not> is_open (post async_accept w')"
      using v validate_state [of R ec request w w' valid] assms(3) by (simp add: is_open_def)
    moreover have "before_open (queue_part (post async_accept w'))"
      using b by (simp add: before_open_def queue_part_def)
    ultimately show ?thesis using True v hs by (simp add: on_http_read_def queue_inv_def)
  next
    case False
    then show ?thesis using v open_inv [OF before_open_while_open [OF b hs]] by (simp add: on_http_read_def)
  qed
qed

text \<open>Every step.\<close>

lemma quiet_complete:
  assumes "queue_inv t" "fits_memory op t" "quiet_op op"
  shows "queue_inv (complete R op ec request data t)"
proof (cases op)
  case (post_enqueue b m)
  then show ?thesis using assms enqueue_inv by simp
next
  case (post_close c)
  obtain w' begun where b: "begin_closing t = (w', begun)" by fastforce
  then have "queue_inv w'" using begin_closing_inv [OF assms(1)] by simp
  then show ?thesis
    using b post_close queue_inv_quiet [of "post (async_close c) w'" w'] by (simp add: run_post_close_def is_open_def)
next
  case post_shutdown
  let ?w = "run_drain_timer 1 ((cancel_idle_timer t)\<lparr>ss_curState := s_shutdown\<rparr>)"
  have "queue_inv ?w" by (rule queue_inv_quiet [OF _ _ assms(1)]) (simp_all add: is_open_def)
  then show ?thesis using post_shutdown do_drain_inv [of ?w] by (simp add: run_post_shutdown_def Let_def is_open_def)
next
  case async_read
  have c: "queue_inv (cancel_idle_timer t)" by (rule queue_inv_quiet [OF _ _ assms(1)]) (simp_all add: is_open_def)
  show ?thesis
  proof (cases "ec = erc_ok")
    case True
    then show ?thesis using async_read
      by (intro queue_inv_quiet [OF _ _ assms(1)])
        (auto simp: on_read_def Let_def is_open_def split: option.splits if_splits)
  next
    case False
    with async_read show ?thesis using closed_inv [OF begin_closing_inv [OF c]] by (simp add: on_read_def Let_def)
  qed
qed (use assms in \<open>auto simp: run_post_force_def on_ping_def on_async_close_def on_rejected_def
      on_idle_timeout_def on_drain_timeout_def on_heartbeat_timeout_def is_open_def closed_inv quiet_op_def
      intro!: queue_inv_quiet [OF _ _ assms(1)]\<close>)

lemma fits_memory_take: "fits_memory op w \<Longrightarrow> fits_memory op (take_op op w)"
  by (cases op) simp_all

lemma complete_inv:
  assumes inv: "queue_inv w" and op: "op \<in> set (w_pending w)" and mem: "fits_memory op w"
  shows "queue_inv (complete R op ec request data (take_op op w))"
proof (cases "quiet_op op")
  case True
  then show ?thesis using queue_inv_take [OF inv op] fits_memory_take [OF mem] by (intro quiet_complete)
next
  case False
  have hand: "handshakes (take_op op w) = 0 \<and> before_open (queue_part (take_op op w)) \<and> \<not> is_open (take_op op w)"
    if "op_handshake op = 1" "op_write op = {#}" "op_drain op = {#}"
    using inv take_op_pending [OF op] that while_open_handshakes [of w]
    by (auto simp: queue_inv_def before_open_def queue_part_def is_open_def)
  show ?thesis
  proof (cases op)
    case (async_write m)
    have t: "writes w = {#m#} + writes (take_op op w)" "handshakes w = handshakes (take_op op w)"
      using take_op_pending [OF op] async_write by simp_all
    show ?thesis
    proof (cases "is_open w")
      case True
      then show ?thesis using write_open inv op async_write by (auto simp: queue_inv_def)
    next
      case False
      have "handshakes w = 0"
        using inv t(1) by (auto simp: queue_inv_def before_open_def queue_part_def le_Suc_eq)
      with False t(2) have "\<not> is_open (take_op op w)" "handshakes (take_op op w) = 0" by (simp_all add: is_open_def)
      then show ?thesis using async_write write_closed [of "take_op op w"] write_closed [of "(take_op op w)\<lparr>w_wrote := w_wrote (take_op op w) @ [m]\<rparr>"]
        by (simp add: is_open_def)
    qed
  next
    case (async_drain_write m)
    then show ?thesis using drain_write_inv [OF inv] op by simp
  next
    case async_accept
    then show ?thesis using on_accept_inv hand by simp
  next
    case async_http_read
    then show ?thesis using on_http_read_inv hand by simp
  qed (use False in simp_all)
qed


lemma handshakes_simps [simp]: "handshakes (on_control b w) = handshakes w"
  using handshakes_part [of "on_control b w" w] by (simp add: on_control_def)

lemma step_inv: "ws_step R w w' \<Longrightarrow> queue_inv w \<Longrightarrow> queue_inv w'"
proof (induction rule: ws_step.cases)
  case (ws_complete op w ec request data)
  then show ?case using complete_inv by blast
qed (auto simp: on_control_def is_open_def intro: queue_inv_quiet [rotated 2])

lemma start_inv: "ws_start config w \<Longrightarrow> queue_inv w"
proof -
  assume "ws_start config w"
  then obtain remote loc counter now where w: "w = ss_run (fst (new_session config remote loc counter now))"
    by (auto simp: ws_start_def)
  obtain ctx c' where "rc_setTcpSocket remote loc now counter new_request_context = (ctx, c')" by fastforce
  then show ?thesis
    by (simp add: w ss_run_def do_accept_def new_session_def setup_ws_def blank_session_def queue_inv_def is_open_def
        before_open_def queue_part_def post_def writes_def drains_def handshakes_def)
qed

interpretation sq: invariant_machine "ws_start config" "ws_step R" queue_inv
  by unfold_locales (auto intro: start_inv step_inv)

section \<open>An open session\<close>

text \<open>C7: While a session is open its counters of queued messages and bytes are exact and within the
  configured limits, at most one write is in flight and it is the one at the front of the queue, nothing waits
  in an idle queue, and the messages accepted so far are those written, in order, followed by the queue.\<close>

theorem session_queue_exact:
  assumes "reach (ws_start config) (ws_step R) w" "is_open w"
  shows "unat (ss_currentQueuedMessages w) = length (ss_writeQueue w) \<and>
    length (ss_writeQueue w) \<le> unat (wc_maxQueuedMessages (ss_wsConfig w)) \<and>
    unat (ss_currentQueuedBytes w) = queued_bytes (ss_writeQueue w) \<and>
    queued_bytes (ss_writeQueue w) \<le> unat (wc_maxQueuedBytes (ss_wsConfig w)) \<and>
    writes w + drains w = (if ss_writeQueue w = [] then {#} else {#hd (ss_writeQueue w)#}) \<and>
    w_taken w = w_wrote w @ ss_writeQueue w"
proof -
  have "while_open (queue_part w)" using sq.reach_inv [OF assms(1)] assms(2) by (simp add: queue_inv_def)
  moreover have "unat (of_nat n :: size_t) = n" if "n \<le> unat (m :: size_t)" for n m
    using that unat_size_bound [of m] by (intro unat_of_nat_size) linarith
  ultimately show ?thesis by (auto simp: open_fields)
qed

definition sample_http :: http_request where
  "sample_http = \<lparr>req_target = ''/chat?room=1'', req_fields = [(''Host'', ''a''), (''Authorization'', ''t'')]\<rparr>"

definition open_events :: "ws_event list" where
  "open_events = [ev_complete async_http_read erc_ok sample_http [], ev_complete async_accept erc_ok sample_http []]"

definition sample_session :: ws_world where
  "sample_session = ss_run (fst (new_session default_ws_config (Some (''::1'', 5000)) None 1 0))"

lemmas session_eval = sample_session_def open_events_def sample_http_def ss_run_def do_accept_def new_session_def
  setup_ws_def blank_session_def rc_setTcpSocket_def next_connection_id_def new_request_context_def
  new_http_endpoint_def post_def take_op_def on_http_read_def validate_handshake_request_def on_accept_def
  do_heartbeat_def do_heartbeat_next_def run_heartbeat_timer_def stop_heartbeat_timer_def run_idle_timer_def
  cancel_idle_timer_def do_read_def is_open_def is_shutdown_def default_ws_config_def send_text_def
  do_enqueue_message_def check_message_size_def adjust_message_counters_def do_write_next_def
  close_for_shutdown_def is_closing_or_closed_def run_post_shutdown_def run_drain_timer_def do_drain_queue_def
  on_async_write_def pop_written_def decrement_message_counters_def on_write_complete_def update_activity_def
  on_async_drain_write_def on_drain_message_complete_def close_forcefully_def queued_bytes_def Let_def

lemma run_open_send:
  "\<exists>w. run_events None (open_events @ [ev_call (call_send_text ''hi''),
      ev_complete (post_enqueue False ''hi'') erc_ok sample_http []]) sample_session = Some w \<and>
    is_open w \<and> ss_writeQueue w = [\<lparr>wm_isBinary = False, wm_data = ''hi''\<rparr>]"
  by (simp add: session_eval)


theorem session_queue_exact_witness:
  "\<exists>w. is_open w \<and> ss_writeQueue w = [\<lparr>wm_isBinary = False, wm_data = ''hi''\<rparr>] \<and>
     unat (ss_currentQueuedBytes w) = 2 \<and> writes w + drains w = {#\<lparr>wm_isBinary = False, wm_data = ''hi''\<rparr>#}"
proof -
  from run_open_send obtain w where
    w: "run_events None (open_events @ [ev_call (call_send_text ''hi''),
      ev_complete (post_enqueue False ''hi'') erc_ok sample_http []]) sample_session = Some w"
      "is_open w" "ss_writeQueue w = [\<lparr>wm_isBinary = False, wm_data = ''hi''\<rparr>]" by blast
  have "reach (ws_start default_ws_config) (ws_step None) w"
    by (rule run_events_reach [OF w(1) [unfolded sample_session_def]])
  from session_queue_exact [OF this w(2)] w(2,3) show ?thesis by auto
qed

section \<open>Graceful shutdown\<close>

text \<open>The stream finishes the outstanding write without error, \<open>n\<close> times.\<close>

definition is_write_op :: "ws_op \<Rightarrow> bool" where
  "is_write_op op \<longleftrightarrow> (case op of async_write m \<Rightarrow> True | async_drain_write m \<Rightarrow> True | _ \<Rightarrow> False)"

fun finish_writes :: "ws_world ws_router option \<Rightarrow> nat \<Rightarrow> ws_world \<Rightarrow> ws_world" where
  "finish_writes R 0 w = w"
| "finish_writes R (Suc n) w =
     (case List.find is_write_op (w_pending w) of
        None \<Rightarrow> w
      | Some op \<Rightarrow> finish_writes R n (complete R op erc_ok sample_http [] (take_op op w)))"

text \<open>A session in shutdown with one write outstanding.\<close>

definition draining :: "write_message list \<Rightarrow> write_message list \<Rightarrow> ws_world \<Rightarrow> bool" where
  "draining sent q w \<longleftrightarrow> is_shutdown w \<and> ss_writeQueue w = q \<and> w_wrote w = sent \<and> ss_writing w \<and> q \<noteq> [] \<and>
     (\<exists>op. op \<in> {async_write (hd q), async_drain_write (hd q)} \<and> filter is_write_op (w_pending w) = [op])"

lemma find_filter: "filter P xs = [x] \<Longrightarrow> List.find P xs = Some x \<and> x \<in> set xs \<and> filter P (remove1 x xs) = []"
proof -
  assume a: "filter P xs = [x]"
  then have "x \<in> set (filter P xs)" by simp
  then have "x \<in> set xs" "P x" by simp_all
  moreover have "List.find P xs = Some x" using a by (induction xs) (auto split: if_splits)
  moreover have "filter P (remove1 x xs) = []" using a by (simp add: filter_remove1)
  ultimately show ?thesis by simp
qed

definition drained :: "write_message list \<Rightarrow> ws_world \<Rightarrow> bool" where
  "drained sent w \<longleftrightarrow> is_shutdown w \<and> ss_writeQueue w = [] \<and> w_wrote w = sent \<and> post_force \<in> set (w_pending w)"

lemma drain_next:
  assumes "is_shutdown u" "filter is_write_op (w_pending u) = []"
  shows "if ss_writeQueue u = [] then drained (w_wrote u) (do_drain_queue (u\<lparr>ss_writing := False\<rparr>))
     else draining (w_wrote u) (ss_writeQueue u) (do_drain_queue (u\<lparr>ss_writing := False\<rparr>))"
  using assms by (cases "ss_writeQueue u")
    (auto simp: do_drain_queue_def close_forcefully_def post_def draining_def drained_def is_shutdown_def is_write_op_def)

lemma do_drain_taken [simp]: "w_taken (do_drain_queue w) = w_taken w"
  by (simp add: do_drain_queue_def close_forcefully_def split: list.split)

lemma finish_one:
  assumes "draining sent (m # q) w"
  shows "\<exists>w'. finish_writes R (Suc n) w = finish_writes R n w' \<and> w_taken w' = w_taken w \<and>
    (if q = [] then drained (sent @ [m]) w' else draining (sent @ [m]) q w')"
proof -
  obtain op where op: "op = async_write m \<or> op = async_drain_write m" "filter is_write_op (w_pending w) = [op]"
    using assms by (auto simp: draining_def)
  note f = find_filter [OF op(2)]
  let ?p = "pop_written m ((take_op op w)\<lparr>w_wrote := w_wrote w @ [m]\<rparr>)"
  have p: "is_shutdown ?p" "filter is_write_op (w_pending ?p) = []" "ss_writeQueue ?p = q" "w_wrote ?p = sent @ [m]"
    "w_taken ?p = w_taken w"
    using assms f by (auto simp: draining_def pop_written_def decrement_message_counters_def take_op_def is_shutdown_def)
  have "\<exists>u. complete R op erc_ok sample_http [] (take_op op w) = do_drain_queue (u\<lparr>ss_writing := False\<rparr>) \<and>
      (u = ?p \<or> u = update_activity ?p)"
    using op(1) p(1)
    by (elim disjE) (simp_all add: on_async_write_def on_async_drain_write_def on_write_complete_def
        on_drain_message_complete_def do_write_next_def is_shutdown_def, blast+)
  then obtain u where u: "complete R op erc_ok sample_http [] (take_op op w) = do_drain_queue (u\<lparr>ss_writing := False\<rparr>)"
    "is_shutdown u" "filter is_write_op (w_pending u) = []" "ss_writeQueue u = q" "w_wrote u = sent @ [m]"
    "w_taken u = w_taken w" using p by (auto simp: update_activity_def is_shutdown_def)
  show ?thesis
    using drain_next [OF u(2,3)] u f
    by (intro exI [of _ "do_drain_queue (u\<lparr>ss_writing := False\<rparr>)"]) (simp split: if_splits)
qed

lemma finish_all:
  "draining sent q w \<Longrightarrow> drained (sent @ q) (finish_writes R (length q) w) \<and> w_taken (finish_writes R (length q) w) = w_taken w"
proof (induction q arbitrary: sent w)
  case (Cons m q)
  obtain w' where w': "finish_writes R (Suc (length q)) w = finish_writes R (length q) w'" "w_taken w' = w_taken w"
    "if q = [] then drained (sent @ [m]) w' else draining (sent @ [m]) q w'"
    using finish_one [OF Cons.prems, of R "length q"] by blast
  then show ?case using Cons.IH [of "sent @ [m]" w'] by (cases "q = []") simp_all
qed (simp add: draining_def)


lemma one_write_pending:
  "sum_list (map op_write ps) = (if b then {#m#} else {#}) \<Longrightarrow> sum_list (map op_drain ps) = {#} \<Longrightarrow>
     filter is_write_op ps = (if b then [async_write m] else [])"
proof (induction ps arbitrary: b)
  case (Cons p ps)
  then show ?case
  proof (cases p)
    case (async_write m')
    with Cons.prems(1) have "b" "m' = m" "sum_list (map op_write ps) = {#}" by (auto split: if_splits)
    with Cons.IH [of False] Cons.prems(2) async_write show ?thesis by (simp add: is_write_op_def)
  qed (use Cons.IH [of b] Cons.prems in \<open>simp_all add: is_write_op_def\<close>)
qed (simp split: if_splits)

lemma shutdown_drains:
  assumes "is_open w" "while_open (queue_part w)"
  shows "if ss_writeQueue w = [] then drained (w_wrote w) (run_post_shutdown w)
    else draining (w_wrote w) (ss_writeQueue w) (run_post_shutdown w)"
proof -
  define u where "u = run_drain_timer 1 ((cancel_idle_timer w)\<lparr>ss_curState := s_shutdown\<rparr>)"
  have part: "queue_part u = queue_part w" by (simp add: u_def)
  then have f: "ss_writeQueue u = ss_writeQueue w" "w_wrote u = w_wrote w" by (simp_all add: queue_part_def)
  have g: "ss_writing u \<longleftrightarrow> ss_writeQueue u \<noteq> []"
    "writes u = (if ss_writing u then {#hd (ss_writeQueue u)#} else {#})" "drains u = {#}"
    using assms(2) unfolding part [symmetric] open_fields by simp_all
  have sh: "is_shutdown u" by (simp add: u_def is_shutdown_def)
  have p: "filter is_write_op (w_pending u) = (if ss_writing u then [async_write (hd (ss_writeQueue u))] else [])"
    using g(2,3) by (intro one_write_pending) (simp_all add: writes_def drains_def)
  have r: "run_post_shutdown w = do_drain_queue u" by (simp add: run_post_shutdown_def u_def Let_def)
  show ?thesis
  proof (cases "ss_writing u")
    case True
    then show ?thesis unfolding r using f g(1) p sh by (auto simp: do_drain_queue_def draining_def)
  next
    case False
    then have same: "u\<lparr>ss_writing := False\<rparr> = u" by (cases u) simp
    have "if ss_writeQueue u = [] then drained (w_wrote u) (do_drain_queue u)
        else draining (w_wrote u) (ss_writeQueue u) (do_drain_queue u)" 
      using drain_next [OF sh, unfolded same] False p by simp
    then show ?thesis unfolding r f .
  qed
qed



section \<open>Overlapping writes\<close>

text \<open>A message that was sent while the session was open and is enqueued after the shutdown has begun
  starts a second write of the same message while the first is in flight.  When both complete, the first
  message has been written twice, the second never, and the byte counter has wrapped around.\<close>

theorem late_send_overlaps_writes:
  "\<exists>w w'. reach (ws_start default_ws_config) (ws_step None) w \<and> (ws_step None)\<^sup>*\<^sup>* w w' \<and>
     writes w = {#\<lparr>wm_isBinary = False, wm_data = ''aa''\<rparr>#} \<and> drains w = {#\<lparr>wm_isBinary = False, wm_data = ''aa''\<rparr>#} \<and>
     map wm_data (w_taken w') = [''aa'', ''b''] \<and> map wm_data (w_wrote w') = [''aa'', ''aa''] \<and>
     ss_writeQueue w' = [] \<and> ss_currentQueuedBytes w' = 18446744073709551615"
proof -
  let ?m = "\<lparr>wm_isBinary = False, wm_data = ''aa''\<rparr>"
  let ?e1 = "open_events @ [ev_call (call_send_text ''aa''), ev_call (call_send_text ''b''), ev_call (call_send_text ''c''),
      ev_complete (post_enqueue False ''aa'') erc_ok sample_http [],
      ev_complete (post_enqueue False ''b'') erc_ok sample_http [], ev_call call_close_for_shutdown,
      ev_complete post_shutdown erc_ok sample_http [], ev_complete (post_enqueue False ''c'') erc_ok sample_http []]"
  let ?e2 = "[ev_complete (async_drain_write ?m) erc_ok sample_http [], ev_complete (async_write ?m) erc_ok sample_http []]"
  have "\<exists>w w'. run_events None ?e1 sample_session = Some w \<and> run_events None ?e2 w = Some w' \<and>
     writes w = {#?m#} \<and> drains w = {#?m#} \<and>
     map wm_data (w_taken w') = [''aa'', ''b''] \<and> map wm_data (w_wrote w') = [''aa'', ''aa''] \<and>
     ss_writeQueue w' = [] \<and> ss_currentQueuedBytes w' = 18446744073709551615"
    by (simp add: session_eval writes_def drains_def)
  then obtain w w' where e1: "run_events None ?e1 sample_session = Some w" and e2: "run_events None ?e2 w = Some w'"
    and facts: "writes w = {#?m#}" "drains w = {#?m#}" "map wm_data (w_taken w') = [''aa'', ''b'']"
      "map wm_data (w_wrote w') = [''aa'', ''aa'']" "ss_writeQueue w' = []"
      "ss_currentQueuedBytes w' = 18446744073709551615" by (elim exE conjE) (rule that)
  show ?thesis
    using run_events_reach [OF e1 [unfolded sample_session_def]] run_events_steps [OF e2] facts
    by (intro exI [of _ w] exI [of _ w'] conjI)
qed

end
