(* ===== verification/Ws_Session_Life.thy ===== *)
theory Ws_Session_Life
  imports Ws_Session_Queue
begin

text \<open>
  The life of a session as its router sees it: it is told of the opening and of the closing at most once,
  and a session that opens, or delivers a message, was admitted by the router's authentication and accepting
  handlers.  What admission means is left to the user of the session, as the contract \<open>session_admission\<close>.
\<close>

section \<open>The calls to the router\<close>

definition life_part where
  "life_part w = (w_calls w, ss_closeNotified w)"

lemma life_part_quiet [simp]:
  "life_part (post op w) = life_part w" "life_part (cancel_idle_timer w) = life_part w"
  "life_part (cancel_drain_timeout w) = life_part w" "life_part (stop_heartbeat_timer w) = life_part w"
  "life_part (update_activity w) = life_part w" "life_part (set_authentication_principal p w) = life_part w"
  "life_part (send_text m w) = life_part w" "life_part (send_binary m w) = life_part w"
  "life_part (close code w) = life_part w" "life_part (close_for_shutdown w) = life_part w"
  "life_part (close_forcefully w) = life_part w" "life_part (take_op op w) = life_part w"
  by (simp_all add: life_part_def post_def cancel_idle_timer_def cancel_drain_timeout_def stop_heartbeat_timer_def
      update_activity_def set_authentication_principal_def send_text_def send_binary_def close_def
      close_for_shutdown_def close_forcefully_def take_op_def)

lemma life_part_fields [simp]:
  "life_part (w\<lparr>ss_curState := st\<rparr>) = life_part w" "life_part (w\<lparr>ss_writing := b\<rparr>) = life_part w"
  "life_part (w\<lparr>ss_writeQueue := q\<rparr>) = life_part w" "life_part (w\<lparr>ss_currentQueuedBytes := x\<rparr>) = life_part w"
  "life_part (w\<lparr>ss_currentQueuedMessages := x\<rparr>) = life_part w" "life_part (w\<lparr>w_taken := t\<rparr>) = life_part w"
  "life_part (w\<lparr>w_wrote := t\<rparr>) = life_part w" "life_part (w\<lparr>w_connected := b\<rparr>) = life_part w"
  "life_part (w\<lparr>w_uncaught := b\<rparr>) = life_part w" "life_part (w\<lparr>w_now := t'\<rparr>) = life_part w"
  "life_part (w\<lparr>ss_requestContext := c\<rparr>) = life_part w"
  by (simp_all add: life_part_def)

lemma life_part_perform [simp]: "life_part (perform c w) = life_part w"
  by (cases c) simp_all

lemma life_part_perform_all [simp]: "life_part (perform_all cs w) = life_part w"
  by (induction cs arbitrary: w) (simp_all add: perform_all_def)

lemma life_part_ops [simp]:
  "life_part (run_idle_timer w) = life_part w" "life_part (run_drain_timer n w) = life_part w"
  "life_part (run_heartbeat_timer n w) = life_part w" "life_part (do_heartbeat_next w) = life_part w"
  "life_part (do_heartbeat w) = life_part w" "life_part (do_read w) = life_part w"
  "life_part (fst (begin_closing w)) = life_part w" "life_part (do_drain_queue w) = life_part w"
  "life_part (do_write_next w) = life_part w" "life_part (pop_written m w) = life_part w"
  "life_part (do_enqueue_message b d w) = life_part w" "life_part (on_drain_message_complete ec w) = life_part w"
  "life_part (on_control b w) = life_part w"
  by (simp_all add: timer_defs do_read_def begin_closing_def Let_def do_drain_queue_def do_write_next_def
      pop_written_def decrement_message_counters_def do_enqueue_message_def check_message_size_def
      adjust_message_counters_def queue_overflow_def on_drain_message_complete_def on_control_def
      split: list.split prod.split)

section \<open>Told at most once\<close>

text \<open>The opening is announced when the last handshake operation completes.\<close>

definition life_inv :: "ws_world \<Rightarrow> bool" where
  "life_inv w \<longleftrightarrow> count_list (w_calls w) called_close = of_bool (ss_closeNotified w) \<and>
     count_list (w_calls w) called_open + handshakes w \<le> 1 \<and>
     (is_open w \<longrightarrow> count_list (w_calls w) called_open = 1)"

lemma life_inv_quiet:
  assumes "life_part w' = life_part w" "handshakes w' \<le> handshakes w" "is_open w' \<Longrightarrow> is_open w" "life_inv w"
  shows "life_inv w'"
  using assms by (auto simp: life_inv_def life_part_def)

lemma mark_closed_life:
  "life_inv w \<Longrightarrow> life_inv (mark_closed_and_notify_once (Some r) w)"
proof -
  assume l: "life_inv w"
  let ?c = "w\<lparr>ss_curState := s_closed, ss_closeNotified := True\<rparr>"
  have h: "handshakes (mark_closed_and_notify_once (Some r) w) = handshakes w"
    by (intro handshakes_part) simp
  show ?thesis
  proof (cases "ss_closeNotified w")
    case True
    then show ?thesis using l h by (simp add: mark_closed_and_notify_once_def life_inv_def is_open_def)
  next
    case False
    have "life_part (mark_closed_and_notify_once (Some r) w) = life_part (called called_close ?c)"
      using False by (simp add: mark_closed_and_notify_once_def Let_def)
    then have "w_calls (mark_closed_and_notify_once (Some r) w) = w_calls w @ [called_close]"
      "ss_closeNotified (mark_closed_and_notify_once (Some r) w)" by (simp_all add: life_part_def called_def)
    then show ?thesis using l False h by (simp add: life_inv_def is_open_def)
  qed
qed

lemma handshakes_uncaught [simp]: "handshakes (w\<lparr>w_uncaught := b\<rparr>) = handshakes w"
  by (simp add: handshakes_def)

lemma handshakes_ops [simp]:
  "handshakes (fst (begin_closing w)) = handshakes w" "handshakes (do_drain_queue w) = handshakes w"
  "handshakes (do_write_next w) = handshakes w" "handshakes (pop_written m w) = handshakes w"
  "handshakes (queue_overflow w) = handshakes w" "handshakes (update_activity w) = handshakes w"
  "handshakes (cancel_idle_timer w) = handshakes w"
  by (auto simp: begin_closing_facts do_drain_queue_def do_write_next_def close_forcefully_def pop_written_def
      decrement_message_counters_def queue_overflow_def close_def split: list.split
      intro: handshakes_part [OF queue_part_quiet(4)] handshakes_part [OF queue_part_quiet(1)])


lemma count_list_snoc [simp]: "count_list (xs @ [y]) x = count_list xs x + of_bool (x = y)"
  by simp

lemma calls_of_life: "life_part w' = life_part w \<Longrightarrow> w_calls w' = w_calls w \<and> ss_closeNotified w' = ss_closeNotified w"
  by (simp add: life_part_def)

lemma called_cong: "life_part w' = life_part w \<Longrightarrow> life_part (called c w') = life_part (called c w)"
  by (simp add: life_part_def called_def)

text \<open>A call other than the opening and the closing changes nothing.\<close>

lemma called_life:
  assumes "life_part w' = life_part (called c w)" "c \<noteq> called_open" "c \<noteq> called_close"
    "handshakes w' \<le> handshakes w" "is_open w' \<Longrightarrow> is_open w" "life_inv w"
  shows "life_inv w'"
  using assms by (auto simp: life_inv_def life_part_def called_def)

lemma begin_closing_life: "life_inv w \<Longrightarrow> life_inv (fst (begin_closing w))"
  by (erule life_inv_quiet [rotated 3]) (simp_all add: begin_closing_facts)

lemma is_open_simps [simp]:
  "is_open (post op w) = is_open w" "is_open (take_op op w) = is_open w" "is_open (update_activity w) = is_open w"
  "is_open (w\<lparr>w_wrote := t\<rparr>) = is_open w" "is_open (w\<lparr>ss_writing := b\<rparr>) = is_open w"
  "is_open (close code w) = is_open w" "is_open (close_forcefully w) = is_open w"
  "is_open (w\<lparr>ss_curState := st\<rparr>) \<longleftrightarrow> st = s_open" "is_open (w\<lparr>w_connected := b\<rparr>) = is_open w"
  "is_open (run_drain_timer n w) = is_open w"
  by (simp_all add: is_open_def)

lemma handshakes_quiet [simp]:
  "handshakes (close code w) = handshakes w" "handshakes (close_forcefully w) = handshakes w"
  "handshakes (w\<lparr>ss_curState := st\<rparr>) = handshakes w" "handshakes (w\<lparr>w_connected := b\<rparr>) = handshakes w"
  "handshakes (run_drain_timer n w) = handshakes w" "handshakes (cancel_drain_timeout w) = handshakes w"
  by (rule handshakes_part; simp)+

lemma closing_life:
  "life_inv w \<Longrightarrow> life_inv (close code w)" "life_inv w \<Longrightarrow> life_inv (close_forcefully w)"
  "life_inv w \<Longrightarrow> life_inv (on_rejected ec w)"
  by (auto simp: on_rejected_def intro: life_inv_quiet)

lemma state_of_writes:
  "is_open (do_drain_queue w) = is_open w" "is_open (do_write_next w) = is_open w"
  "is_open (pop_written m w) = is_open w" "is_open (do_enqueue_message b d w) = is_open w"
  by (auto simp: do_drain_queue_def do_write_next_def close_forcefully_def is_open_def is_shutdown_def pop_written_def
      decrement_message_counters_def do_enqueue_message_def check_message_size_def adjust_message_counters_def
      queue_overflow_def Let_def split: list.split)

lemma enqueue_handshakes [simp]: "handshakes (do_enqueue_message b d w) = handshakes w"
  by (simp add: do_enqueue_message_def check_message_size_def adjust_message_counters_def Let_def split: prod.split)

lemma read_life: "life_inv w \<Longrightarrow> life_inv (on_read (Some r) ec data w)"
proof (cases "ec = erc_ok")
  case True
  assume l: "life_inv w"
  let ?u = "update_activity (cancel_idle_timer w)"
  let ?v = "perform_all (handle_message r ?u data) (called (called_message data) ?u)"
  have "on_read (Some r) ec data w = (if is_open ?v then do_read (run_idle_timer ?v) else ?v)"
    using True by (simp add: on_read_def Let_def)
  moreover have "life_inv (if is_open ?v then do_read (run_idle_timer ?v) else ?v)"
  proof (rule called_life [OF _ _ _ _ _ l, of _ "called_message data"])
    show "handshakes (if is_open ?v then do_read (run_idle_timer ?v) else ?v) \<le> handshakes w"
      using handshakes_part [of "do_read (run_idle_timer ?v)" w] handshakes_part [of ?v w] by simp
    show "life_part (if is_open ?v then do_read (run_idle_timer ?v) else ?v) = life_part (called (called_message data) w)"
      using called_cong [of ?u w] by simp
  qed (simp_all add: is_open_def split: if_splits)
  ultimately show ?thesis by simp
next
  case False
  assume "life_inv w"
  then have "life_inv (cancel_idle_timer w)" by (rule life_inv_quiet [rotated 3]) (simp_all add: is_open_def)
  with False show ?thesis
    by (simp add: on_read_def Let_def mark_closed_life begin_closing_life)
qed

lemma on_accept_announces: "life_part (on_accept (Some r) erc_ok w) = life_part (called called_open w)"
  by (simp add: on_accept_def Let_def) (simp add: life_part_def called_def)

lemma accept_life:
  assumes "count_list (w_calls w) called_open = 0" "handshakes w = 0"
    "count_list (w_calls w) called_close = of_bool (ss_closeNotified w)"
  shows "life_inv (on_accept (Some r) ec w)"
proof -
  have h: "handshakes (on_accept (Some r) ec w) = 0" using handshakes_part [OF on_accept_part] assms(2) by simp
  show ?thesis
  proof (cases "ec = erc_ok")
    case True
    have "life_part (on_accept (Some r) ec w) = life_part (called called_open w)"
      using True on_accept_announces by simp
    with h assms show ?thesis by (auto simp: life_inv_def life_part_def called_def)
  next
    case False
    have "life_part (on_accept (Some r) ec w) = life_part (called (called_error ec) w)"
      using False by (simp add: on_accept_def Let_def) (simp add: life_part_def called_def)
    moreover have "\<not> is_open (on_accept (Some r) ec w)"
      using False by (simp add: on_accept_def Let_def is_open_def)
    ultimately show ?thesis using h assms by (auto simp: life_inv_def life_part_def called_def)
  qed
qed


lemma ask_router_life: "life_part (fst (ask_router c h w)) = life_part (called c w)"
  by (cases "h w") (simp add: ask_router_def reject_handshake_def Let_def)

lemma validate_life:
  assumes "validate_handshake_request (Some r) erc_ok request w = (w', valid)"
  shows "\<exists>cs. set cs \<subseteq> {called_auth, called_accept} \<and> w_calls w' = w_calls w @ cs \<and>
    ss_closeNotified w' = ss_closeNotified w"
proof -
  let ?w = "w\<lparr>ss_requestContext := rc_setHttpRequest request (ss_requestContext w)\<rparr>"
  obtain w1 ok where a: "ask_router called_auth (handle_auth r) ?w = (w1, ok)" by fastforce
  have 1: "w_calls w1 = w_calls w @ [called_auth]" "ss_closeNotified w1 = ss_closeNotified w"
    using ask_router_life [of called_auth "handle_auth r" ?w] a by (simp_all add: life_part_def called_def)
  show ?thesis
  proof (cases ok)
    case True
    then have "ask_router called_accept (handle_accept r) w1 = (w', valid)"
      using assms a by (simp add: validate_handshake_request_def Let_def)
    then have "w_calls w' = w_calls w @ [called_auth, called_accept]" "ss_closeNotified w' = ss_closeNotified w"
      using ask_router_life [of called_accept "handle_accept r" w1] 1 by (simp_all add: life_part_def called_def)
    then show ?thesis by (intro exI [of _ "[called_auth, called_accept]"]) simp
  next
    case False
    then have "w' = w1" using assms a by (simp add: validate_handshake_request_def Let_def)
    with 1 show ?thesis by (intro exI [of _ "[called_auth]"]) simp
  qed
qed

lemma http_read_life:
  assumes "count_list (w_calls w) called_open = 0" "handshakes w = 0" "\<not> is_open w"
    "count_list (w_calls w) called_close = of_bool (ss_closeNotified w)"
  shows "life_inv (on_http_read (Some r) ec request w)"
proof -
  obtain w' valid where v: "validate_handshake_request (Some r) ec request w = (w', valid)" by fastforce
  show ?thesis
  proof (cases "ec = erc_ok")
    case True
    obtain cs where cs: "set cs \<subseteq> {called_auth, called_accept}" "w_calls w' = w_calls w @ cs"
      "ss_closeNotified w' = ss_closeNotified w" using validate_life v True by blast
    have n: "count_list cs called_open = 0" "count_list cs called_close = 0" using cs(1) by (auto simp: count_list_0_iff)
    have h: "handshakes w' = 0" using handshakes_part [OF validate_quiet] v assms(2) by (metis fst_conv)
    have "\<not> is_open w'" using validate_state [OF v assms(3)] .
    with cs n h assms v show ?thesis
      by (simp add: on_http_read_def life_inv_def) (simp add: post_def is_open_def)
  next
    case False
    then have "on_http_read (Some r) ec request w = on_accept (Some r) ec w"
      by (simp add: on_http_read_def validate_handshake_request_def)
    with accept_life [OF assms(1,2,4)] show ?thesis by simp
  qed
qed

lemma write_life:
  assumes "life_inv t"
  shows "life_inv (complete (Some r) (async_write m) ec request data t)"
proof -
  let ?p = "if ec = erc_ok then pop_written m (t\<lparr>w_wrote := w_wrote t @ [m]\<rparr>) else t"
  have "life_inv ?p" by (rule life_inv_quiet [OF _ _ _ assms]) (simp_all add: state_of_writes split: if_splits)
  moreover have "life_inv (do_write_next (update_activity ?p))"
    by (rule life_inv_quiet [OF _ _ _ \<open>life_inv ?p\<close>]) (simp_all add: state_of_writes)
  ultimately show ?thesis
    by (cases "ec = erc_ok") (simp_all add: on_async_write_def on_write_complete_def mark_closed_life begin_closing_life)
qed

lemma quiet_life:
  assumes "life_inv t" "op = post_shutdown \<or> op = post_force \<or> (\<exists>b m. op = post_enqueue b m) \<or> (\<exists>m. op = async_drain_write m)"
  shows "life_inv (complete R op ec request data t)"
  by (rule life_inv_quiet [OF _ _ _ assms(1)])
    (use assms(2) in \<open>auto simp: state_of_writes run_post_shutdown_def Let_def on_async_drain_write_def
        on_drain_message_complete_def run_post_force_def split: if_splits\<close>)

lemma complete_life:
  assumes l: "life_inv w" and op: "op \<in> set (w_pending w)"
  shows "life_inv (complete (Some r) op ec request data (take_op op w))"
proof -
  have t: "life_inv (take_op op w)"
    using take_op_pending(3) [OF op] by (intro life_inv_quiet [OF _ _ _ l]) (simp_all add: is_open_def)
  have early: "count_list (w_calls (take_op op w)) called_open = 0 \<and> handshakes (take_op op w) = 0 \<and> \<not> is_open (take_op op w) \<and>
     count_list (w_calls (take_op op w)) called_close = of_bool (ss_closeNotified (take_op op w))" if "op_handshake op = 1"
    using l t take_op_pending(3) [OF op] that by (auto simp: life_inv_def take_op_def is_open_def)
  show ?thesis
  proof (cases op)
    case async_http_read
    then show ?thesis using early http_read_life by simp
  next
    case async_accept
    then show ?thesis using early accept_life by simp
  next
    case async_read
    then show ?thesis using read_life [OF t] by simp
  next
    case (async_write m)
    then show ?thesis using write_life [OF t] by simp
  next
    case (async_close c)
    then show ?thesis using t by (simp add: on_async_close_def mark_closed_life)
  next
    case (post_close c)
    have "life_inv (fst (begin_closing (take_op op w)))" by (rule begin_closing_life [OF t])
    then show ?thesis using post_close
      by (cases "begin_closing (take_op op w)") (auto simp: run_post_close_def is_open_def intro: life_inv_quiet [rotated 3])
  next
    case (post_enqueue b m)
    then show ?thesis using quiet_life [OF t] by blast
  next
    case (async_drain_write m)
    then show ?thesis using quiet_life [OF t] by blast
  next
    case post_shutdown
    then show ?thesis using quiet_life [OF t] by blast
  next
    case post_force
    then show ?thesis using quiet_life [OF t] by blast
  qed (use t in \<open>simp_all add: on_ping_def on_idle_timeout_def on_drain_timeout_def on_heartbeat_timeout_def
        closing_life\<close>)
qed


lemma on_control_state [simp]: "ss_curState (on_control b w) = ss_curState w"
  by (simp add: on_control_def)

lemma step_life: "ws_step (Some r) w w' \<Longrightarrow> life_inv w \<Longrightarrow> life_inv w'"
proof (induction rule: ws_step.cases)
  case (ws_complete op w ec request data)
  then show ?case using complete_life by blast
next
  case (ws_public w c)
  then show ?case using handshakes_part [of "perform c w" w] by (auto simp: is_open_def intro: life_inv_quiet)
next
  case (ws_control w b)
  then show ?case by (auto simp: is_open_def intro: life_inv_quiet)
qed (auto simp: is_open_def handshakes_def intro: life_inv_quiet)

lemma start_life: "ws_start config w \<Longrightarrow> life_inv w"
proof -
  assume "ws_start config w"
  then obtain remote loc counter now where w: "w = ss_run (fst (new_session config remote loc counter now))"
    by (auto simp: ws_start_def)
  obtain ctx c' where "rc_setTcpSocket remote loc now counter new_request_context = (ctx, c')" by fastforce
  then show ?thesis
    by (simp add: w ss_run_def do_accept_def new_session_def setup_ws_def blank_session_def life_inv_def is_open_def
        post_def handshakes_def)
qed

interpretation sl: invariant_machine "ws_start config" "ws_step (Some r)" life_inv
  by unfold_locales (auto intro: start_life step_life)

text \<open>C9: A router hears of the opening of a session at most once and of its closing at most once, whatever
  order of completions, timers, errors and concurrent calls; an open session has been announced, and the
  closing has been announced exactly when the session has marked it so.\<close>

theorem session_announced_once:
  assumes "reach (ws_start config) (ws_step (Some r)) w"
  shows "count_list (w_calls w) called_open \<le> 1 \<and> (is_open w \<longrightarrow> count_list (w_calls w) called_open = 1) \<and>
    count_list (w_calls w) called_close = (if ss_closeNotified w then 1 else 0)"
  using sl.reach_inv [OF assms] by (auto simp: life_inv_def)

theorem session_announced_once_witness:
  "\<exists>w. w_calls w = [called_auth, called_accept, called_open] \<and> is_open w \<and> count_list (w_calls w) called_close = 0"
proof -
  have "\<exists>w. run_events (Some new_router) open_events sample_session = Some w \<and> is_open w \<and>
      w_calls w = [called_auth, called_accept, called_open] \<and> \<not> ss_closeNotified w"
    by (simp add: session_eval new_router_def ask_router_def handle_auth_def handle_accept_def handle_open_def
        perform_all_def called_def)
  then obtain w where w: "run_events (Some new_router) open_events sample_session = Some w" "is_open w"
    "w_calls w = [called_auth, called_accept, called_open]" "\<not> ss_closeNotified w" by (elim exE conjE) (rule that)
  have "reach (ws_start default_ws_config) (ws_step (Some new_router)) w"
    by (rule run_events_reach [OF w(1) [unfolded sample_session_def]])
  from session_announced_once [OF this] w show ?thesis by auto
qed

section \<open>Admission\<close>

text \<open>What admission may depend on: the principal, once set, and the request.\<close>

definition http_info :: "ws_world \<Rightarrow> http_endpoint" where
  "http_info w = rc_httpInfo (ss_requestContext w)"

definition admission_le :: "ws_world \<Rightarrow> ws_world \<Rightarrow> bool" where
  "admission_le w w' \<longleftrightarrow> http_info w' = http_info w \<and> (is_authenticated w \<longrightarrow> is_authenticated w')"

text \<open>The contract between a session and the handlers of its router: a request that both handlers accept is
  \<open>granted\<close>, and stays so while the request is the same and the session stays authenticated.\<close>

locale session_admission =
  fixes config :: ws_config and r :: "ws_world ws_router" and granted :: "ws_world \<Rightarrow> bool"
  assumes validated: "validate_handshake_request (Some r) erc_ok request w = (w', True) \<Longrightarrow> granted w'"
    and stable: "granted w \<Longrightarrow> admission_le w w' \<Longrightarrow> granted w'"

text \<open>The part of the world the argument follows.\<close>

definition adm_view where
  "adm_view w = (http_info w, is_authenticated w, async_accept \<in> set (w_pending w), called_open \<in> set (w_calls w))"

definition adm_v where
  "adm_v a b = (case (a, b) of ((h, p, acc, opened), (h', p', acc', opened')) \<Rightarrow>
     h' = h \<and> (p \<longrightarrow> p') \<and> (acc' \<longrightarrow> acc) \<and> (opened' \<longrightarrow> opened))"

lemma adm_v_refl [simp]: "adm_v a a"
  by (cases a) (simp add: adm_v_def)

lemma adm_v_trans: "adm_v a b \<Longrightarrow> adm_v b c \<Longrightarrow> adm_v a c"
  by (auto simp: adm_v_def split: prod.splits)

lemma cancelled_accept [simp]:
  "cancelled_idle op = async_accept \<longleftrightarrow> op = async_accept" "async_accept = cancelled_idle op \<longleftrightarrow> op = async_accept"
  "cancelled_heartbeat op = async_accept \<longleftrightarrow> op = async_accept" "async_accept = cancelled_heartbeat op \<longleftrightarrow> op = async_accept"
  by (cases op; simp)+

lemma adm_view_quiet [simp]:
  "op \<noteq> async_accept \<Longrightarrow> adm_view (post op w) = adm_view w" "adm_view (cancel_idle_timer w) = adm_view w"
  "adm_view (cancel_drain_timeout w) = adm_view w" "adm_view (stop_heartbeat_timer w) = adm_view w"
  "adm_view (update_activity w) = adm_view w" "c \<noteq> called_open \<Longrightarrow> adm_view (called c w) = adm_view w"
  "adm_view (send_text m w) = adm_view w" "adm_view (send_binary m w) = adm_view w"
  "adm_view (close code w) = adm_view w" "adm_view (close_for_shutdown w) = adm_view w"
  "adm_view (close_forcefully w) = adm_view w"
  by (auto simp: adm_view_def post_def cancel_idle_timer_def cancel_drain_timeout_def stop_heartbeat_timer_def
      update_activity_def called_def send_text_def send_binary_def close_def close_for_shutdown_def
      close_forcefully_def http_info_def is_authenticated_def image_iff)

lemma adm_view_fields [simp]:
  "adm_view (w\<lparr>ss_curState := st\<rparr>) = adm_view w" "adm_view (w\<lparr>ss_writing := b\<rparr>) = adm_view w"
  "adm_view (w\<lparr>ss_writeQueue := q\<rparr>) = adm_view w" "adm_view (w\<lparr>ss_currentQueuedBytes := x\<rparr>) = adm_view w"
  "adm_view (w\<lparr>ss_currentQueuedMessages := x\<rparr>) = adm_view w" "adm_view (w\<lparr>w_taken := t\<rparr>) = adm_view w"
  "adm_view (w\<lparr>w_wrote := t\<rparr>) = adm_view w" "adm_view (w\<lparr>w_connected := b\<rparr>) = adm_view w"
  "adm_view (w\<lparr>w_uncaught := b\<rparr>) = adm_view w" "adm_view (w\<lparr>w_now := t'\<rparr>) = adm_view w"
  "adm_view (w\<lparr>ss_closeNotified := b\<rparr>) = adm_view w"
  by (simp_all add: adm_view_def http_info_def is_authenticated_def)

lemma adm_principal: "adm_v (adm_view w) (adm_view (set_authentication_principal p w))"
  by (simp add: adm_view_def adm_v_def set_authentication_principal_def http_info_def is_authenticated_def)

lemma adm_perform: "adm_v (adm_view w) (adm_view (perform c w))"
  by (cases c) (simp_all add: adm_principal)

lemma adm_perform_all: "adm_v a (adm_view w) \<Longrightarrow> adm_v a (adm_view (perform_all cs w))"
proof (induction cs arbitrary: w)
  case (Cons c cs)
  then show ?case using adm_v_trans [OF Cons.prems adm_perform [of w c]] by (simp add: perform_all_def)
qed (simp add: perform_all_def)

lemma adm_view_ops [simp]:
  "adm_view (run_idle_timer w) = adm_view w" "adm_view (run_drain_timer n w) = adm_view w"
  "adm_view (run_heartbeat_timer n w) = adm_view w" "adm_view (do_heartbeat_next w) = adm_view w"
  "adm_view (do_heartbeat w) = adm_view w" "adm_view (do_read w) = adm_view w"
  "adm_view (fst (begin_closing w)) = adm_view w" "adm_view (do_drain_queue w) = adm_view w"
  "adm_view (do_write_next w) = adm_view w" "adm_view (pop_written m w) = adm_view w"
  "adm_view (do_enqueue_message b d w) = adm_view w" "adm_view (on_control b w) = adm_view w"
  by (simp_all add: timer_defs do_read_def begin_closing_def Let_def do_drain_queue_def do_write_next_def
      pop_written_def decrement_message_counters_def do_enqueue_message_def check_message_size_def
      adjust_message_counters_def queue_overflow_def on_control_def split: list.split prod.split)

lemma adm_mark_closed: "adm_v a (adm_view w) \<Longrightarrow> adm_v a (adm_view (mark_closed_and_notify_once R w))"
  by (simp add: mark_closed_and_notify_once_def Let_def adm_perform_all split: option.split)

lemma adm_take: "adm_v (adm_view w) (adm_view (take_op op w))"
  using set_remove1_subset [of op "w_pending w"]
  by (auto simp: adm_view_def adm_v_def take_op_def http_info_def is_authenticated_def)

lemma adm_complete:
  assumes "adm_v a (adm_view w)" "op_handshake op = 0"
  shows "adm_v a (adm_view (complete R op ec request data w))"
proof (cases op)
  case (post_close c)
  have "adm_view (fst (begin_closing w)) = adm_view w" by simp
  then show ?thesis using assms(1) post_close
    by (cases "begin_closing w") (simp add: run_post_close_def)
qed (use assms in \<open>simp_all add: run_post_shutdown_def run_post_force_def on_ping_def on_rejected_def
      on_idle_timeout_def on_drain_timeout_def on_heartbeat_timeout_def on_async_drain_write_def
      on_drain_message_complete_def on_async_write_def on_write_complete_def on_async_close_def on_read_def Let_def
      adm_mark_closed adm_perform_all split: option.split\<close>)

lemma adm_accept:
  assumes "adm_v a (adm_view w)"
  shows "adm_v (fst a, fst (snd a), fst (snd (snd a)), True) (adm_view (on_accept R ec w))"
proof -
  have *: "adm_v (fst a, fst (snd a), fst (snd (snd a)), True) (adm_view (called c w'))"
    if "adm_view w' = adm_view w" for c w'
    using assms that by (auto simp: adm_v_def adm_view_def called_def http_info_def is_authenticated_def split: prod.splits)
  then have **: "adm_v (fst a, fst (snd a), fst (snd (snd a)), True) (adm_view w)"
    using assms by (auto simp: adm_v_def split: prod.splits)
  show ?thesis
    using * ** by (simp add: on_accept_def Let_def adm_perform_all split: option.split)
qed


lemma adm_accept_error: "ec \<noteq> erc_ok \<Longrightarrow> adm_v a (adm_view w) \<Longrightarrow> adm_v a (adm_view (on_accept R ec w))"
  by (simp add: on_accept_def Let_def adm_perform_all split: option.split)

lemma adm_ask: "c \<noteq> called_open \<Longrightarrow> adm_v a (adm_view w) \<Longrightarrow> adm_v a (adm_view (fst (ask_router c h w)))"
  by (cases "h w") (simp add: ask_router_def reject_handshake_def Let_def adm_perform_all)

definition not_announced :: "ws_world \<Rightarrow> bool" where
  "not_announced w \<longleftrightarrow> async_accept \<notin> set (w_pending w) \<and> called_open \<notin> set (w_calls w)"

lemma adm_not_announced: "adm_v (adm_view w) (adm_view w') \<Longrightarrow> not_announced w \<Longrightarrow> not_announced w'"
  by (auto simp: adm_v_def adm_view_def not_announced_def)

lemma validate_not_announced:
  assumes "not_announced w"
  shows "not_announced (fst (validate_handshake_request R ec request w))"
proof (cases "ec = erc_ok")
  case False
  then show ?thesis using adm_not_announced [OF adm_accept_error assms] by (simp add: validate_handshake_request_def)
next
  case True
  let ?w = "w\<lparr>ss_requestContext := rc_setHttpRequest request (ss_requestContext w)\<rparr>"
  have n: "not_announced ?w" using assms by (simp add: not_announced_def)
  show ?thesis
  proof (cases R)
    case None
    then show ?thesis using n True by (simp add: validate_handshake_request_def Let_def)
  next
    case (Some r)
    obtain w1 ok where a: "ask_router called_auth (handle_auth r) ?w = (w1, ok)" by fastforce
    then have "adm_v (adm_view ?w) (adm_view w1)" using adm_ask [of called_auth "adm_view ?w" ?w "handle_auth r"] by simp
    then have "not_announced w1" "not_announced (fst (ask_router called_accept (handle_accept r) w1))"
      using adm_not_announced [OF _ n] adm_ask [of called_accept "adm_view ?w" w1 "handle_accept r"] by blast+
    then show ?thesis using a Some True by (simp add: validate_handshake_request_def Let_def)
  qed
qed

lemma handshake_members: "async_accept \<in> set (w_pending w) \<Longrightarrow> 1 \<le> handshakes w"
  using take_op_pending(3) [of async_accept w] by simp

lemma http_read_not_announced:
  assumes "life_inv w" "async_http_read \<in> set (w_pending w)"
  shows "not_announced (take_op async_http_read w)"
proof -
  have "handshakes w = 1 + handshakes (take_op async_http_read w)" using take_op_pending(3) [OF assms(2)] by simp
  with assms(1) have "count_list (w_calls w) called_open = 0" "handshakes (take_op async_http_read w) = 0"
    by (auto simp: life_inv_def)
  then show ?thesis
    using handshake_members [of "take_op async_http_read w"] by (auto simp: not_announced_def count_list_0_iff take_op_def)
qed

definition adm_inv :: "(ws_world \<Rightarrow> bool) \<Rightarrow> ws_world \<Rightarrow> bool" where
  "adm_inv granted w \<longleftrightarrow> life_inv w \<and> (not_announced w \<or> granted w)"

lemma adm_le: "adm_v (adm_view w) (adm_view w') \<Longrightarrow> admission_le w w'"
  by (auto simp: adm_v_def adm_view_def admission_le_def)

context session_admission
begin

lemma adm_same: "adm_view w' = adm_view w \<Longrightarrow> not_announced w \<or> granted w \<Longrightarrow> not_announced w' \<or> granted w'"
  using adm_not_announced [of w w'] stable [of w w'] adm_le [of w w'] by (metis adm_v_refl)

lemma complete_adm:
  assumes inv: "adm_inv granted w" and op: "op \<in> set (w_pending w)"
  shows "not_announced (complete (Some r) op ec request data (take_op op w)) \<or>
    granted (complete (Some r) op ec request data (take_op op w))"
proof (cases "op_handshake op = 0")
  case True
  then have "adm_v (adm_view w) (adm_view (complete (Some r) op ec request data (take_op op w)))"
    by (intro adm_complete adm_take)
  then show ?thesis using inv adm_not_announced stable adm_le by (meson adm_inv_def)
next
  case False
  then consider "op = async_accept" | "op = async_http_read" by (cases op) auto
  then show ?thesis
  proof cases
    case 1
    then have "granted w" using inv op by (auto simp: adm_inv_def not_announced_def)
    moreover have "admission_le w (on_accept (Some r) ec (take_op op w))"
      using adm_accept [OF adm_take [of w op], of "Some r" ec]
      by (auto simp: adm_v_def adm_view_def admission_le_def)
    ultimately show ?thesis using 1 stable by auto
  next
    case 2
    let ?t = "take_op op w"
    have n: "not_announced ?t" using http_read_not_announced inv op 2 by (auto simp: adm_inv_def)
    obtain w' valid where v: "validate_handshake_request (Some r) ec request ?t = (w', valid)" by fastforce
    have "admission_le w' (post async_accept w')" by (simp add: admission_le_def http_info_def is_authenticated_def post_def)
    moreover have "ec = erc_ok" if valid using v that by (auto simp: validate_handshake_request_def split: if_splits)
    moreover have "not_announced w'" using validate_not_announced [OF n, of "Some r" ec request] v by simp
    ultimately show ?thesis
      using 2 v validated [of request ?t w'] stable [of w' "post async_accept w'"]
      by (cases valid) (simp_all add: on_http_read_def)
  qed
qed

lemma step_adm: "ws_step (Some r) w w' \<Longrightarrow> adm_inv granted w \<Longrightarrow> adm_inv granted w'"
proof -
  assume st: "ws_step (Some r) w w'" and inv: "adm_inv granted w"
  from st have "not_announced w' \<or> granted w'"
  proof cases
    case (ws_complete op ec request data)
    then show ?thesis using complete_adm [OF inv] by blast
  next
    case (ws_public c)
    then show ?thesis using adm_perform [of w c] inv adm_not_announced stable adm_le by (meson adm_inv_def)
  qed (use inv adm_same in \<open>simp_all add: adm_inv_def\<close>)
  then show ?thesis using step_life [OF st] inv by (auto simp: adm_inv_def)
qed

lemma start_adm: "ws_start config w \<Longrightarrow> adm_inv granted w"
proof -
  assume st: "ws_start config w"
  then obtain remote loc counter now where w: "w = ss_run (fst (new_session config remote loc counter now))"
    by (auto simp: ws_start_def)
  obtain ctx c' where "rc_setTcpSocket remote loc now counter new_request_context = (ctx, c')" by fastforce
  then have "not_announced w"
    by (simp add: w ss_run_def do_accept_def new_session_def setup_ws_def blank_session_def not_announced_def post_def)
  with start_life [OF st] show ?thesis by (simp add: adm_inv_def)
qed

end

sublocale session_admission < adm: invariant_machine "ws_start config" "ws_step (Some r)" "adm_inv granted"
  by unfold_locales (auto intro: start_adm step_adm)

context session_admission
begin

lemma open_granted: "reach (ws_start config) (ws_step (Some r)) w \<Longrightarrow> called_open \<in> set (w_calls w) \<Longrightarrow> granted w"
  using adm.reach_inv by (auto simp: adm_inv_def not_announced_def)

end

end
