(* ===== verification/Ws_Engine.thy ===== *)
theory Ws_Engine
  imports Ws_Session_Life
begin

text \<open>
  The acceptor and the I/O threads of the server, \<^verbatim>\<open>ws/server/WsEngine.hpp\<close>.  The \<open>io_context\<close> and the
  acceptor of the network library are represented by whether the context was stopped, whether the acceptor
  is open, and how many accept operations are outstanding on it.
\<close>

section \<open>The engine\<close>

record ws_engine =
  en_config :: ws_config
  en_port :: "16 word"
  en_acceptorOpen :: bool
  en_accepting :: nat
  en_ioStopped :: bool
  en_ioThreads :: "nat list"
  en_submitted :: "nat list"
  en_stopRequested :: bool
  en_hasExecutor :: bool
  en_clients :: "ws_world list"
  en_ids :: "64 word"

text \<open>The results of \<open>open\<close>, \<open>set_option\<close>, \<open>bind\<close> and \<open>listen\<close> are chosen by the environment; a message is
  the text of their error.\<close>

record acceptor_results =
  acc_open :: "string option"
  acc_reuse :: "string option"
  acc_bind :: "string option"
  acc_listen :: "string option"

definition init_acceptor :: "acceptor_results \<Rightarrow> 16 word \<Rightarrow> ws_engine \<Rightarrow> (string, ws_engine) result" where
  "init_acceptor res port e =
     (case acc_open res of Some msg \<Rightarrow> Inl (''Failed to open acceptor: '' @ msg)
      | None \<Rightarrow> (case acc_reuse res of Some msg \<Rightarrow> Inl (''Failed to set reuse_address option: '' @ msg)
      | None \<Rightarrow> (case acc_bind res of Some msg \<Rightarrow> Inl (''Failed to bind acceptor: '' @ msg)
      | None \<Rightarrow> (case acc_listen res of Some msg \<Rightarrow> Inl (''Failed to listen on acceptor: '' @ msg)
      | None \<Rightarrow> Inr (e\<lparr>en_acceptorOpen := True, en_port := port\<rparr>)))))"

definition engine_port :: "config \<Rightarrow> 16 word" where
  "engine_port c =
     (let port = sint (getInt c ''websocket.port'' 8080) in
      if port \<le> 0 \<or> port > 65535 then 8080 else word_of_int port)"

definition initEngine :: "acceptor_results \<Rightarrow> config \<Rightarrow> ws_engine \<Rightarrow> (string, ws_engine) result" where
  "initEngine res c e = init_acceptor res (engine_port c) e"

text \<open>\<open>m_config\<close> keeps its default values: no code loads it from the configuration.\<close>

definition new_engine :: "acceptor_results \<Rightarrow> config \<Rightarrow> bool \<Rightarrow> (string, ws_engine) result" where
  "new_engine res c has_executor =
     initEngine res c \<lparr>en_config = default_ws_config, en_port = 0, en_acceptorOpen = False, en_accepting = 0,
       en_ioStopped = False, en_ioThreads = [], en_submitted = [], en_stopRequested = False,
       en_hasExecutor = has_executor, en_clients = [], en_ids = 1\<rparr>"

section \<open>Threads\<close>

definition compute_io_thread_count :: "32 word \<Rightarrow> size_t" where
  "compute_io_thread_count hc = (let v = (if hc \<noteq> 0 then hc div 2 else 1) in ucast (max 1 v))"

text \<open>The processor a thread is bound to.\<close>

definition affinity_cpu :: "32 word \<Rightarrow> size_t \<Rightarrow> 32 word" where
  "affinity_cpu hc threadIndex = (let hc = (if hc = 0 then 1 else hc) in ucast (threadIndex mod ucast hc))"

definition run_io_threads_on_executor :: "size_t \<Rightarrow> ws_engine \<Rightarrow> ws_engine" where
  "run_io_threads_on_executor threadCount e =
     (if en_hasExecutor e then e\<lparr>en_submitted := en_submitted e @ [0..<unat threadCount]\<rparr> else e)"

definition run_io_threads_on_default_threads :: "size_t \<Rightarrow> ws_engine \<Rightarrow> ws_engine" where
  "run_io_threads_on_default_threads threadCount e = e\<lparr>en_ioThreads := en_ioThreads e @ [0..<unat threadCount]\<rparr>"

definition start_io_threads :: "32 word \<Rightarrow> ws_engine \<Rightarrow> ws_engine" where
  "start_io_threads hc e =
     (let threadCount = compute_io_thread_count hc in
      if en_hasExecutor e then run_io_threads_on_executor threadCount e
      else run_io_threads_on_default_threads threadCount e)"

definition join_io_threads :: "ws_engine \<Rightarrow> ws_engine" where
  "join_io_threads e = e\<lparr>en_ioThreads := []\<rparr>"

section \<open>Accepting\<close>

definition start_accepting :: "ws_engine \<Rightarrow> ws_engine" where
  "start_accepting e = e\<lparr>en_accepting := en_accepting e + 1\<rparr>"

definition handler_client ::
  "(string \<times> 16 word) option \<Rightarrow> (string \<times> 16 word) option \<Rightarrow> int \<Rightarrow> ws_engine \<Rightarrow> ws_engine" where
  "handler_client remote loc now e =
     (case new_session (en_config e) remote loc (en_ids e) now of (s, ids) \<Rightarrow>
        e\<lparr>en_clients := en_clients e @ [ss_run s], en_ids := ids\<rparr>)"

text \<open>The completion of an accept.\<close>

definition on_accepted ::
  "erc \<Rightarrow> (string \<times> 16 word) option \<Rightarrow> (string \<times> 16 word) option \<Rightarrow> int \<Rightarrow> ws_engine \<Rightarrow> ws_engine" where
  "on_accepted ec remote loc now e =
     (let e = e\<lparr>en_accepting := en_accepting e - 1\<rparr> in
      if en_stopRequested e then e
      else let e = (if ec \<noteq> erc_ok then e
                    else if \<not> en_stopRequested e then handler_client remote loc now e else e)
           in if \<not> en_stopRequested e then start_accepting e else e)"

definition stop_accepting :: "ws_engine \<Rightarrow> ws_engine" where
  "stop_accepting e = (let e = e\<lparr>en_stopRequested := True\<rparr> in
     if en_acceptorOpen e then e\<lparr>en_acceptorOpen := False\<rparr> else e)"

definition stop_io :: "ws_engine \<Rightarrow> ws_engine" where
  "stop_io e = e\<lparr>en_ioStopped := True\<rparr>"

definition engine_run :: "32 word \<Rightarrow> ws_engine \<Rightarrow> ws_engine" where
  "engine_run hc e = start_io_threads hc (start_accepting (e\<lparr>en_stopRequested := False\<rparr>))"

definition engine_stop_async :: "ws_engine \<Rightarrow> ws_engine" where
  "engine_stop_async e = stop_io (stop_accepting e)"

definition engine_stop :: "ws_engine \<Rightarrow> ws_engine" where
  "engine_stop e = join_io_threads (engine_stop_async e)"

definition is_stop_requested :: "ws_engine \<Rightarrow> bool" where
  "is_stop_requested e = en_stopRequested e"

text \<open>Handlers run only on an I/O thread of a context that was not stopped.\<close>

definition io_running :: "ws_engine \<Rightarrow> bool" where
  "io_running e \<longleftrightarrow> \<not> en_ioStopped e \<and> (en_ioThreads e \<noteq> [] \<or> en_submitted e \<noteq> [])"

inductive engine_step :: "ws_engine \<Rightarrow> ws_engine \<Rightarrow> bool" where
  en_accepted: "0 < en_accepting e \<Longrightarrow> io_running e \<Longrightarrow> ec = erc_ok \<longrightarrow> en_acceptorOpen e \<Longrightarrow>
     engine_step e (on_accepted ec remote loc now e)"
| en_stop_accepting: "engine_step e (stop_accepting e)"
| en_stop_io: "engine_step e (stop_io e)"
| en_join: "en_ioStopped e \<Longrightarrow> engine_step e (join_io_threads e)"

section \<open>Accepting goes on until it is stopped\<close>

definition engine_inv :: "ws_engine \<Rightarrow> bool" where
  "engine_inv e \<longleftrightarrow> en_accepting e \<le> 1 \<and> (\<not> en_stopRequested e \<longrightarrow> en_accepting e = 1 \<and> en_acceptorOpen e) \<and>
     (\<forall>s \<in> set (en_clients e). handshakes s = 1 \<and> ss_curState s = s_opening)"

definition engine_start :: "ws_engine \<Rightarrow> bool" where
  "engine_start e \<longleftrightarrow> (\<exists>res c has hc e0. new_engine res c has = Inr e0 \<and> e = engine_run hc e0)"

lemma new_session_opening:
  "handshakes (ss_run (fst (new_session config remote loc ids now))) = 1 \<and>
   ss_curState (ss_run (fst (new_session config remote loc ids now))) = s_opening"
proof -
  obtain ctx c' where "rc_setTcpSocket remote loc now ids new_request_context = (ctx, c')" by fastforce
  then show ?thesis
    by (simp add: ss_run_def do_accept_def new_session_def setup_ws_def blank_session_def post_def handshakes_def)
qed

lemma handler_client_fields:
  "en_accepting (handler_client remote loc now e) = en_accepting e"
  "en_stopRequested (handler_client remote loc now e) = en_stopRequested e"
  "en_acceptorOpen (handler_client remote loc now e) = en_acceptorOpen e"
  "set (en_clients (handler_client remote loc now e)) =
     insert (ss_run (fst (new_session (en_config e) remote loc (en_ids e) now))) (set (en_clients e))"
  by (simp_all add: handler_client_def split: prod.split)

lemma on_accepted_inv: "engine_inv e \<Longrightarrow> 0 < en_accepting e \<Longrightarrow> engine_inv (on_accepted ec remote loc now e)"
  by (auto simp: engine_inv_def on_accepted_def Let_def handler_client_fields new_session_opening start_accepting_def)

lemma engine_run_fields:
  "en_accepting (engine_run hc e) = en_accepting e + 1" "\<not> en_stopRequested (engine_run hc e)"
  "en_acceptorOpen (engine_run hc e) = en_acceptorOpen e" "en_clients (engine_run hc e) = en_clients e"
  "en_port (engine_run hc e) = en_port e" "en_ioStopped (engine_run hc e) = en_ioStopped e"
  by (simp_all add: engine_run_def start_io_threads_def run_io_threads_on_executor_def
      run_io_threads_on_default_threads_def start_accepting_def Let_def)

lemma new_engine_Inr:
  assumes "new_engine res c has = Inr e"
  shows "en_accepting e = 0" "en_acceptorOpen e" "en_clients e = []" "en_port e = engine_port c" "\<not> en_ioStopped e"
    "en_config e = default_ws_config"
  using assms by (auto simp: new_engine_def initEngine_def init_acceptor_def split: option.splits)

interpretation engine: invariant_machine engine_start engine_step engine_inv
proof
  fix e assume "engine_start e"
  then show "engine_inv e" by (auto simp: engine_start_def engine_inv_def engine_run_fields new_engine_Inr)
next
  fix e e' assume inv: "engine_inv e" and "engine_step e e'"
  from this(2) show "engine_inv e'"
  proof cases
    case (en_accepted ec remote loc now)
    then show ?thesis using on_accepted_inv [OF inv] by simp
  qed (use inv in \<open>auto simp: engine_inv_def stop_accepting_def stop_io_def join_io_threads_def Let_def\<close>)
qed

lemma word_of_int_sint_scast: "(scast (w :: 32 word) :: 16 word) = word_of_int (sint w)"
  by simp

lemma engine_port_range: "engine_port c \<noteq> 0"
proof -
  have "(word_of_int i :: 16 word) \<noteq> 0" if "0 < i" "i \<le> 65535" for i
    using that by (simp add: word_of_int_eq_0_iff) (simp add: zdvd_not_zless)
  then have "(scast w :: 16 word) \<noteq> 0" if "0 < sint w" "sint w \<le> 65535" for w :: "32 word"
    using that by (metis word_of_int_sint_scast)
  then show ?thesis by (auto simp: engine_port_def Let_def)
qed

lemma thread_count_bounds: "1 \<le> unat (compute_io_thread_count hc) \<and> unat (compute_io_thread_count hc) \<le> max 1 (unat hc div 2)"
proof -
  have small: "unat (ucast v :: size_t) = unat v" for v :: "32 word"
  proof -
    have "unat v < 2 ^ LENGTH(32)" by (rule unsigned_less)
    then show ?thesis by (simp add: unsigned_ucast_eq take_bit_nat_eq_self)
  qed
  have "unat (compute_io_thread_count hc) = unat (max 1 (if hc \<noteq> 0 then hc div 2 else 1))"
    unfolding compute_io_thread_count_def Let_def by (rule small)
  moreover have "unat (max a b) = max (unat a) (unat b)" for a b :: "32 word"
    by (simp add: max_def word_le_nat_alt)
  ultimately show ?thesis by (simp add: unat_div)
qed


text \<open>C39: From \<open>run\<close> until a stop is requested the engine has exactly one accept outstanding on an open
  acceptor, whether or not the earlier ones failed, so a connection attempt always meets an accept; after the
  stop request no further accept is started; the port is never 0, at least one I/O thread is started, and
  every accepted connection has started its handshake.\<close>

theorem engine_accepts_until_stopped:
  assumes "reach engine_start engine_step e"
  shows "(en_accepting e = 1 \<and> en_acceptorOpen e \<or> en_stopRequested e \<and> en_accepting e \<le> 1) \<and>
    (\<forall>s \<in> set (en_clients e). handshakes s = 1 \<and> ss_curState s = s_opening) \<and>
    engine_port c \<noteq> 0 \<and> 1 \<le> unat (compute_io_thread_count hc)"
  using engine.reach_inv [OF assms] engine_port_range thread_count_bounds [of hc] by (auto simp: engine_inv_def)

definition sample_engine :: ws_engine where
  "sample_engine = engine_run 8 (case new_engine \<lparr>acc_open = None, acc_reuse = None, acc_bind = None, acc_listen = None\<rparr>
     new_config False of Inr e \<Rightarrow> e)"

theorem engine_accepts_until_stopped_witness:
  "\<exists>e :: ws_engine. en_accepting e = 1 \<and> en_acceptorOpen e \<and> length (en_clients e) = 1 \<and> length (en_ioThreads e) = 4 \<and> engine_port new_config = 8080"
proof -
  let ?res = "\<lparr>acc_open = None, acc_reuse = None, acc_bind = None, acc_listen = None\<rparr>"
  obtain e0 where e0: "new_engine ?res new_config False = Inr e0"
    by (simp add: new_engine_def initEngine_def init_acceptor_def)
  then have e: "sample_engine = engine_run 8 e0" by (simp add: sample_engine_def)
  have "engine_start sample_engine" unfolding engine_start_def by (intro exI conjI) (rule e0, rule e)
  then have r: "reach engine_start engine_step sample_engine" by (rule reach_start)
  have eval: "compute_io_thread_count 8 = 4" by code_simp
  have run: "en_accepting sample_engine = 1" "en_acceptorOpen sample_engine" "io_running sample_engine"
    "length (en_ioThreads sample_engine) = 4" "\<not> en_stopRequested sample_engine" "en_clients sample_engine = []"
    using e0 by (auto simp: e engine_run_fields new_engine_Inr io_running_def engine_run_def start_io_threads_def
        run_io_threads_on_default_threads_def start_accepting_def Let_def eval new_engine_def initEngine_def
        init_acceptor_def)
  let ?e = "on_accepted erc_ok None None 0 sample_engine"
  have "engine_step sample_engine ?e" using run by (intro en_accepted) auto
  from engine_accepts_until_stopped [OF reach_step [OF r this]]
  have "en_accepting ?e = 1 \<and> en_acceptorOpen ?e \<or> en_stopRequested ?e \<and> en_accepting ?e \<le> 1" by blast
  moreover have "length (en_clients ?e) = 1 \<and> length (en_ioThreads ?e) = 4 \<and> \<not> en_stopRequested ?e"
    using run by (simp add: on_accepted_def Let_def handler_client_def start_accepting_def split: prod.split)
  moreover have "engine_port new_config = 8080"
    by (simp add: engine_port_def getInt_def findNode_def new_config_def Let_def)
  ultimately show ?thesis by blast
qed

end
