(* ===== verification/Ws_Server.thy ===== *)
theory Ws_Server
  imports Ws_Engine
begin

text \<open>
  The server object, \<^verbatim>\<open>ws/server/WsServer.hpp\<close>: the user's handlers and the router built from them, the
  registry of sessions, starting, stopping and broadcasting.  The registry holds weak pointers: an entry is
  the number of a session, and which sessions are still alive is given by the environment.
\<close>

section \<open>The server\<close>

datatype server_state = sv_init | sv_running | sv_stopping | sv_stopped

record ws_server =
  sv_coreConfig :: config
  sv_engine :: ws_engine
  sv_sessions :: "nat list"
  sv_usrOnMessage :: "(ws_world \<Rightarrow> string \<Rightarrow> session_call list) option"
  sv_usrOnClose :: "(ws_world \<Rightarrow> session_call list) option"
  sv_usrOnError :: "(ws_world \<Rightarrow> erc \<Rightarrow> session_call list) option"
  sv_usrOnOpen :: "(ws_world \<Rightarrow> session_call list) option"
  sv_usrOnAcpt :: "(ws_world \<Rightarrow> accepting_decision \<times> session_call list) option"
  sv_usrOnProtoErr :: "(ws_world \<Rightarrow> string \<Rightarrow> session_call list) option"
  sv_usrOnAuth :: "(ws_world \<Rightarrow> accepting_decision \<times> session_call list) option"
  sv_usrOnTyped :: "(ws_world \<Rightarrow> json_message \<Rightarrow> session_call list) option"
  sv_stopWait :: bool
  sv_serverState :: server_state

definition new_server :: "acceptor_results \<Rightarrow> config \<Rightarrow> bool \<Rightarrow> (string, ws_server) result" where
  "new_server res c has_executor =
     (case new_engine res c has_executor of
        Inl e \<Rightarrow> Inl e
      | Inr engine \<Rightarrow> Inr \<lparr>sv_coreConfig = c, sv_engine = engine, sv_sessions = [], sv_usrOnMessage = None,
          sv_usrOnClose = None, sv_usrOnError = None, sv_usrOnOpen = None, sv_usrOnAcpt = None,
          sv_usrOnProtoErr = None, sv_usrOnAuth = None, sv_usrOnTyped = None, sv_stopWait = False,
          sv_serverState = sv_init\<rparr>)"

text \<open>A null handler is refused.\<close>

definition server_on_message where
  "server_on_message h sv = (case h of None \<Rightarrow> sv | Some f \<Rightarrow> sv\<lparr>sv_usrOnMessage := Some f\<rparr>)"

definition server_on_close where
  "server_on_close h sv = (case h of None \<Rightarrow> sv | Some f \<Rightarrow> sv\<lparr>sv_usrOnClose := Some f\<rparr>)"

definition server_on_error where
  "server_on_error h sv = (case h of None \<Rightarrow> sv | Some f \<Rightarrow> sv\<lparr>sv_usrOnError := Some f\<rparr>)"

definition server_on_protocol_error where
  "server_on_protocol_error h sv = (case h of None \<Rightarrow> sv | Some f \<Rightarrow> sv\<lparr>sv_usrOnProtoErr := Some f\<rparr>)"

definition server_on_open where
  "server_on_open h sv = (case h of None \<Rightarrow> sv | Some f \<Rightarrow> sv\<lparr>sv_usrOnOpen := Some f\<rparr>)"

definition server_on_accept where
  "server_on_accept h sv = (case h of None \<Rightarrow> sv | Some f \<Rightarrow> sv\<lparr>sv_usrOnAcpt := Some f\<rparr>)"

definition server_on_typed_message where
  "server_on_typed_message h sv = (case h of None \<Rightarrow> sv | Some f \<Rightarrow> sv\<lparr>sv_usrOnTyped := Some f\<rparr>)"

definition server_on_auth where
  "server_on_auth h sv = (case h of None \<Rightarrow> sv | Some f \<Rightarrow> sv\<lparr>sv_usrOnAuth := Some f\<rparr>)"

section \<open>The router\<close>

text \<open>The handlers the server installs; registering and unregistering the session is below, what a handler
  asks of the session is its list of calls.  \<open>parse\<close> is the JSON parser.\<close>

definition sv_accept_handler :: "ws_server \<Rightarrow> ws_world \<Rightarrow> accepting_decision \<times> session_call list" where
  "sv_accept_handler sv s = (case sv_usrOnAcpt sv of Some h \<Rightarrow> h s | None \<Rightarrow> (default_accept [], []))"

definition sv_auth_handler :: "ws_server \<Rightarrow> ws_world \<Rightarrow> accepting_decision \<times> session_call list" where
  "sv_auth_handler sv s = (case sv_usrOnAuth sv of Some h \<Rightarrow> h s | None \<Rightarrow> (default_accept [], []))"

definition sv_close_handler :: "ws_server \<Rightarrow> ws_world \<Rightarrow> session_call list" where
  "sv_close_handler sv s = (case sv_usrOnClose sv of Some h \<Rightarrow> h s | None \<Rightarrow> [])"

definition sv_open_handler :: "ws_server \<Rightarrow> ws_world \<Rightarrow> session_call list" where
  "sv_open_handler sv s = (case sv_usrOnOpen sv of Some h \<Rightarrow> h s | None \<Rightarrow> [])"

definition sv_error_handler :: "ws_server \<Rightarrow> ws_world \<Rightarrow> erc \<Rightarrow> session_call list" where
  "sv_error_handler sv s ec = (case sv_usrOnError sv of Some h \<Rightarrow> h s ec | None \<Rightarrow> [])"

definition sv_protocol_error_handler :: "ws_server \<Rightarrow> ws_world \<Rightarrow> string \<Rightarrow> session_call list" where
  "sv_protocol_error_handler sv s msg = (case sv_usrOnProtoErr sv of Some h \<Rightarrow> h s msg | None \<Rightarrow> [])"

definition sv_message_handler ::
  "(string \<Rightarrow> json option) \<Rightarrow> ws_server \<Rightarrow> ws_world \<Rightarrow> string \<Rightarrow> session_call list" where
  "sv_message_handler parse sv s payload =
     (case sv_usrOnMessage sv of Some h \<Rightarrow> h s payload | None \<Rightarrow> []) @
     (case string_to_message parse payload of
        None \<Rightarrow> sv_protocol_error_handler sv s ''Failed to parse protocol message''
      | Some m \<Rightarrow> (case sv_usrOnTyped sv of Some h \<Rightarrow> h s m | None \<Rightarrow> []))"

definition setup_handlers_for_router :: "(string \<Rightarrow> json option) \<Rightarrow> ws_server \<Rightarrow> ws_world ws_router" where
  "setup_handlers_for_router parse sv =
     router_on_auth (sv_auth_handler sv)
     (router_on_protocol_error (sv_protocol_error_handler sv)
     (router_on_error (sv_error_handler sv)
     (router_on_message (sv_message_handler parse sv)
     (router_on_open (sv_open_handler sv)
     (router_on_close (sv_close_handler sv)
     (router_on_accept (sv_accept_handler sv) new_router))))))"

lemma handle_server:
  "handle_auth (setup_handlers_for_router parse sv) = sv_auth_handler sv"
  "handle_accept (setup_handlers_for_router parse sv) = sv_accept_handler sv"
  "handle_message (setup_handlers_for_router parse sv) = sv_message_handler parse sv"
  "handle_open (setup_handlers_for_router parse sv) = sv_open_handler sv"
  "handle_close (setup_handlers_for_router parse sv) = sv_close_handler sv"
  "handle_error (setup_handlers_for_router parse sv) = sv_error_handler sv"
  "handle_protocol_error (setup_handlers_for_router parse sv) = sv_protocol_error_handler sv"
  by (auto simp: setup_handlers_for_router_def router_on_auth_def router_on_protocol_error_def router_on_error_def
      router_on_message_def router_on_open_def router_on_close_def router_on_accept_def handle_auth_def
      handle_accept_def handle_message_def handle_open_def handle_close_def handle_error_def
      handle_protocol_error_def fun_eq_iff)

section \<open>The registry\<close>

definition register_session :: "nat \<Rightarrow> ws_server \<Rightarrow> ws_server" where
  "register_session i sv = sv\<lparr>sv_sessions := sv_sessions sv @ [i]\<rparr>"

definition unregister_session :: "nat set \<Rightarrow> nat \<Rightarrow> ws_server \<Rightarrow> ws_server" where
  "unregister_session alive i sv = sv\<lparr>sv_sessions := filter (\<lambda>j. \<not> (j \<notin> alive \<or> j = i)) (sv_sessions sv)\<rparr>"

definition remove_invalid_sessions_unlocked :: "nat set \<Rightarrow> ws_server \<Rightarrow> ws_server" where
  "remove_invalid_sessions_unlocked alive sv = sv\<lparr>sv_sessions := filter (\<lambda>j. j \<in> alive) (sv_sessions sv)\<rparr>"

definition get_live_sessions :: "nat set \<Rightarrow> ws_server \<Rightarrow> ws_server \<times> nat list" where
  "get_live_sessions alive sv =
     (let sv = remove_invalid_sessions_unlocked alive sv
      in (sv, filter (\<lambda>j. j \<in> alive) (sv_sessions sv)))"

definition server_is_running :: "ws_server \<Rightarrow> bool" where
  "server_is_running sv \<longleftrightarrow> sv_serverState sv = sv_running"

text \<open>A broadcast sends to every registered session that is alive, given by its world.\<close>

definition broadcast :: "(ws_world \<Rightarrow> ws_world) \<Rightarrow> ws_server \<Rightarrow> (nat \<rightharpoonup> ws_world) \<Rightarrow> ws_server \<times> (nat \<rightharpoonup> ws_world)" where
  "broadcast send sv worlds =
     (if \<not> server_is_running sv then (sv, worlds)
      else let sv = remove_invalid_sessions_unlocked (dom worlds) sv
           in (sv, fold (\<lambda>i ws. case ws i of None \<Rightarrow> ws | Some w \<Rightarrow> ws(i \<mapsto> send w)) (sv_sessions sv) worlds))"

definition broadcast_text :: "string \<Rightarrow> ws_server \<Rightarrow> (nat \<rightharpoonup> ws_world) \<Rightarrow> ws_server \<times> (nat \<rightharpoonup> ws_world)" where
  "broadcast_text text = broadcast (send_text text)"

definition broadcast_binary :: "string \<Rightarrow> ws_server \<Rightarrow> (nat \<rightharpoonup> ws_world) \<Rightarrow> ws_server \<times> (nat \<rightharpoonup> ws_world)" where
  "broadcast_binary data = broadcast (send_binary data)"

definition broadcast_json ::
  "(json \<Rightarrow> string) \<Rightarrow> json \<Rightarrow> ws_server \<Rightarrow> (nat \<rightharpoonup> ws_world) \<Rightarrow> ws_server \<times> (nat \<rightharpoonup> ws_world)" where
  "broadcast_json dump j = broadcast_text (dump j)"

definition broadcast_message ::
  "(json \<Rightarrow> string) \<Rightarrow> json_message \<Rightarrow> ws_server \<Rightarrow> (nat \<rightharpoonup> ws_world) \<Rightarrow> ws_server \<times> (nat \<rightharpoonup> ws_world)" where
  "broadcast_message dump m = broadcast_text (dump (message_to_json m))"

section \<open>Starting and stopping\<close>

definition server_port :: "config \<Rightarrow> 16 word" where
  "server_port c = ucast (getInt c ''websocket.port'' 9090)"

definition server_start :: "32 word \<Rightarrow> ws_server \<Rightarrow> ws_server" where
  "server_start hc sv =
     (if sv_serverState sv = sv_running then sv
      else let sv = sv\<lparr>sv_engine := engine_run hc (sv_engine sv)\<rparr> in sv\<lparr>sv_serverState := sv_running\<rparr>)"

definition stop_begin :: "ws_server \<Rightarrow> ws_server option" where
  "stop_begin sv =
     (if sv_serverState sv = sv_stopping \<or> sv_serverState sv = sv_stopped then None
      else let sv = sv\<lparr>sv_serverState := sv_stopping\<rparr>
           in Some (sv\<lparr>sv_engine := stop_accepting (sv_engine sv)\<rparr>))"

definition stop_end :: "ws_server \<Rightarrow> ws_server" where
  "stop_end sv =
     (let sv = sv\<lparr>sv_engine := stop_io (sv_engine sv)\<rparr>;
          sv = sv\<lparr>sv_engine := join_io_threads (sv_engine sv)\<rparr>
      in sv\<lparr>sv_serverState := sv_stopped\<rparr>)"

text \<open>\<open>start_blocking\<close> looks at the engine once a second; \<open>seen\<close> are the states of the engine it finds, and the answer is
  after how many looks it returned.\<close>

fun blocking_polls :: "ws_engine list \<Rightarrow> nat option" where
  "blocking_polls [] = None"
| "blocking_polls (e # seen) = (if is_stop_requested e then Some 0 else map_option Suc (blocking_polls seen))"

definition start_blocking :: "32 word \<Rightarrow> ws_engine list \<Rightarrow> ws_server \<Rightarrow> ws_server \<times> nat option" where
  "start_blocking hc seen sv = (server_start hc sv, blocking_polls seen)"

text \<open>The first half of \<open>stop_active_sessions\<close>: every live session is asked to close.\<close>

definition close_live_sessions :: "ws_server \<Rightarrow> (nat \<rightharpoonup> ws_world) \<Rightarrow> ws_server \<times> (nat \<rightharpoonup> ws_world)" where
  "close_live_sessions sv worlds =
     (if sv_serverState sv = sv_stopped then (sv, worlds)
      else case get_live_sessions (dom worlds) sv of (sv, live) \<Rightarrow>
        (sv, fold (\<lambda>i ws. case ws i of None \<Rightarrow> ws | Some w \<Rightarrow> ws(i \<mapsto> close_for_shutdown w)) live worlds))"

definition start_wait_timer :: "ws_server \<Rightarrow> ws_server" where
  "start_wait_timer sv = sv\<lparr>sv_stopWait := False\<rparr>"

text \<open>One evaluation of the wait in \<open>wait_for_sessions_stop\<close>.\<close>

definition wait_section :: "nat set \<Rightarrow> ws_server \<Rightarrow> ws_server \<times> unit locked_section" where
  "wait_section alive sv =
     (let sv = remove_invalid_sessions_unlocked alive sv
      in (sv, if sv_sessions sv = [] \<or> sv_stopWait sv then Done () else Wait))"

section \<open>Waiting for the sessions to end\<close>

text \<open>The thread in \<open>stop\<close> waits on the condition variable, the timer's callback stores the flag, lists the
  sessions under the mutex and then notifies, and a session that closes unregisters itself under the mutex
  and then notifies.  A session may also open or be destroyed meanwhile.\<close>

datatype waiter = about_to_check | asleep | finished

datatype wait_timer = timer_armed | timer_stored | timer_listed | timer_over

record stop_wait =
  sw_server :: ws_server
  sw_alive :: "nat set"
  sw_waiter :: waiter
  sw_timer :: wait_timer
  sw_notifying :: nat
  sw_forced :: "nat list"

definition wake :: "stop_wait \<Rightarrow> stop_wait" where
  "wake s = (if sw_waiter s = asleep then s\<lparr>sw_waiter := about_to_check\<rparr> else s)"

definition sw_check :: "stop_wait \<Rightarrow> stop_wait" where
  "sw_check s =
     (case wait_section (sw_alive s) (sw_server s) of (sv, r) \<Rightarrow>
        s\<lparr>sw_server := sv, sw_waiter := (case r of Done _ \<Rightarrow> finished | _ \<Rightarrow> asleep)\<rparr>)"

definition timeout_store :: "stop_wait \<Rightarrow> stop_wait" where
  "timeout_store s = s\<lparr>sw_server := (sw_server s)\<lparr>sv_stopWait := True\<rparr>, sw_timer := timer_stored\<rparr>"

definition timeout_list :: "stop_wait \<Rightarrow> stop_wait" where
  "timeout_list s =
     (case get_live_sessions (sw_alive s) (sw_server s) of (sv, live) \<Rightarrow>
        s\<lparr>sw_server := sv, sw_forced := live, sw_timer := timer_listed\<rparr>)"

definition timeout_notify :: "stop_wait \<Rightarrow> stop_wait" where
  "timeout_notify s = wake (s\<lparr>sw_timer := timer_over\<rparr>)"

definition session_unregisters :: "nat \<Rightarrow> stop_wait \<Rightarrow> stop_wait" where
  "session_unregisters i s =
     s\<lparr>sw_server := unregister_session (sw_alive s) i (sw_server s), sw_notifying := sw_notifying s + 1\<rparr>"

definition session_notifies :: "stop_wait \<Rightarrow> stop_wait" where
  "session_notifies s = wake (s\<lparr>sw_notifying := sw_notifying s - 1\<rparr>)"

inductive stop_wait_step :: "stop_wait \<Rightarrow> stop_wait \<Rightarrow> bool" where
  sw_evaluates: "sw_waiter s = about_to_check \<Longrightarrow> stop_wait_step s (sw_check s)"
| sw_spurious: "stop_wait_step s (wake s)"
| sw_store: "sw_timer s = timer_armed \<Longrightarrow> stop_wait_step s (timeout_store s)"
| sw_list: "sw_timer s = timer_stored \<Longrightarrow> stop_wait_step s (timeout_list s)"
| sw_notify: "sw_timer s = timer_listed \<Longrightarrow> stop_wait_step s (timeout_notify s)"
| sw_close: "stop_wait_step s (session_unregisters i s)"
| sw_close_notify: "0 < sw_notifying s \<Longrightarrow> stop_wait_step s (session_notifies s)"
| sw_open: "stop_wait_step s (s\<lparr>sw_server := register_session i (sw_server s), sw_alive := insert i (sw_alive s)\<rparr>)"
| sw_die: "stop_wait_step s (s\<lparr>sw_alive := sw_alive s - {i}\<rparr>)"

definition stop_wait_start :: "stop_wait \<Rightarrow> bool" where
  "stop_wait_start s \<longleftrightarrow> (\<exists>sv alive. s = \<lparr>sw_server = start_wait_timer sv, sw_alive = alive,
     sw_waiter = about_to_check, sw_timer = timer_armed, sw_notifying = 0, sw_forced = []\<rparr>)"

definition stop_wait_inv :: "stop_wait \<Rightarrow> bool" where
  "stop_wait_inv s \<longleftrightarrow> (sv_stopWait (sw_server s) \<longleftrightarrow> sw_timer s \<noteq> timer_armed) \<and>
     (sw_waiter s = asleep \<longrightarrow> sw_timer s \<noteq> timer_over \<and>
        (sv_sessions (sw_server s) = [] \<longrightarrow> 0 < sw_notifying s \<or> sw_timer s = timer_listed))"

lemmas stop_wait_ops = wake_def sw_check_def wait_section_def remove_invalid_sessions_unlocked_def timeout_store_def
  timeout_list_def get_live_sessions_def timeout_notify_def session_unregisters_def unregister_session_def
  session_notifies_def register_session_def Let_def

interpretation stop_wait: invariant_machine stop_wait_start stop_wait_step stop_wait_inv
proof
  fix s assume "stop_wait_start s"
  then show "stop_wait_inv s" by (auto simp: stop_wait_start_def stop_wait_inv_def start_wait_timer_def)
next
  fix s s' assume inv: "stop_wait_inv s" and "stop_wait_step s s'"
  from this(2) show "stop_wait_inv s'"
    by cases (use inv in \<open>auto simp: stop_wait_inv_def stop_wait_ops split: if_splits\<close>)
qed


definition sample_server :: ws_server where
  "sample_server = (case new_server \<lparr>acc_open = None, acc_reuse = None, acc_bind = None, acc_listen = None\<rparr>
     new_config False of Inr sv \<Rightarrow> sv)"

definition sample_stop_wait :: "ws_server \<Rightarrow> stop_wait" where
  "sample_stop_wait sv = \<lparr>sw_server = start_wait_timer sv, sw_alive = {0, 1}, sw_waiter = about_to_check,
     sw_timer = timer_armed, sw_notifying = 0, sw_forced = []\<rparr>"


section \<open>Broadcasts\<close>

lemma start_blocking_returns:
  "snd (start_blocking hc seen sv) \<noteq> None \<longleftrightarrow> (\<exists>e \<in> set seen. is_stop_requested e)"
proof -
  have "blocking_polls seen \<noteq> None \<longleftrightarrow> (\<exists>e \<in> set seen. is_stop_requested e)" by (induction seen) auto
  then show ?thesis by (simp add: start_blocking_def)
qed

lemma stop_ends_blocking: "stop_begin sv = Some sv' \<Longrightarrow> is_stop_requested (sv_engine sv')"
  by (auto simp: stop_begin_def Let_def stop_accepting_def is_stop_requested_def split: if_splits)

lemma broadcast_fold:
  assumes "distinct is"
  shows "fold (\<lambda>i ws. case ws i of None \<Rightarrow> ws | Some w \<Rightarrow> ws(i \<mapsto> send w)) is worlds i =
    (if i \<in> set is then map_option send (worlds i) else worlds i)"
  using assms by (induction "is" arbitrary: worlds) (auto split: option.split)

text \<open>C40: A broadcast of a running server asks every live registered session exactly once to send the text,
  which an open session queues and any other ignores, and touches no other session; a server that is not
  running sends nothing.\<close>

theorem broadcast_reaches_registered:
  assumes "distinct (sv_sessions sv)" "broadcast_text text sv worlds = (sv', worlds')"
  shows "worlds' i = (if server_is_running sv \<and> i \<in> set (sv_sessions sv) then map_option (send_text text) (worlds i) else worlds i) \<and>
    (server_is_running sv \<longrightarrow> set (sv_sessions sv') = {j \<in> set (sv_sessions sv). worlds j \<noteq> None})"
proof (cases "server_is_running sv")
  case True
  let ?l = "filter (\<lambda>j. j \<in> dom worlds) (sv_sessions sv)"
  have "worlds' = fold (\<lambda>i ws. case ws i of None \<Rightarrow> ws | Some w \<Rightarrow> ws(i \<mapsto> send_text text w)) ?l worlds"
    "sv_sessions sv' = ?l"
    using assms(2) True
    by (auto simp: broadcast_text_def broadcast_def remove_invalid_sessions_unlocked_def Let_def)
  then show ?thesis using True assms(1) broadcast_fold [of ?l "send_text text" worlds i] by auto
next
  case False
  then show ?thesis using assms(2) by (auto simp: broadcast_text_def broadcast_def)
qed


theorem broadcast_reaches_registered_witness:
  "\<exists>w sv' worlds'. run_events None open_events sample_session = Some w \<and>
     broadcast_text ''hi'' (sample_server\<lparr>sv_sessions := [0, 1], sv_serverState := sv_running\<rparr>) [0 \<mapsto> w, 2 \<mapsto> w] = (sv', worlds') \<and>
     set (sv_sessions sv') = {0} \<and> worlds' 2 = Some w \<and>
     (\<exists>w'. worlds' 0 = Some w' \<and> post_enqueue False ''hi'' \<in> set (w_pending w'))"
proof -
  have "\<exists>w. run_events None open_events sample_session = Some w \<and> is_open w" by (simp add: session_eval)
  then obtain w where w: "run_events None open_events sample_session = Some w" "is_open w" by blast
  let ?sv = "sample_server\<lparr>sv_sessions := [0, 1], sv_serverState := sv_running\<rparr>"
  obtain sv' worlds' where b: "broadcast_text ''hi'' ?sv [0 \<mapsto> w, 2 \<mapsto> w] = (sv', worlds')" by fastforce
  have run: "server_is_running ?sv" "distinct (sv_sessions ?sv)" by (simp_all add: server_is_running_def)
  note r = broadcast_reaches_registered [OF run(2) b]
  have "worlds' 0 = Some (send_text ''hi'' w)" "worlds' 2 = Some w" using r [of 0] r [of 2] run(1) by simp_all
  moreover have "set (sv_sessions sv') = {0}" using r [of 0] run(1) by auto
  moreover have "post_enqueue False ''hi'' \<in> set (w_pending (send_text ''hi'' w))"
    using w(2) by (simp add: send_text_def post_def)
  ultimately show ?thesis using w(1) b by blast
qed

end
