(* ===== verification/Ws_App.thy ===== *)
theory Ws_App
  imports Ws_Server
begin

text \<open>
  The application layer, \<^verbatim>\<open>ws/server/WsApp.hpp\<close>: endpoints and typed message handlers, authentication of the
  handshake through the middleware, and dispatch of messages.  It interprets the admission contract of the
  sessions: a session of an application that opens is authenticated and its endpoint is known.
\<close>

section \<open>The application\<close>

type_synonym endpoint_handler = "ws_world \<Rightarrow> json_message \<Rightarrow> session_call list"

record ws_app =
  app_server :: ws_server
  app_middleware :: "authenticator option"
  app_endpHndlMap :: "string \<rightharpoonup> endpoint_handler"
  app_nestedHdnlMap :: "string \<rightharpoonup> (string \<rightharpoonup> endpoint_handler)"

definition session_context_to_authentication_request :: "ws_world \<Rightarrow> authentication_request" where
  "session_context_to_authentication_request s =
     (let ctx = ss_requestContext s;
          http = rc_httpInfo ctx;
          conn = rc_connectionInfo ctx;
          req = new_authentication_request\<lparr>ar_normalized_headers := he_headers http, ar_endpoint := ss_endpoint s,
            ar_remote_address := ci_remoteAddress conn, ar_remote_port := ci_remotePort conn,
            ar_raw_target := he_rawTarget http, ar_query_string := he_payload http\<rparr>;
          req = (case ar_normalized_headers req ''authorization'' of
                   None \<Rightarrow> req | Some v \<Rightarrow> req\<lparr>ar_authorization_header := Some v\<rparr>);
          req = (case ar_normalized_headers req ''host'' of None \<Rightarrow> req | Some v \<Rightarrow> req\<lparr>ar_host := v\<rparr>);
          req = (case ar_normalized_headers req ''origin'' of None \<Rightarrow> req | Some v \<Rightarrow> req\<lparr>ar_origin := v\<rparr>);
          req = (case ar_normalized_headers req ''user-agent'' of None \<Rightarrow> req | Some v \<Rightarrow> req\<lparr>ar_user_agent := v\<rparr>)
      in req)"

definition message_or :: "authentication_failure \<Rightarrow> string \<Rightarrow> string" where
  "message_or fail fallback = (if af_message fail = [] then fallback else af_message fail)"

definition reject_on_auth_failure :: "authentication_failure \<Rightarrow> accepting_decision" where
  "reject_on_auth_failure fail =
     (case af_code fail of
        auth_forbidden \<Rightarrow> reject_forbidden (message_or fail ''Forbidden'')
      | auth_temporarily_unavailable \<Rightarrow> reject_service_unavailable (message_or fail ''Service Unavailable'')
      | _ \<Rightarrow> reject_unauthorized (message_or fail ''Unauthorized''))"

section \<open>Handlers\<close>

definition app_accept_handler :: "ws_app \<Rightarrow> ws_world \<Rightarrow> accepting_decision \<times> session_call list" where
  "app_accept_handler app session =
     (let endpoint = ss_endpoint session in
      if app_endpHndlMap app endpoint = None \<and> app_nestedHdnlMap app endpoint = None
      then (\<lparr>ad_status = st_not_found, ad_message = ''Unknown endpoint'', ad_accept = False\<rparr>, [])
      else (default_accept [], []))"

definition app_auth_handler :: "ws_app \<Rightarrow> ws_world \<Rightarrow> accepting_decision \<times> session_call list" where
  "app_auth_handler app session =
     (case app_middleware app of
        None \<Rightarrow> (reject_unauthorized ''Unauthorized'', [])
      | Some authenticate \<Rightarrow>
         (case authenticate (session_context_to_authentication_request session) of
            Inr p \<Rightarrow> (accept_authorized ''Authorized'', [call_set_principal p])
          | Inl rejection \<Rightarrow> (reject_on_auth_failure rejection, [])))"

definition app_typed_handler :: "ws_app \<Rightarrow> ws_world \<Rightarrow> json_message \<Rightarrow> session_call list" where
  "app_typed_handler app session message =
     (let endpoint = ss_endpoint session; type = jm_type message in
      if type \<noteq> [] then
        (case app_nestedHdnlMap app endpoint of
           None \<Rightarrow> [call_close]
         | Some handlers \<Rightarrow> (case handlers type of None \<Rightarrow> [] | Some h \<Rightarrow> h session message))
      else (case app_endpHndlMap app endpoint of None \<Rightarrow> [call_close] | Some h \<Rightarrow> h session message))"

text \<open>The error handlers only log.\<close>

definition update_endpoint_routing :: "ws_app \<Rightarrow> ws_app" where
  "update_endpoint_routing app =
     app\<lparr>app_server :=
       server_on_typed_message (Some (app_typed_handler app))
       (server_on_auth (Some (app_auth_handler app))
       (server_on_accept (Some (app_accept_handler app))
       (server_on_protocol_error (Some (\<lambda>session msg. []))
       (server_on_error (Some (\<lambda>session ec. [])) (app_server app)))))\<rparr>"

definition new_app :: "ws_server \<Rightarrow> ws_app" where
  "new_app sv = update_endpoint_routing \<lparr>app_server = sv, app_middleware = None, app_endpHndlMap = Map.empty,
     app_nestedHdnlMap = Map.empty\<rparr>"

definition add_endpoint :: "string \<Rightarrow> endpoint_handler option \<Rightarrow> ws_app \<Rightarrow> ws_app" where
  "add_endpoint endpoint handler app =
     (if endpoint = [] then app
      else case handler of
        None \<Rightarrow> app
      | Some h \<Rightarrow>
          if app_endpHndlMap app endpoint \<noteq> None then app
          else update_endpoint_routing (app\<lparr>app_endpHndlMap := (app_endpHndlMap app)(endpoint \<mapsto> h)\<rparr>))"

definition add_message_handler :: "string \<Rightarrow> string \<Rightarrow> endpoint_handler option \<Rightarrow> ws_app \<Rightarrow> ws_app" where
  "add_message_handler endpoint type handler app =
     (if endpoint = [] then app
      else if type = [] then app
      else case handler of
        None \<Rightarrow> app
      | Some h \<Rightarrow>
         (let app = (if app_nestedHdnlMap app endpoint = None
                     then app\<lparr>app_nestedHdnlMap := (app_nestedHdnlMap app)(endpoint \<mapsto> Map.empty)\<rparr> else app);
              handlers = (case app_nestedHdnlMap app endpoint of None \<Rightarrow> Map.empty | Some m \<Rightarrow> m)
          in if handlers type \<noteq> None then app
             else update_endpoint_routing
               (app\<lparr>app_nestedHdnlMap := (app_nestedHdnlMap app)(endpoint \<mapsto> handlers(type \<mapsto> h))\<rparr>)))"

text \<open>The installed handlers read the members of the application when they are called, so a middleware set
  later is seen by them: the model installs them again.\<close>

definition setup_middleware :: "authenticator option \<Rightarrow> ws_app \<Rightarrow> ws_app" where
  "setup_middleware middleware app = update_endpoint_routing (app\<lparr>app_middleware := middleware\<rparr>)"

definition app_run :: "32 word \<Rightarrow> ws_app \<Rightarrow> ws_app" where
  "app_run hc app = app\<lparr>app_server := server_start hc (app_server app)\<rparr>"

definition app_router :: "(string \<Rightarrow> json option) \<Rightarrow> ws_app \<Rightarrow> ws_world ws_router" where
  "app_router parse app = setup_handlers_for_router parse (app_server app)"

section \<open>The handlers stay installed\<close>

inductive app_built :: "ws_app \<Rightarrow> bool" where
  built_new: "app_built (new_app sv)"
| built_endpoint: "app_built app \<Longrightarrow> app_built (add_endpoint e h app)"
| built_message: "app_built app \<Longrightarrow> app_built (add_message_handler e t h app)"
| built_middleware: "app_built app \<Longrightarrow> app_built (setup_middleware auth app)"
| built_run: "app_built app \<Longrightarrow> app_built (app_run hc app)"

definition wired :: "ws_app \<Rightarrow> bool" where
  "wired app \<longleftrightarrow> update_endpoint_routing app = app"

lemma handlers_members:
  "app_auth_handler (app\<lparr>app_server := sv\<rparr>) = app_auth_handler app"
  "app_accept_handler (app\<lparr>app_server := sv\<rparr>) = app_accept_handler app"
  "app_typed_handler (app\<lparr>app_server := sv\<rparr>) = app_typed_handler app"
  by (simp_all add: fun_eq_iff app_auth_handler_def app_accept_handler_def app_typed_handler_def Let_def)

lemmas server_setters = server_on_typed_message_def server_on_auth_def server_on_accept_def
  server_on_protocol_error_def server_on_error_def

lemma wired_update: "wired (update_endpoint_routing app)"
  by (simp add: wired_def update_endpoint_routing_def handlers_members server_setters)

lemma wired_run: "wired app \<Longrightarrow> wired (app_run hc app)"
proof -
  assume "wired app"
  then have "app_server (update_endpoint_routing app) = app_server app" by (simp add: wired_def)
  then have "app_server (update_endpoint_routing (app_run hc app)) = app_server (app_run hc app)"
    by (cases "app_server app") (auto simp: update_endpoint_routing_def app_run_def server_start_def handlers_members
        server_setters Let_def)
  then show ?thesis unfolding wired_def by (simp add: update_endpoint_routing_def)
qed

lemma app_built_wired: "app_built app \<Longrightarrow> wired app"
proof (induction rule: app_built.induct)
  case (built_message app e t h)
  then show ?case
    by (auto simp: add_message_handler_def wired_update Let_def split: option.split)
qed (auto simp: new_app_def setup_middleware_def add_endpoint_def wired_update wired_run split: option.split)

lemma handle_app:
  assumes "wired app"
  shows "handle_auth (app_router parse app) = app_auth_handler app"
    "handle_accept (app_router parse app) = app_accept_handler app"
    "sv_usrOnTyped (app_server app) = Some (app_typed_handler app)"
proof -
  have "app_server (update_endpoint_routing app) = app_server app" using assms by (simp add: wired_def)
  then have "sv_usrOnAuth (app_server app) = Some (app_auth_handler app)"
    "sv_usrOnAcpt (app_server app) = Some (app_accept_handler app)"
    and "sv_usrOnTyped (app_server app) = Some (app_typed_handler app)"
    by (cases "app_server app"; auto simp: update_endpoint_routing_def server_setters)+
  then show "handle_auth (app_router parse app) = app_auth_handler app"
    "handle_accept (app_router parse app) = app_accept_handler app"
    "sv_usrOnTyped (app_server app) = Some (app_typed_handler app)"
    by (simp_all add: app_router_def handle_server fun_eq_iff sv_auth_handler_def sv_accept_handler_def)
qed

section \<open>Admission\<close>

definition app_grants :: "ws_app \<Rightarrow> ws_world \<Rightarrow> bool" where
  "app_grants app w \<longleftrightarrow> is_authenticated w \<and>
     (app_endpHndlMap app (ss_endpoint w) \<noteq> None \<or> app_nestedHdnlMap app (ss_endpoint w) \<noteq> None)"

lemma perform_all_simps [simp]: "perform_all [] w = w" "perform_all (c # cs) w = perform_all cs (perform c w)"
  by (simp_all add: perform_all_def)

lemma app_validated:
  assumes "wired app" "validate_handshake_request (Some (app_router parse app)) erc_ok request w = (w', True)"
  shows "app_grants app w'"
proof -
  let ?w = "w\<lparr>ss_requestContext := rc_setHttpRequest request (ss_requestContext w)\<rparr>"
  obtain w1 ok where a: "ask_router called_auth (app_auth_handler app) ?w = (w1, ok)" by fastforce
  with assms have ok and b: "ask_router called_accept (app_accept_handler app) w1 = (w', True)"
    by (simp_all add: validate_handshake_request_def handle_app Let_def split: if_splits)
  then obtain p where "w1 = set_authentication_principal p (called called_auth ?w)"
    using a by (auto simp: ask_router_def app_auth_handler_def reject_on_auth_failure_def Let_def
        split: option.splits sum.splits authentication_failure_code.splits if_splits)
  then have "is_authenticated w1" by (simp add: is_authenticated_def set_authentication_principal_def)
  moreover have "w' = called called_accept w1" "app_endpHndlMap app (ss_endpoint w1) \<noteq> None \<or> app_nestedHdnlMap app (ss_endpoint w1) \<noteq> None"
    using b by (auto simp: ask_router_def app_accept_handler_def Let_def split: if_splits)
  ultimately show ?thesis by (auto simp: app_grants_def is_authenticated_def called_def ss_endpoint_def)
qed

lemma app_grants_stable: "app_grants app w \<Longrightarrow> admission_le w w' \<Longrightarrow> app_grants app w'"
  by (auto simp: app_grants_def admission_le_def http_info_def ss_endpoint_def)

lemma app_grants_update: "app_grants (update_endpoint_routing app) = app_grants app"
  by (simp add: app_grants_def update_endpoint_routing_def fun_eq_iff)

interpretation app_adm: session_admission config "app_router parse (update_endpoint_routing app)" "app_grants app"
  for config parse app
proof
  fix request w w'
  assume "validate_handshake_request (Some (app_router parse (update_endpoint_routing app))) erc_ok request w = (w', True)"
  from app_validated [OF wired_update this] show "app_grants app w'" by (simp add: app_grants_update)
qed (rule app_grants_stable)



definition sample_principal :: authenticated_principal where
  "sample_principal = \<lparr>ap_user_id = ''u'', ap_auth_scheme = [], ap_subject = [], ap_issuer = [], ap_roles = [],
     ap_scopes = [], ap_expires_at = None\<rparr>"

definition sample_auth :: authenticator where
  "sample_auth req = (if ar_authorization_header req = Some ''t'' then Inr sample_principal
     else Inl \<lparr>af_code = missing_credentials, af_message = [], af_retryable = False\<rparr>)"

definition sample_app :: ws_app where
  "sample_app = setup_middleware (Some sample_auth)
     (add_endpoint ''/chat'' (Some (\<lambda>s m. [call_send_text (jm_id m)])) (new_app sample_server))"

lemma sample_app_built: "app_built sample_app"
  unfolding sample_app_def by (intro app_built.intros)

lemma sample_app_maps:
  "app_middleware sample_app = Some sample_auth" "app_endpHndlMap sample_app ''/chat'' \<noteq> None"
  by (simp_all add: sample_app_def setup_middleware_def add_endpoint_def new_app_def update_endpoint_routing_def)


lemma sample_request:
  "he_headers (he_setHttpRequest sample_http new_http_endpoint) ''authorization'' = Some ''t''"
  "he_endpoint (he_setHttpRequest sample_http new_http_endpoint) = ''/chat''"
  by code_simp+

lemma sample_run:
  "\<exists>w. run_events (Some (app_router parse sample_app)) open_events sample_session = Some w \<and> called_open \<in> set (w_calls w) \<and>
     ss_endpoint w = ''/chat''"
proof -
  have wired: "wired sample_app" by (rule app_built_wired [OF sample_app_built])
  let ?w = "(take_op async_http_read sample_session)\<lparr>ss_requestContext :=
    rc_setHttpRequest sample_http (ss_requestContext sample_session)\<rparr>"
  have rc: "rc_httpInfo (ss_requestContext sample_session) = new_http_endpoint"
    by (simp add: session_eval)
  have ep: "ss_endpoint ?w = ''/chat''"
    by (simp add: ss_endpoint_def rc_setHttpRequest_def rc sample_request)
  have auth: "app_auth_handler sample_app ?w = (accept_authorized ''Authorized'', [call_set_principal sample_principal])"
  proof -
    have "ar_authorization_header (session_context_to_authentication_request ?w) = Some ''t''"
      by (simp add: session_context_to_authentication_request_def new_authentication_request_def Let_def
          rc_setHttpRequest_def rc sample_request split: option.split)
    then show ?thesis by (simp add: app_auth_handler_def sample_app_maps sample_auth_def)
  qed
  define w1 where "w1 = called called_accept (set_authentication_principal sample_principal (called called_auth ?w))"
  have "ss_endpoint (set_authentication_principal sample_principal (called called_auth ?w)) = ''/chat''"
    using ep by (simp add: ss_endpoint_def set_authentication_principal_def called_def)
  then have v: "validate_handshake_request (Some (app_router parse sample_app)) erc_ok sample_http (take_op async_http_read sample_session) = (w1, True)"
    using auth sample_app_maps(2) by (simp add: validate_handshake_request_def handle_app [OF wired] ask_router_def Let_def
        app_accept_handler_def w1_def take_op_def)
  let ?w2 = "post async_accept w1"
  let ?w3 = "on_accept (Some (app_router parse sample_app)) erc_ok (take_op async_accept ?w2)"
  have "run_events (Some (app_router parse sample_app)) open_events sample_session = Some ?w3"
    using v by (simp add: open_events_def on_http_read_def post_def) (simp add: session_eval)
  moreover have "called_open \<in> set (w_calls ?w3)"
    using on_accept_announces [of "app_router parse sample_app" "take_op async_accept ?w2"] by (simp add: life_part_def called_def)
  moreover have "http_info ?w3 = http_info ?w"
    using adm_accept [OF adm_v_refl, of "take_op async_accept ?w2" "Some (app_router parse sample_app)" erc_ok]
    by (simp add: adm_v_def adm_view_def w1_def http_info_def post_def take_op_def called_def set_authentication_principal_def)
  then have "ss_endpoint ?w3 = ''/chat''" using ep by (simp add: http_info_def ss_endpoint_def)
  ultimately show ?thesis by blast
qed



section \<open>Dispatch\<close>

definition add_all :: "(string \<times> string \<times> endpoint_handler) list \<Rightarrow> ws_app \<Rightarrow> ws_app" where
  "add_all regs app = fold (\<lambda>(e, t, h). add_message_handler e t (Some h)) regs app"

text \<open>The registrations that count.\<close>

definition valid_regs :: "(string \<times> string \<times> endpoint_handler) list \<Rightarrow> ((string \<times> string) \<times> endpoint_handler) list" where
  "valid_regs regs = map (\<lambda>(e, t, h). ((e, t), h)) (filter (\<lambda>(e, t, h). e \<noteq> [] \<and> t \<noteq> []) regs)"

definition nested_find :: "ws_app \<Rightarrow> string \<Rightarrow> string \<Rightarrow> endpoint_handler option" where
  "nested_find app e t = (case app_nestedHdnlMap app e of None \<Rightarrow> None | Some hs \<Rightarrow> hs t)"

lemma add_message_nested:
  "nested_find (add_message_handler e t (Some h) app) e' t' =
     (if e = e' \<and> t = t' \<and> e \<noteq> [] \<and> t \<noteq> [] \<and> nested_find app e' t' = None then Some h else nested_find app e' t')"
  "app_nestedHdnlMap (add_message_handler e t (Some h) app) e' = None \<longleftrightarrow>
     app_nestedHdnlMap app e' = None \<and> (e \<noteq> e' \<or> e = [] \<or> t = [])"
  by (auto simp: add_message_handler_def nested_find_def update_endpoint_routing_def Let_def split: option.split)

lemma add_all_nested:
  "nested_find (add_all regs app) e t =
     (case nested_find app e t of Some h \<Rightarrow> Some h | None \<Rightarrow> map_of (valid_regs regs) (e, t))"
  "app_nestedHdnlMap (add_all regs app) e = None \<longleftrightarrow>
     app_nestedHdnlMap app e = None \<and> e \<notin> fst ` fst ` set (valid_regs regs)"
proof (induction regs arbitrary: app)
  case (Cons r regs)
  obtain e' t' h where r: "r = (e', t', h)" by (cases r)
  { case 1
    show ?case using Cons(1) [of "add_message_handler e' t' (Some h) app"]
      by (auto simp: r add_all_def valid_regs_def add_message_nested split: option.split) }
  { case 2
    show ?case using Cons(2) [of "add_message_handler e' t' (Some h) app"]
      by (auto simp: r add_all_def valid_regs_def add_message_nested) }
qed (auto simp: add_all_def valid_regs_def split: option.split)

lemma add_all_built: "app_built app \<Longrightarrow> app_built (add_all regs app)"
  by (induction regs arbitrary: app) (auto simp: add_all_def intro: built_message)

lemma update_message: "sv_usrOnMessage (app_server (update_endpoint_routing app)) = sv_usrOnMessage (app_server app)"
  by (simp add: update_endpoint_routing_def server_setters)

lemma add_all_message: "sv_usrOnMessage (app_server (add_all regs app)) = sv_usrOnMessage (app_server app)"
proof (induction regs arbitrary: app)
  case (Cons r regs)
  then show ?case
    by (cases r) (simp add: add_all_def add_message_handler_def update_message Let_def split: option.split)
qed (simp add: add_all_def)




end
