(* ===== verification/Ws_Client.thy ===== *)
theory Ws_Client
  imports Ws_Router
begin

text \<open>
  The WebSocket client of \<^verbatim>\<open>ws/server/WsClient.hpp\<close>.  Its members are a record; the world around it holds what the
  network library keeps: the operations that are posted or outstanding, whether the io context was stopped,
  the threads that are inside \<open>connect\<close> or \<open>close\<close> and wait for another thread to end, and the reconnect
  threads that sleep.  A handler of the io thread is one function, run by \<open>client_complete\<close>.  The callbacks of
  the user are recorded; a call that a callback makes without blocking (\<open>send_text\<close>, \<open>send_ping\<close>) only posts work
  and is therefore the same as a call of another thread at that moment.  A callback that throws, and one that
  calls \<open>close\<close> or \<open>connect\<close> on the io thread, are not represented.
\<close>

section \<open>State\<close>

text \<open>A \<open>std::thread\<close> member: it is joinable unless it is \<open>th_none\<close>.\<close>

datatype thread_status = th_none | th_running | th_exited

datatype client_handler = on_open | on_close | on_message | on_error

datatype client_callback = saw_open | saw_close | saw_message string | saw_error erc

text \<open>Work of the io context: a posted lambda, or an asynchronous operation in flight.\<close>

datatype client_op =
    op_start_resolve | op_resolve | op_connect | op_handshake | op_read
  | op_send string | op_write string | op_start_ping | op_ping | op_start_close | op_close

text \<open>Where a thread inside \<open>connect\<close> or \<open>close\<close> waits.\<close>

datatype join_point = joining_io | joining_heartbeat

record ws_client =
  cl_host :: string
  cl_port :: string
  cl_target :: string
  cl_ioc :: bool
  cl_workGuard :: bool
  cl_ioThread :: thread_status
  cl_heartbeatThread :: thread_status
  cl_started :: bool
  cl_connected :: bool
  cl_closing :: bool
  cl_alive :: bool
  cl_heartbeatEnabled :: bool
  cl_heartbeatStop :: bool
  cl_heartbeatInterval :: int
  cl_autoReconnect :: bool
  cl_reconnectDelay :: int
  cl_reconnectScheduled :: bool
  cl_handlers :: "client_handler set"
  cl_writeQueue :: "string list"
  cl_writeInProgress :: bool

text \<open>\<open>cl_ioc\<close> stands for the four pointers that \<open>init_io\<close> fills together.  \<open>cw_taken\<close> are the texts put into the write
  queue since the start, \<open>cw_done\<close> those whose write has ended; \<open>cw_aborted\<close> records that a write ended with
  \<open>operation_aborted\<close>.\<close>

record client_world = ws_client +
  cw_stopped :: bool
  cw_pending :: "client_op list"
  cw_heartbeatAsleep :: bool
  cw_connecting :: "join_point list"
  cw_closers :: "join_point list"
  cw_reconnecting :: nat
  cw_callbacks :: "client_callback list"
  cw_taken :: "string list"
  cw_done :: "string list"
  cw_aborted :: bool
  cw_resolves :: nat

definition new_client :: "string \<Rightarrow> string \<Rightarrow> string \<Rightarrow> client_world" where
  "new_client host port target = \<lparr>cl_host = host, cl_port = port, cl_target = target, cl_ioc = False,
     cl_workGuard = False, cl_ioThread = th_none, cl_heartbeatThread = th_none, cl_started = False,
     cl_connected = False, cl_closing = False, cl_alive = True, cl_heartbeatEnabled = False,
     cl_heartbeatStop = False, cl_heartbeatInterval = 30, cl_autoReconnect = False, cl_reconnectDelay = 3,
     cl_reconnectScheduled = False, cl_handlers = {}, cl_writeQueue = [], cl_writeInProgress = False,
     cw_stopped = False, cw_pending = [], cw_heartbeatAsleep = False, cw_connecting = [], cw_closers = [],
     cw_reconnecting = 0, cw_callbacks = [], cw_taken = [], cw_done = [], cw_aborted = False, cw_resolves = 0\<rparr>"

definition client_post :: "client_op \<Rightarrow> client_world \<Rightarrow> client_world" where
  "client_post op w = w\<lparr>cw_pending := cw_pending w @ [op]\<rparr>"

definition client_callback :: "client_handler \<Rightarrow> client_callback \<Rightarrow> client_world \<Rightarrow> client_world" where
  "client_callback h c w = (if h \<in> cl_handlers w then w\<lparr>cw_callbacks := cw_callbacks w @ [c]\<rparr> else w)"

section \<open>Configuration\<close>

definition client_on :: "client_handler \<Rightarrow> bool \<Rightarrow> client_world \<Rightarrow> client_world" where
  "client_on h callable w = w\<lparr>cl_handlers := (if callable then insert h (cl_handlers w) else cl_handlers w - {h})\<rparr>"

definition enable_auto_reconnect :: "bool \<Rightarrow> int \<Rightarrow> client_world \<Rightarrow> client_world" where
  "enable_auto_reconnect enable delay w = w\<lparr>cl_autoReconnect := enable, cl_reconnectDelay := delay\<rparr>"

definition enable_heartbeat :: "int \<Rightarrow> client_world \<Rightarrow> client_world" where
  "enable_heartbeat interval w =
     (if interval \<le> 0 then w\<lparr>cl_heartbeatEnabled := False\<rparr>
      else w\<lparr>cl_heartbeatEnabled := True, cl_heartbeatInterval := interval\<rparr>)"

section \<open>Connecting\<close>

definition client_emit_error :: "erc \<Rightarrow> client_world \<Rightarrow> client_world" where
  "client_emit_error ec = client_callback on_error (saw_error ec)"

text \<open>Up to the first join of \<open>init_io\<close>; the thread is then inside \<open>connect\<close>.\<close>

definition client_connect :: "client_world \<Rightarrow> client_world" where
  "client_connect w =
     (if \<not> cl_alive w \<or> cl_closing w then w
      else if cl_started w then w
      else w\<lparr>cl_started := True, cw_stopped := cw_stopped w \<or> cl_ioc w, cw_connecting := joining_io # cw_connecting w\<rparr>)"

text \<open>\<open>join\<close> of a joinable thread by another one.\<close>

definition join_thread :: "thread_status \<Rightarrow> thread_status locked_section" where
  "join_thread t = (if t = th_running then Wait else Done th_none)"

text \<open>The rest of \<open>init_io\<close>.  Assigning the new io context destroys the old one while the old work guard, resolver
  and stream still refer to it; their destructors, which the next assignments run, then use a destroyed
  context.\<close>

definition client_init_io :: "client_world \<Rightarrow> client_world locked_section" where
  "client_init_io w =
     (if cl_ioc w then Undef
      else Done (w\<lparr>cl_ioc := True, cl_workGuard := True, cl_connected := False, cl_closing := False,
        cl_heartbeatStop := False, cl_writeQueue := [], cl_writeInProgress := False,
        cw_stopped := False, cw_pending := []\<rparr>))"

definition client_connect_continue :: "join_point \<Rightarrow> client_world \<Rightarrow> client_world locked_section" where
  "client_connect_continue p w =
     (let w = w\<lparr>cw_connecting := remove1 p (cw_connecting w)\<rparr> in
      case p of
        joining_io \<Rightarrow>
          (case join_thread (cl_ioThread w) of
             Done t \<Rightarrow> Done (w\<lparr>cl_ioThread := t, cw_connecting := joining_heartbeat # cw_connecting w\<rparr>)
           | Wait \<Rightarrow> Wait | Undef \<Rightarrow> Undef)
      | joining_heartbeat \<Rightarrow>
          (case join_thread (cl_heartbeatThread w) of
             Done t \<Rightarrow>
               (case client_init_io (w\<lparr>cl_heartbeatThread := t\<rparr>) of
                  Done w \<Rightarrow> Done (client_post op_start_resolve (w\<lparr>cl_ioThread := th_running\<rparr>))
                | Wait \<Rightarrow> Wait | Undef \<Rightarrow> Undef)
           | Wait \<Rightarrow> Wait | Undef \<Rightarrow> Undef))"

definition maybe_schedule_reconnect :: "erc \<Rightarrow> client_world \<Rightarrow> client_world" where
  "maybe_schedule_reconnect ec w =
     (if \<not> cl_autoReconnect w \<or> cl_closing w \<or> \<not> cl_alive w then w
      else if ec = erc_closed \<or> ec = erc_aborted then w
      else if cl_reconnectScheduled w then w
      else w\<lparr>cl_reconnectScheduled := True, cw_reconnecting := cw_reconnecting w + 1\<rparr>)"

text \<open>The detached thread after its sleep.\<close>

definition client_reconnect_wakes :: "client_world \<Rightarrow> client_world" where
  "client_reconnect_wakes w =
     (let w = w\<lparr>cw_reconnecting := cw_reconnecting w - 1\<rparr> in
      if \<not> cl_alive w \<or> cl_closing w then w\<lparr>cl_reconnectScheduled := False\<rparr>
      else client_connect (w\<lparr>cl_started := False, cl_reconnectScheduled := False\<rparr>))"

definition client_do_resolve :: "client_world \<Rightarrow> client_world" where
  "client_do_resolve w = client_post op_resolve (w\<lparr>cw_resolves := cw_resolves w + 1\<rparr>)"

definition client_fail :: "erc \<Rightarrow> client_world \<Rightarrow> client_world" where
  "client_fail ec w = maybe_schedule_reconnect ec (client_emit_error ec w)"

definition client_resolved :: "erc \<Rightarrow> client_world \<Rightarrow> client_world" where
  "client_resolved ec w = (if ec \<noteq> erc_ok then client_fail ec w else client_post op_connect w)"

definition client_connected :: "erc \<Rightarrow> client_world \<Rightarrow> client_world" where
  "client_connected ec w = (if ec \<noteq> erc_ok then client_fail ec w else client_post op_handshake w)"

definition client_start_heartbeat :: "client_world \<Rightarrow> client_world" where
  "client_start_heartbeat w =
     (if cl_heartbeatThread w \<noteq> th_none then w
      else w\<lparr>cl_heartbeatThread := th_running, cw_heartbeatAsleep := False\<rparr>)"

definition client_handshaken :: "erc \<Rightarrow> client_world \<Rightarrow> client_world" where
  "client_handshaken ec w =
     (if ec \<noteq> erc_ok then client_fail ec w
      else (let w = client_callback on_open saw_open (w\<lparr>cl_connected := True\<rparr>);
                w = (if cl_heartbeatEnabled w then client_start_heartbeat w else w)
            in client_post op_read w))"

definition client_read :: "erc \<Rightarrow> string \<Rightarrow> client_world \<Rightarrow> client_world" where
  "client_read ec data w =
     (if ec \<noteq> erc_ok then
        (let w = (if ec \<noteq> erc_closed \<and> ec \<noteq> erc_aborted then client_emit_error ec w else w);
             w = client_callback on_close saw_close (w\<lparr>cl_connected := False\<rparr>)
         in maybe_schedule_reconnect ec w)
      else (let w = client_callback on_message (saw_message data) w
            in if \<not> cl_closing w then client_post op_read w else w))"

section \<open>Sending\<close>

definition client_do_write :: "client_world \<Rightarrow> client_world" where
  "client_do_write w =
     (if \<not> cl_ioc w \<or> cl_closing w then w
      else case cl_writeQueue w of
        [] \<Rightarrow> w\<lparr>cl_writeInProgress := False\<rparr>
      | t # q \<Rightarrow> client_post (op_write t) w)"

definition client_written :: "erc \<Rightarrow> client_world \<Rightarrow> client_world" where
  "client_written ec w =
     (let w = (case cl_writeQueue w of
                 [] \<Rightarrow> w
               | t # q \<Rightarrow> w\<lparr>cl_writeQueue := q, cw_done := cw_done w @ [t]\<rparr>);
          w = (if ec \<noteq> erc_ok \<or> cl_writeQueue w = [] then w\<lparr>cl_writeInProgress := False\<rparr> else w);
          w = w\<lparr>cw_aborted := cw_aborted w \<or> ec = erc_aborted\<rparr>
      in if ec \<noteq> erc_ok \<and> ec \<noteq> erc_aborted then client_fail ec w else client_do_write w)"

definition client_send_text :: "string \<Rightarrow> client_world \<Rightarrow> client_world" where
  "client_send_text t w =
     (if \<not> cl_connected w \<or> cl_closing w \<or> \<not> cl_ioc w then w else client_post (op_send t) w)"

definition client_enqueue :: "string \<Rightarrow> client_world \<Rightarrow> client_world" where
  "client_enqueue t w =
     (if cl_closing w then w
      else (let w = w\<lparr>cl_writeQueue := cl_writeQueue w @ [t], cw_taken := cw_taken w @ [t]\<rparr> in
            if \<not> cl_writeInProgress w then client_do_write (w\<lparr>cl_writeInProgress := True\<rparr>) else w))"

definition client_send_payload :: "(json \<Rightarrow> string) \<Rightarrow> string \<Rightarrow> json \<Rightarrow> client_world \<Rightarrow> client_world" where
  "client_send_payload dump type payload =
     (let msg = set_payload (new_message\<lparr>jm_type := type\<rparr>) payload in client_send_text (dump (message_to_json msg)))"

definition client_send_message :: "(json \<Rightarrow> string) \<Rightarrow> string \<Rightarrow> json_message \<Rightarrow> client_world \<Rightarrow> client_world" where
  "client_send_message dump type msg = client_send_text (dump (message_to_json (msg\<lparr>jm_type := type\<rparr>)))"

definition client_send_ping :: "client_world \<Rightarrow> client_world" where
  "client_send_ping w =
     (if \<not> cl_connected w \<or> cl_closing w \<or> \<not> cl_ioc w then w else client_post op_start_ping w)"

definition client_do_ping :: "client_world \<Rightarrow> client_world" where
  "client_do_ping w = (if \<not> cl_ioc w \<or> cl_closing w then w else client_post op_ping w)"

definition client_pinged :: "erc \<Rightarrow> client_world \<Rightarrow> client_world" where
  "client_pinged ec w = (if ec \<noteq> erc_ok \<and> ec \<noteq> erc_aborted then client_fail ec w else w)"

text \<open>The heartbeat thread: the test of the loop, and what follows the sleep.\<close>

definition client_heartbeat_head :: "client_world \<Rightarrow> client_world" where
  "client_heartbeat_head w =
     (if \<not> cl_heartbeatStop w \<and> cl_alive w then w\<lparr>cw_heartbeatAsleep := True\<rparr>
      else w\<lparr>cl_heartbeatThread := th_exited\<rparr>)"

definition client_heartbeat_wakes :: "client_world \<Rightarrow> client_world" where
  "client_heartbeat_wakes w =
     (let w = w\<lparr>cw_heartbeatAsleep := False\<rparr> in
      if \<not> cl_connected w \<or> cl_closing w \<or> cl_heartbeatStop w then w else client_send_ping w)"

section \<open>Closing\<close>

text \<open>Up to the first join; the thread is then inside \<open>close\<close>.\<close>

definition client_close :: "client_world \<Rightarrow> client_world" where
  "client_close w =
     (if cl_closing w then w
      else (let w = w\<lparr>cl_closing := True, cl_alive := False, cl_connected := False, cl_heartbeatStop := True,
                     cl_autoReconnect := False, cl_reconnectScheduled := False\<rparr>;
                w = (if cl_ioc w then client_post op_start_close w else w)
            in w\<lparr>cl_workGuard := False, cw_stopped := cw_stopped w \<or> cl_ioc w, cw_closers := joining_io # cw_closers w\<rparr>))"

definition client_close_continue :: "join_point \<Rightarrow> client_world \<Rightarrow> client_world locked_section" where
  "client_close_continue p w =
     (let w = w\<lparr>cw_closers := remove1 p (cw_closers w)\<rparr> in
      case p of
        joining_io \<Rightarrow>
          (case join_thread (cl_ioThread w) of
             Done t \<Rightarrow> Done (w\<lparr>cl_ioThread := t, cw_closers := joining_heartbeat # cw_closers w\<rparr>)
           | Wait \<Rightarrow> Wait | Undef \<Rightarrow> Undef)
      | joining_heartbeat \<Rightarrow>
          (case join_thread (cl_heartbeatThread w) of
             Done t \<Rightarrow> Done (w\<lparr>cl_heartbeatThread := t\<rparr>)
           | Wait \<Rightarrow> Wait | Undef \<Rightarrow> Undef))"

definition client_closed :: "erc \<Rightarrow> client_world \<Rightarrow> client_world" where
  "client_closed ec w = (if ec \<noteq> erc_ok \<and> ec \<noteq> erc_aborted then client_emit_error ec w else w)"

section \<open>The steps of the client\<close>

fun client_complete :: "client_op \<Rightarrow> erc \<Rightarrow> string \<Rightarrow> client_world \<Rightarrow> client_world" where
  "client_complete op_start_resolve ec data w = client_do_resolve w"
| "client_complete op_resolve ec data w = client_resolved ec w"
| "client_complete op_connect ec data w = client_connected ec w"
| "client_complete op_handshake ec data w = client_handshaken ec w"
| "client_complete op_read ec data w = client_read ec data w"
| "client_complete (op_send t) ec data w = client_enqueue t w"
| "client_complete (op_write t) ec data w = client_written ec w"
| "client_complete op_start_ping ec data w = client_do_ping w"
| "client_complete op_ping ec data w = client_pinged ec w"
| "client_complete op_start_close ec data w = client_post op_close w"
| "client_complete op_close ec data w = client_closed ec w"

text \<open>The io thread runs the handlers until the context is stopped.\<close>

datatype client_event =
    ev_connect | ev_connecting join_point | ev_close | ev_closing join_point
  | ev_send_text string | ev_send_ping | ev_on client_handler bool | ev_auto_reconnect bool int
  | ev_heartbeat int | ev_io client_op erc string | ev_io_ends | ev_heartbeat_head | ev_heartbeat_wakes
  | ev_reconnect_wakes

definition done_of :: "'r locked_section \<Rightarrow> 'r option" where
  "done_of r = (case r of Done x \<Rightarrow> Some x | _ \<Rightarrow> None)"

fun client_exec :: "client_event \<Rightarrow> client_world \<Rightarrow> client_world option" where
  "client_exec ev_connect w = Some (client_connect w)"
| "client_exec (ev_connecting p) w =
     (if p \<in> set (cw_connecting w) then done_of (client_connect_continue p w) else None)"
| "client_exec ev_close w = Some (client_close w)"
| "client_exec (ev_closing p) w =
     (if p \<in> set (cw_closers w) then done_of (client_close_continue p w) else None)"
| "client_exec (ev_send_text t) w = Some (client_send_text t w)"
| "client_exec ev_send_ping w = Some (client_send_ping w)"
| "client_exec (ev_on h b) w = Some (client_on h b w)"
| "client_exec (ev_auto_reconnect b d) w = Some (enable_auto_reconnect b d w)"
| "client_exec (ev_heartbeat i) w = Some (enable_heartbeat i w)"
| "client_exec (ev_io op ec data) w =
     (if cl_ioThread w = th_running \<and> \<not> cw_stopped w \<and> op \<in> set (cw_pending w)
      then Some (client_complete op ec data (w\<lparr>cw_pending := remove1 op (cw_pending w)\<rparr>)) else None)"
| "client_exec ev_io_ends w =
     (if cl_ioThread w = th_running \<and> cw_stopped w then Some (w\<lparr>cl_ioThread := th_exited\<rparr>) else None)"
| "client_exec ev_heartbeat_head w =
     (if cl_heartbeatThread w = th_running \<and> \<not> cw_heartbeatAsleep w then Some (client_heartbeat_head w) else None)"
| "client_exec ev_heartbeat_wakes w =
     (if cl_heartbeatThread w = th_running \<and> cw_heartbeatAsleep w then Some (client_heartbeat_wakes w) else None)"
| "client_exec ev_reconnect_wakes w =
     (if cw_reconnecting w > 0 then Some (client_reconnect_wakes w) else None)"

definition client_step :: "client_world \<Rightarrow> client_world \<Rightarrow> bool" where
  "client_step w w' \<longleftrightarrow> (\<exists>e. client_exec e w = Some w')"

definition client_start :: "client_world \<Rightarrow> bool" where
  "client_start w \<longleftrightarrow> (\<exists>host port target. w = new_client host port target)"

fun client_run :: "client_event list \<Rightarrow> client_world \<Rightarrow> client_world option" where
  "client_run [] w = Some w"
| "client_run (e # es) w = (case client_exec e w of None \<Rightarrow> None | Some w' \<Rightarrow> client_run es w')"


section \<open>What the handlers leave alone\<close>

fun write_text :: "client_op \<Rightarrow> string option" where
  "write_text (op_write t) = Some t"
| "write_text _ = None"

definition client_writes :: "client_world \<Rightarrow> string list" where
  "client_writes w = List.map_filter write_text (cw_pending w)"

text \<open>The part of the state the write queue is about, and the part the life of the client is about.\<close>

definition writing_part where
  "writing_part w = (client_writes w, cl_writeQueue w, cl_writeInProgress w, cl_closing w, cl_ioc w, cw_taken w,
     cw_done w, cw_aborted w)"

definition life_of where
  "life_of w = (cl_ioc w, cl_closing w, cl_alive w, cw_stopped w, cl_ioThread w, cl_started w, cw_connecting w,
     cw_closers w, cw_resolves w + count_list (cw_pending w) op_start_resolve)"

definition reconnect_part where
  "reconnect_part w = (cw_reconnecting w \<le> 1 \<and> (cl_alive w \<and> cw_reconnecting w = 1 \<longrightarrow> cl_reconnectScheduled w))"

lemmas part_defs = writing_part_def life_of_def reconnect_part_def client_writes_def

lemma map_filter_snoc: "List.map_filter f (xs @ [x]) = List.map_filter f xs @ (case f x of None \<Rightarrow> [] | Some y \<Rightarrow> [y])"
  by (simp add: List.map_filter_def split: option.split)

lemma count_list_snoc_op: "count_list (xs @ [x]) y = count_list xs y + (if x = y then 1 else 0)"
  by (induction xs) simp_all

lemma map_filter_remove1:
  "f x = None \<Longrightarrow> List.map_filter f (remove1 x xs) = List.map_filter f xs"
  by (induction xs) (auto simp: List.map_filter_def)

lemma client_writes_post [simp]:
  "client_writes (client_post op w) = client_writes w @ (case write_text op of None \<Rightarrow> [] | Some t \<Rightarrow> [t])"
  by (simp add: client_writes_def client_post_def map_filter_snoc)

lemma client_post_fields [simp]:
  "cl_writeQueue (client_post op w) = cl_writeQueue w" "cl_writeInProgress (client_post op w) = cl_writeInProgress w"
  "cl_closing (client_post op w) = cl_closing w" "cl_ioc (client_post op w) = cl_ioc w"
  "cw_taken (client_post op w) = cw_taken w" "cw_done (client_post op w) = cw_done w"
  "cw_aborted (client_post op w) = cw_aborted w" "cl_alive (client_post op w) = cl_alive w"
  "cw_stopped (client_post op w) = cw_stopped w" "cl_ioThread (client_post op w) = cl_ioThread w"
  "cl_started (client_post op w) = cl_started w" "cw_connecting (client_post op w) = cw_connecting w"
  "cw_closers (client_post op w) = cw_closers w" "reconnect_part (client_post op w) = reconnect_part w"
  "cl_connected (client_post op w) = cl_connected w" "cl_heartbeatEnabled (client_post op w) = cl_heartbeatEnabled w"
  by (simp_all add: client_post_def reconnect_part_def)

lemma writing_quiet [simp]:
  "writing_part (client_callback h c w) = writing_part w" "writing_part (client_emit_error ec w) = writing_part w"
  "writing_part (maybe_schedule_reconnect ec w) = writing_part w" "writing_part (client_fail ec w) = writing_part w"
  "writing_part (client_start_heartbeat w) = writing_part w"
  by (simp_all add: part_defs client_callback_def client_emit_error_def maybe_schedule_reconnect_def client_fail_def
      client_start_heartbeat_def)

lemma writing_post [simp]: "write_text op = None \<Longrightarrow> writing_part (client_post op w) = writing_part w"
  by (simp add: writing_part_def)

lemma life_quiet [simp]:
  "life_of (client_callback h c w) = life_of w" "life_of (client_emit_error ec w) = life_of w"
  "life_of (maybe_schedule_reconnect ec w) = life_of w" "life_of (client_fail ec w) = life_of w"
  "life_of (client_start_heartbeat w) = life_of w"
  by (simp_all add: part_defs client_callback_def client_emit_error_def maybe_schedule_reconnect_def client_fail_def
      client_start_heartbeat_def)

lemma life_post [simp]: "op \<noteq> op_start_resolve \<Longrightarrow> life_of (client_post op w) = life_of w"
  by (simp add: life_of_def client_post_def count_list_snoc_op)

lemma reconnect_quiet [simp]:
  "reconnect_part (client_callback h c w) = reconnect_part w" "reconnect_part (client_emit_error ec w) = reconnect_part w"
  "reconnect_part w \<Longrightarrow> reconnect_part (maybe_schedule_reconnect ec w)"
  "reconnect_part w \<Longrightarrow> reconnect_part (client_fail ec w)"
  "reconnect_part (client_start_heartbeat w) = reconnect_part w"
  by (auto simp: part_defs client_callback_def client_emit_error_def maybe_schedule_reconnect_def client_fail_def
      client_start_heartbeat_def)

lemma heartbeat_enabled_quiet [simp]: "cl_heartbeatEnabled (client_callback h c w) = cl_heartbeatEnabled w"
  by (simp add: client_callback_def)

lemma closing_callback [simp]: "cl_closing (client_callback h c w) = cl_closing w"
  by (simp add: client_callback_def)


section \<open>The invariants\<close>

text \<open>Until a write is aborted: the texts leave the queue in the order they came in, at most one write is in flight
  and it is that of the head of the queue.\<close>

definition writing_ok where
  "writing_ok p = (case p of (ws, q, busy, closing, ioc, taken, wrote, aborted) \<Rightarrow>
     taken = wrote @ q \<and> (\<not> ioc \<longrightarrow> ws = [] \<and> taken = [] \<and> \<not> busy) \<and>
     (\<not> aborted \<longrightarrow> (if ws = [] then busy \<longrightarrow> closing else busy \<and> q \<noteq> [] \<and> ws = [hd q])))"

text \<open>The io context exists from the end of the first \<open>connect\<close>, which is the only one to resolve the host.\<close>

definition life_ok where
  "life_ok p = (case p of (ioc, closing, alive, stopped, io, started, cn, cs, resolves) \<Rightarrow>
     (if ioc then resolves \<le> (1 :: nat) else resolves = 0 \<and> io = th_none \<and> \<not> stopped) \<and>
     (closing \<longrightarrow> \<not> alive \<and> (ioc \<longrightarrow> stopped)))"

definition client_inv :: "client_world \<Rightarrow> bool" where
  "client_inv w \<longleftrightarrow> (cl_ioc w \<or> cw_pending w = [] \<and> \<not> cl_connected w) \<and>
     (cl_closing w \<longrightarrow> \<not> cl_connected w) \<and> writing_ok (writing_part w) \<and>
     life_ok (life_of w) \<and> reconnect_part w"

lemma done_of_Some [simp]: "done_of r = Some x \<longleftrightarrow> r = Done x"
  by (cases r) (simp_all add: done_of_def)

lemma client_inv_quiet:
  assumes "client_inv w" "writing_part w' = writing_part w" "life_of w' = life_of w" "reconnect_part w'"
    "cl_ioc w \<or> cw_pending w' = [] \<and> \<not> cl_connected w'" "cl_connected w' = cl_connected w"
  shows "client_inv w'"
  using assms by (auto simp: client_inv_def life_of_def)

lemma take_op_writing:
  "write_text op = None \<Longrightarrow> writing_part (w\<lparr>cw_pending := remove1 op (cw_pending w)\<rparr>) = writing_part w"
  by (simp add: part_defs map_filter_remove1)

lemma count_list_remove1_other: "x \<noteq> y \<Longrightarrow> count_list (remove1 x xs) y = count_list xs y"
  by (induction xs) auto

lemma count_list_remove1_in: "x \<in> set xs \<Longrightarrow> count_list xs x = Suc (count_list (remove1 x xs) x)"
  by (induction xs) auto

lemma take_op_life:
  "op \<noteq> op_start_resolve \<Longrightarrow> life_of (w\<lparr>cw_pending := remove1 op (cw_pending w)\<rparr>) = life_of w"
  by (simp add: life_of_def count_list_remove1_other)

lemma take_op_reconnect [simp]: "reconnect_part (w\<lparr>cw_pending := xs\<rparr>) = reconnect_part w"
  by (simp add: reconnect_part_def)

lemma client_writes_fields [simp]:
  "client_writes (w\<lparr>cl_writeQueue := q\<rparr>) = client_writes w" "client_writes (w\<lparr>cl_writeInProgress := b\<rparr>) = client_writes w"
  "client_writes (w\<lparr>cw_taken := q\<rparr>) = client_writes w" "client_writes (w\<lparr>cw_done := q\<rparr>) = client_writes w"
  "client_writes (w\<lparr>cw_aborted := b\<rparr>) = client_writes w"
  by (simp_all add: client_writes_def)

lemma writing_fields [simp]:
  "writing_part (w\<lparr>cl_connected := b\<rparr>) = writing_part w" "life_of (w\<lparr>cl_connected := b\<rparr>) = life_of w"
  "reconnect_part (w\<lparr>cl_connected := b\<rparr>) = reconnect_part w"
  "writing_part (w\<lparr>cw_resolves := n\<rparr>) = writing_part w" "reconnect_part (w\<lparr>cw_resolves := n\<rparr>) = reconnect_part w"
  "life_of (w\<lparr>cl_writeInProgress := b\<rparr>) = life_of w" "life_of (w\<lparr>cl_writeQueue := q\<rparr>) = life_of w"
  "life_of (w\<lparr>cw_taken := q\<rparr>) = life_of w" "life_of (w\<lparr>cw_done := q\<rparr>) = life_of w" "life_of (w\<lparr>cw_aborted := b\<rparr>) = life_of w"
  "reconnect_part (w\<lparr>cl_writeInProgress := b\<rparr>) = reconnect_part w" "reconnect_part (w\<lparr>cl_writeQueue := q\<rparr>) = reconnect_part w"
  "reconnect_part (w\<lparr>cw_taken := q\<rparr>) = reconnect_part w" "reconnect_part (w\<lparr>cw_done := q\<rparr>) = reconnect_part w"
  "reconnect_part (w\<lparr>cw_aborted := b\<rparr>) = reconnect_part w"
  by (simp_all add: part_defs)

text \<open>The handlers that do not touch the write queue.\<close>

lemma quiet_handlers:
  "write_text op = None \<Longrightarrow> op \<noteq> op_start_resolve \<Longrightarrow> (\<forall>t. op \<noteq> op_send t) \<Longrightarrow>
   writing_part (client_complete op ec data w) = writing_part w \<and> life_of (client_complete op ec data w) = life_of w \<and>
   (reconnect_part w \<longrightarrow> reconnect_part (client_complete op ec data w))"
  by (cases op) (simp_all add: client_resolved_def client_connected_def client_handshaken_def client_read_def
      client_do_ping_def client_pinged_def client_closed_def Let_def)

lemma client_do_write_life [simp]:
  "life_of (client_do_write w) = life_of w" "reconnect_part (client_do_write w) = reconnect_part w"
  by (simp_all add: client_do_write_def split: list.split)

lemma enqueue_ok:
  assumes "writing_ok (writing_part w)" "cl_ioc w"
  shows "writing_ok (writing_part (client_enqueue t w)) \<and> life_of (client_enqueue t w) = life_of w \<and>
    reconnect_part (client_enqueue t w) = reconnect_part w"
  using assms
  by (auto simp: client_enqueue_def client_do_write_def writing_ok_def writing_part_def Let_def
      split: list.split if_splits)

lemma client_writes_take:
  "op_write t \<in> set (cw_pending w) \<Longrightarrow>
   mset (client_writes w) = add_mset t (mset (client_writes (w\<lparr>cw_pending := remove1 (op_write t) (cw_pending w)\<rparr>)))"
proof -
  have "op_write t \<in> set ops \<Longrightarrow>
      mset (List.map_filter write_text ops) = add_mset t (mset (List.map_filter write_text (remove1 (op_write t) ops)))" for ops
    by (induction ops) (auto simp: List.map_filter_def)
  then show "op_write t \<in> set (cw_pending w) \<Longrightarrow> ?thesis" by (simp add: client_writes_def)
qed

lemma writing_fail [simp]:
  "client_writes (client_fail ec w) = client_writes w" "cl_writeQueue (client_fail ec w) = cl_writeQueue w"
  "cl_writeInProgress (client_fail ec w) = cl_writeInProgress w" "cl_closing (client_fail ec w) = cl_closing w"
  "cl_ioc (client_fail ec w) = cl_ioc w" "cw_taken (client_fail ec w) = cw_taken w" "cw_done (client_fail ec w) = cw_done w"
  "cw_aborted (client_fail ec w) = cw_aborted w"
  using writing_quiet(4) [of ec w] by (simp_all add: writing_part_def)

lemma written_ok:
  assumes "writing_ok (writing_part w)" "cl_ioc w" "op_write t \<in> set (cw_pending w)"
    and "w' = w\<lparr>cw_pending := remove1 (op_write t) (cw_pending w)\<rparr>"
  shows "writing_ok (writing_part (client_written ec w')) \<and> life_of (client_written ec w') = life_of w \<and>
    (reconnect_part w \<longrightarrow> reconnect_part (client_written ec w'))"
proof -
  have single: "client_writes w' = []" if "\<not> cw_aborted w"
    using assms that client_writes_take [of t w]
    by (auto simp: writing_ok_def writing_part_def split: if_splits)
  have life: "life_of w' = life_of w" "reconnect_part w' = reconnect_part w"
    unfolding assms(4) by (simp_all add: take_op_life)
  have fields: "cl_writeQueue w' = cl_writeQueue w" "cl_ioc w'" "cw_taken w' = cw_taken w" "cw_done w' = cw_done w"
      "cw_aborted w' = cw_aborted w" "cl_closing w' = cl_closing w" "cl_writeInProgress w' = cl_writeInProgress w" using assms(2) by (simp_all add: assms(4))
  have ok: "cw_taken w' = cw_done w' @ cl_writeQueue w'" "\<not> cw_aborted w \<Longrightarrow> cl_writeQueue w' \<noteq> [] \<and> cl_writeInProgress w"
    using assms(1,3) client_writes_take [OF assms(3)]
    by (auto simp: writing_ok_def writing_part_def fields split: if_splits)
  have "writing_ok (writing_part (client_written ec w'))"
    using ok fields single
    by (cases "cl_writeQueue w'")
      (auto simp: client_written_def client_do_write_def writing_ok_def writing_part_def Let_def writing_fail split: list.split)
  moreover have "life_of (client_written ec w') = life_of w" "reconnect_part w \<longrightarrow> reconnect_part (client_written ec w')"
    using life by (simp_all add: client_written_def Let_def split: list.split)
  ultimately show ?thesis by simp
qed


lemma do_resolve_ok:
  assumes "op_start_resolve \<in> set (cw_pending w)" "w' = w\<lparr>cw_pending := remove1 op_start_resolve (cw_pending w)\<rparr>"
  shows "writing_part (client_do_resolve w') = writing_part w \<and> life_of (client_do_resolve w') = life_of w \<and>
    reconnect_part (client_do_resolve w') = reconnect_part w"
  using count_list_remove1_in [OF assms(1)] unfolding assms(2)
  by (simp add: client_do_resolve_def take_op_writing) (simp add: life_of_def)

lemma complete_ok:
  assumes "client_inv w" "cl_ioThread w = th_running" "\<not> cw_stopped w" "op \<in> set (cw_pending w)"
  shows "client_inv (client_complete op ec data (w\<lparr>cw_pending := remove1 op (cw_pending w)\<rparr>))"
proof -
  let ?w = "w\<lparr>cw_pending := remove1 op (cw_pending w)\<rparr>"
  have ioc: "cl_ioc w" using assms(1,2) by (auto simp: client_inv_def life_ok_def life_of_def split: if_splits)
  have ok: "writing_ok (writing_part w)" "life_ok (life_of w)" "reconnect_part w" using assms(1) by (simp_all add: client_inv_def)
  consider t where "op = op_write t" | t where "op = op_send t" | "op = op_start_resolve"
    | "write_text op = None" "op \<noteq> op_start_resolve" "\<forall>t. op \<noteq> op_send t"
    by (cases op) simp_all
  then have "writing_ok (writing_part (client_complete op ec data ?w)) \<and> life_of (client_complete op ec data ?w) = life_of w \<and>
      reconnect_part (client_complete op ec data ?w)"
  proof cases
    case 1
    then show ?thesis using written_ok [OF ok(1) ioc, of t ?w ec] assms(4) ok(3) by simp
  next
    case 2
    then show ?thesis using enqueue_ok [of ?w t] take_op_writing [of op w] take_op_life [of op w] ok ioc by simp
  next
    case 3
    then show ?thesis using do_resolve_ok [of w ?w] assms(4) ok by simp
  next
    case 4
    then show ?thesis
      using quiet_handlers [of op ec data ?w] take_op_writing [of op w] take_op_life [of op w] ok by simp
  qed
  moreover from this have "cl_ioc (client_complete op ec data ?w)" "\<not> cl_closing (client_complete op ec data ?w)"
    using ioc ok(2) assms(3) by (auto simp: life_of_def life_ok_def)
  ultimately show ?thesis using ok(2) by (simp add: client_inv_def)
qed

lemma connect_inv: "client_inv w \<Longrightarrow> client_inv (client_connect w)"
  by (auto simp: client_inv_def client_connect_def part_defs life_ok_def writing_ok_def)

lemma connect_continue_io:
  "client_connect_continue joining_io w =
     (if cl_ioThread w = th_running then Wait
      else Done (w\<lparr>cl_ioThread := th_none, cw_connecting := joining_heartbeat # remove1 joining_io (cw_connecting w)\<rparr>))"
  by (simp add: client_connect_continue_def join_thread_def)

lemma connect_continue_heartbeat:
  "client_connect_continue joining_heartbeat w =
     (if cl_heartbeatThread w = th_running then Wait else if cl_ioc w then Undef
      else Done (client_post op_start_resolve (w\<lparr>cw_connecting := remove1 joining_heartbeat (cw_connecting w),
        cl_heartbeatThread := th_none, cl_ioc := True, cl_workGuard := True, cl_connected := False, cl_closing := False,
        cl_heartbeatStop := False, cl_writeQueue := [], cl_writeInProgress := False,
        cw_stopped := False, cw_pending := [], cl_ioThread := th_running\<rparr>)))"
  by (simp add: client_connect_continue_def join_thread_def client_init_io_def)

lemma close_continue_simps:
  "client_close_continue joining_io w =
     (if cl_ioThread w = th_running then Wait
      else Done (w\<lparr>cl_ioThread := th_none, cw_closers := joining_heartbeat # remove1 joining_io (cw_closers w)\<rparr>))"
  "client_close_continue joining_heartbeat w =
     (if cl_heartbeatThread w = th_running then Wait
      else Done (w\<lparr>cl_heartbeatThread := th_none, cw_closers := remove1 joining_heartbeat (cw_closers w)\<rparr>))"
  by (simp_all add: client_close_continue_def join_thread_def)

lemma joined_io_inv: "client_inv w \<Longrightarrow> client_inv (w\<lparr>cl_ioThread := th_none, cw_connecting := cs\<rparr>)"
  "client_inv w \<Longrightarrow> client_inv (w\<lparr>cl_ioThread := th_none, cw_closers := cs\<rparr>)"
  "client_inv w \<Longrightarrow> client_inv (w\<lparr>cl_heartbeatThread := th_none, cw_closers := cs\<rparr>)"
  by (auto simp: client_inv_def part_defs life_ok_def split: if_splits)

lemma init_io_inv:
  "client_inv w \<Longrightarrow> \<not> cl_ioc w \<Longrightarrow> client_inv (client_post op_start_resolve (w\<lparr>cw_connecting := cs,
     cl_heartbeatThread := th_none, cl_ioc := True, cl_workGuard := True, cl_connected := False, cl_closing := False,
     cl_heartbeatStop := False, cl_writeQueue := [], cl_writeInProgress := False,
     cw_stopped := False, cw_pending := [], cl_ioThread := th_running\<rparr>))"
  by (auto simp: client_inv_def part_defs life_ok_def writing_ok_def client_post_def List.map_filter_def)

lemma connecting_inv:
  assumes "client_inv w" "client_connect_continue p w = Done w'"
  shows "client_inv w'"
proof (cases p)
  case joining_io
  then show ?thesis using assms by (auto simp: connect_continue_io intro: joined_io_inv(1) split: if_splits)
next
  case joining_heartbeat
  then show ?thesis
    using assms by (auto simp: connect_continue_heartbeat intro: init_io_inv split: if_splits)
qed

lemma close_inv: "client_inv w \<Longrightarrow> client_inv (client_close w)"
  by (auto simp: client_inv_def client_close_def client_post_def part_defs life_ok_def writing_ok_def Let_def map_filter_snoc
      count_list_snoc_op)

lemma closing_inv: "client_inv w \<Longrightarrow> client_close_continue p w = Done w' \<Longrightarrow> client_inv w'"
  by (cases p) (auto simp: close_continue_simps intro: joined_io_inv(2,3) split: if_splits)

lemma reconnect_wakes_inv: "client_inv w \<Longrightarrow> 0 < cw_reconnecting w \<Longrightarrow> client_inv (client_reconnect_wakes w)"
  by (auto simp: client_inv_def client_reconnect_wakes_def client_connect_def part_defs life_ok_def writing_ok_def Let_def)

lemma send_inv: "client_inv w \<Longrightarrow> client_inv (client_send_text t w)" "client_inv w \<Longrightarrow> client_inv (client_send_ping w)"
  by (auto simp: client_inv_def client_send_text_def client_send_ping_def)

lemma heartbeat_inv:
  "client_inv w \<Longrightarrow> client_inv (client_heartbeat_head w)" "client_inv w \<Longrightarrow> client_inv (client_heartbeat_wakes w)"
proof -
  assume inv: "client_inv w"
  then show "client_inv (client_heartbeat_head w)"
    by (rule client_inv_quiet) (use inv in \<open>auto simp: client_inv_def client_heartbeat_head_def part_defs\<close>)
  from inv have "client_inv (w\<lparr>cw_heartbeatAsleep := False\<rparr>)"
    by (rule client_inv_quiet) (use inv in \<open>auto simp: client_inv_def part_defs\<close>)
  then show "client_inv (client_heartbeat_wakes w)" using send_inv(2) by (simp add: client_heartbeat_wakes_def Let_def)
qed

lemma configure_inv:
  "client_inv w \<Longrightarrow> client_inv (client_on h b w)" "client_inv w \<Longrightarrow> client_inv (enable_auto_reconnect b d w)"
  "client_inv w \<Longrightarrow> client_inv (enable_heartbeat i w)" "client_inv w \<Longrightarrow> cw_stopped w \<Longrightarrow> cl_ioThread w = th_running \<Longrightarrow> client_inv (w\<lparr>cl_ioThread := th_exited\<rparr>)"
  by (auto simp: client_inv_def client_on_def enable_auto_reconnect_def enable_heartbeat_def part_defs life_ok_def split: if_splits)

lemma client_inv_step: "client_inv w \<Longrightarrow> client_step w w' \<Longrightarrow> client_inv w'"
proof -
  assume inv: "client_inv w" and "client_step w w'"
  then obtain e where "client_exec e w = Some w'" unfolding client_step_def by blast
  then show "client_inv w'"
    using inv by (cases e) (auto split: if_splits intro: complete_ok connect_inv connecting_inv close_inv closing_inv
        reconnect_wakes_inv send_inv heartbeat_inv configure_inv)
qed

lemma client_inv_start: "client_start w \<Longrightarrow> client_inv w"
  by (auto simp: client_start_def new_client_def client_inv_def part_defs life_ok_def writing_ok_def List.map_filter_def)

interpretation client: invariant_machine client_start client_step client_inv
  by unfold_locales (rule client_inv_start, assumption, rule client_inv_step)

lemma client_run_reach: "reach client_start client_step w \<Longrightarrow> client_run es w = Some w' \<Longrightarrow> reach client_start client_step w'"
proof (induction es arbitrary: w)
  case (Cons e es)
  then obtain v where "client_exec e w = Some v" "client_run es v = Some w'" by (auto split: option.splits)
  then show ?case using Cons.IH Cons.prems(1) reach_step [of client_start client_step w v] unfolding client_step_def by blast
qed simp


section \<open>Order of the writes\<close>

lemma new_client_reach: "reach client_start client_step (new_client host port target)"
  by (rule reach_start) (auto simp: client_start_def)

text \<open>A run that opens a connection with a heartbeat and automatic reconnection.\<close>

definition open_run :: "client_event list" where
  "open_run = [ev_heartbeat 30, ev_auto_reconnect True 3, ev_on on_message True, ev_connect, ev_connecting joining_io, ev_connecting joining_heartbeat,
     ev_io op_start_resolve erc_ok [], ev_io op_resolve erc_ok [], ev_io op_connect erc_ok [], ev_io op_handshake erc_ok []]"

definition sample_client :: client_world where
  "sample_client = new_client ''localhost'' ''8080'' ''/''"

lemmas client_evaluate = open_run_def sample_client_def new_client_def client_connect_def connect_continue_io
  connect_continue_heartbeat client_do_resolve_def client_resolved_def client_connected_def client_handshaken_def
  client_callback_def client_post_def client_start_heartbeat_def enable_heartbeat_def enable_auto_reconnect_def
  client_on_def client_send_text_def client_enqueue_def client_do_write_def client_written_def done_of_def
  client_close_def close_continue_simps client_read_def client_emit_error_def maybe_schedule_reconnect_def
  client_reconnect_wakes_def client_fail_def client_heartbeat_head_def client_heartbeat_wakes_def Let_def

text \<open>C14: As long as no write ended with \<open>operation_aborted\<close>, the client has at most one write in flight, it is the
  write of the text at the head of the queue, and while the client is not closing a busy queue has one; the
  texts leave the queue in the order in which they were accepted, none is lost or repeated.\<close>

theorem client_writes_in_order:
  assumes "reach client_start client_step w" "\<not> cw_aborted w"
  shows "cw_taken w = cw_done w @ cl_writeQueue w \<and>
    (client_writes w = [] \<or> cl_writeInProgress w \<and> cl_writeQueue w \<noteq> [] \<and> client_writes w = [hd (cl_writeQueue w)]) \<and>
    (cl_writeInProgress w \<and> \<not> cl_closing w \<longrightarrow> client_writes w \<noteq> [])"
  using client.reach_inv [OF assms(1)] assms(2)
  by (auto simp: client_inv_def writing_part_def writing_ok_def split: if_splits)

theorem client_writes_in_order_witness:
  "\<exists>w. client_run (open_run @ [ev_send_text ''a'', ev_send_text ''b'', ev_io (op_send ''a'') erc_ok [],
       ev_io (op_send ''b'') erc_ok []]) sample_client = Some w \<and>
     cw_taken w = [''a'', ''b''] \<and> cw_taken w = cw_done w @ cl_writeQueue w \<and> client_writes w = [''a'']"
proof -
  obtain w where run: "client_run (open_run @ [ev_send_text ''a'', ev_send_text ''b'', ev_io (op_send ''a'') erc_ok [],
       ev_io (op_send ''b'') erc_ok []]) sample_client = Some w"
      and w: "cw_taken w = [''a'', ''b'']" "\<not> cw_aborted w" "client_writes w = [''a'']"
    by (simp add: client_evaluate client_writes_def List.map_filter_def)
  have "reach client_start client_step w"
    using client_run_reach [OF _ run] new_client_reach unfolding sample_client_def by blast
  then show ?thesis using client_writes_in_order [of w] run w by auto
qed

text \<open>An aborted write lets the next one start while the queue is marked idle, and the next text starts another.\<close>

lemma client_aborted_write_overlaps:
  "\<exists>w. client_run (open_run @ map ev_send_text [''a'', ''b'', ''c''] @
       [ev_io (op_send ''a'') erc_ok [], ev_io (op_send ''b'') erc_ok [], ev_io (op_write ''a'') erc_aborted [],
        ev_io (op_send ''c'') erc_ok []]) sample_client = Some w \<and> client_writes w = [''b'', ''b'']"
  by (simp add: client_evaluate client_writes_def List.map_filter_def)

section \<open>Closing\<close>

definition quiet_part where
  "quiet_part w = (cl_closing w, cw_connecting w, cw_resolves w, cw_callbacks w, cw_taken w, cw_done w)"

lemma closed_quiet:
  assumes "client_inv w" "cl_closing w" "cw_connecting w = []" "client_exec e w = Some t"
  shows "quiet_part t = quiet_part w"
proof (cases e)
  case (ev_closing p)
  then show ?thesis using assms by (cases p) (auto simp: close_continue_simps quiet_part_def split: if_splits)
next
  case (ev_io op ec data)
  have "cl_ioc w \<longrightarrow> cw_stopped w" "\<not> cl_ioc w \<longrightarrow> cl_ioThread w = th_none"
    using assms(1,2) by (auto simp: client_inv_def life_ok_def life_of_def split: if_splits)
  then show ?thesis using assms(4) ev_io by (auto split: if_splits)
qed (use assms in \<open>auto simp: quiet_part_def client_connect_def client_close_def client_send_text_def client_send_ping_def
    client_on_def enable_auto_reconnect_def enable_heartbeat_def client_heartbeat_head_def client_heartbeat_wakes_def
    client_reconnect_wakes_def Let_def split: if_splits\<close>)

lemma closed_quiet_steps:
  "client_step\<^sup>*\<^sup>* w t \<Longrightarrow> client_inv w \<Longrightarrow> cl_closing w \<Longrightarrow> cw_connecting w = [] \<Longrightarrow> quiet_part t = quiet_part w"
proof (induction rule: rtranclp_induct)
  case (step t u)
  have "cl_closing t" "cw_connecting t = []" using step.IH [OF step.prems] step.prems(2,3) by (simp_all add: quiet_part_def)
  then show ?case
    using step closed_quiet [OF client.steps_inv [OF step.hyps(1) step.prems(1)]] unfolding client_step_def by metis
qed simp

definition join_work :: "join_point list \<Rightarrow> nat" where
  "join_work ps = sum_list (map (\<lambda>p. if p = joining_io then 2 else 1) ps)"

lemma joins_finish:
  "cl_ioThread w \<noteq> th_running \<Longrightarrow> cl_heartbeatThread w \<noteq> th_running \<Longrightarrow> \<exists>s. client_step\<^sup>*\<^sup>* w s \<and> cw_closers s = []"
proof (induction "join_work (cw_closers w)" arbitrary: w rule: less_induct)
  case less
  show ?case
  proof (cases "cw_closers w")
    case (Cons p ps)
    obtain v where v: "client_close_continue p w = Done v" "join_work (cw_closers v) < join_work (cw_closers w)"
        "cl_ioThread v \<noteq> th_running" "cl_heartbeatThread v \<noteq> th_running"
      using less.prems Cons by (cases p) (auto simp: close_continue_simps join_work_def)
    then have "client_step w v" unfolding client_step_def using Cons by (intro exI [of _ "ev_closing p"]) simp
    then show ?thesis using less.hyps [OF v(2-4)] converse_rtranclp_into_rtranclp [of client_step w v] by blast
  qed auto
qed

lemma io_finishes:
  assumes "client_inv w" "cl_closing w"
  shows "\<exists>s. client_step\<^sup>*\<^sup>* w s \<and> client_inv s \<and> cl_closing s \<and> cl_ioThread s \<noteq> th_running"
proof (cases "cl_ioThread w = th_running")
  case True
  then have "cw_stopped w" using assms by (auto simp: client_inv_def life_ok_def life_of_def split: if_splits)
  then have "client_step w (w\<lparr>cl_ioThread := th_exited\<rparr>)"
    unfolding client_step_def using True by (intro exI [of _ ev_io_ends]) simp
  then have "client_step\<^sup>*\<^sup>* w (w\<lparr>cl_ioThread := th_exited\<rparr>)" "client_inv (w\<lparr>cl_ioThread := th_exited\<rparr>)"
    using client_inv_step [OF assms(1)] by auto
  then show ?thesis using assms(2) by (intro exI [of _ "w\<lparr>cl_ioThread := th_exited\<rparr>"]) simp
qed (use assms in auto)

lemma heartbeat_finishes:
  assumes "client_inv w" "cl_closing w" "cl_ioThread w \<noteq> th_running"
  shows "\<exists>s. client_step\<^sup>*\<^sup>* w s \<and> cl_ioThread s \<noteq> th_running \<and> cl_heartbeatThread s \<noteq> th_running"
proof (cases "cl_heartbeatThread w = th_running")
  case True
  have "\<not> cl_alive w" using assms by (simp add: client_inv_def life_ok_def life_of_def)
  let ?v = "w\<lparr>cw_heartbeatAsleep := False\<rparr>" and ?s = "w\<lparr>cw_heartbeatAsleep := False, cl_heartbeatThread := th_exited\<rparr>"
  have "client_step\<^sup>*\<^sup>* w ?v"
  proof (cases "cw_heartbeatAsleep w")
    case asleep: True
    then have "client_exec ev_heartbeat_wakes w = Some ?v"
      using True assms(2) by (simp add: client_heartbeat_wakes_def)
    then show ?thesis unfolding client_step_def by blast
  next
    case False
    then have "?v = w" by (cases w) simp
    then show ?thesis by simp
  qed
  moreover have "client_exec ev_heartbeat_head ?v = Some ?s"
    using True \<open>\<not> cl_alive w\<close> by (simp add: client_heartbeat_head_def)
  then have "client_step ?v ?s" unfolding client_step_def by blast
  ultimately have "client_step\<^sup>*\<^sup>* w ?s" by (rule rtranclp.rtrancl_into_rtrancl)
  then show ?thesis using assms(3) by (intro exI [of _ ?s]) simp
qed (use assms in auto)



text \<open>A \<open>close\<close> that falls between the test and the reset in \<open>connect\<close> is lost: it returns, and the client connects.\<close>

lemma client_close_lost:
  "\<exists>w. client_run [ev_connect, ev_close, ev_closing joining_io, ev_closing joining_heartbeat, ev_connecting joining_io,
       ev_connecting joining_heartbeat, ev_io op_start_resolve erc_ok [], ev_io op_resolve erc_ok [],
       ev_io op_connect erc_ok [], ev_io op_handshake erc_ok []] sample_client = Some w \<and>
     cw_closers w = [] \<and> cl_connected w \<and> \<not> cl_alive w"
  by (simp add: client_evaluate)

section \<open>Reconnecting\<close>

text \<open>A reconnect waits for the heartbeat thread, which nobody told to stop.\<close>

definition heartbeat_blocks :: "client_world \<Rightarrow> bool" where
  "heartbeat_blocks w \<longleftrightarrow> cl_alive w \<and> \<not> cl_heartbeatStop w \<and> cl_heartbeatThread w = th_running \<and>
     joining_heartbeat \<in> set (cw_connecting w)"

lemma blocks_quiet [simp]:
  "heartbeat_blocks (client_post op w) = heartbeat_blocks w" "heartbeat_blocks (client_callback h c w) = heartbeat_blocks w"
  "heartbeat_blocks (client_emit_error ec w) = heartbeat_blocks w"
  "heartbeat_blocks (maybe_schedule_reconnect ec w) = heartbeat_blocks w"
  "heartbeat_blocks (client_fail ec w) = heartbeat_blocks w"
  "heartbeat_blocks w \<Longrightarrow> heartbeat_blocks (client_start_heartbeat w)"
  by (simp_all add: heartbeat_blocks_def client_post_def client_callback_def client_emit_error_def
      maybe_schedule_reconnect_def client_fail_def client_start_heartbeat_def)

lemma blocks_fields [simp]:
  "heartbeat_blocks (w\<lparr>cw_resolves := n\<rparr>) = heartbeat_blocks w" "heartbeat_blocks (w\<lparr>cl_connected := b\<rparr>) = heartbeat_blocks w"
  "heartbeat_blocks (w\<lparr>cl_writeQueue := q\<rparr>) = heartbeat_blocks w" "heartbeat_blocks (w\<lparr>cl_writeInProgress := b\<rparr>) = heartbeat_blocks w"
  "heartbeat_blocks (w\<lparr>cw_taken := q\<rparr>) = heartbeat_blocks w" "heartbeat_blocks (w\<lparr>cw_done := q\<rparr>) = heartbeat_blocks w"
  "heartbeat_blocks (w\<lparr>cw_aborted := b\<rparr>) = heartbeat_blocks w" "heartbeat_blocks (w\<lparr>cw_pending := ops\<rparr>) = heartbeat_blocks w"
  "heartbeat_blocks (w\<lparr>cl_ioThread := th\<rparr>) = heartbeat_blocks w" "heartbeat_blocks (w\<lparr>cw_heartbeatAsleep := b\<rparr>) = heartbeat_blocks w"
  by (simp_all add: heartbeat_blocks_def)

lemma blocks_complete: "heartbeat_blocks w \<Longrightarrow> heartbeat_blocks (client_complete op ec data w)"
  by (cases op) (simp_all add: client_do_resolve_def client_resolved_def client_connected_def client_handshaken_def client_read_def
      client_enqueue_def client_do_write_def client_written_def client_do_ping_def client_pinged_def client_closed_def Let_def
      split: list.split)

lemma blocks_connecting:
  "heartbeat_blocks w \<Longrightarrow> client_connect_continue p w = Done w' \<Longrightarrow> heartbeat_blocks w'"
  by (cases p) (auto simp: heartbeat_blocks_def connect_continue_io connect_continue_heartbeat split: if_splits)

lemma blocks_closing:
  "heartbeat_blocks w \<Longrightarrow> client_close_continue p w = Done w' \<Longrightarrow> heartbeat_blocks w'"
  by (cases p) (auto simp: heartbeat_blocks_def close_continue_simps split: if_splits)

lemma blocks_calls:
  "heartbeat_blocks w \<Longrightarrow> heartbeat_blocks (client_connect w)" "heartbeat_blocks w \<Longrightarrow> heartbeat_blocks (client_reconnect_wakes w)"
  "heartbeat_blocks w \<Longrightarrow> heartbeat_blocks (client_send_text t w)" "heartbeat_blocks w \<Longrightarrow> heartbeat_blocks (client_send_ping w)"
  "heartbeat_blocks w \<Longrightarrow> heartbeat_blocks (client_on h b w)" "heartbeat_blocks w \<Longrightarrow> heartbeat_blocks (enable_auto_reconnect b d w)"
  "heartbeat_blocks w \<Longrightarrow> heartbeat_blocks (enable_heartbeat i w)" "heartbeat_blocks w \<Longrightarrow> heartbeat_blocks (client_heartbeat_head w)"
  "heartbeat_blocks w \<Longrightarrow> heartbeat_blocks (client_heartbeat_wakes w)"
  by (auto simp: heartbeat_blocks_def client_connect_def client_reconnect_wakes_def client_send_text_def client_send_ping_def
      client_post_def client_on_def enable_auto_reconnect_def enable_heartbeat_def client_heartbeat_head_def
      client_heartbeat_wakes_def Let_def)

lemma blocks_exec: "heartbeat_blocks w \<Longrightarrow> e \<noteq> ev_close \<Longrightarrow> client_exec e w = Some w' \<Longrightarrow> heartbeat_blocks w'"
  by (cases e) (auto intro: blocks_calls blocks_complete dest: blocks_connecting blocks_closing split: if_splits)

lemma blocks_run: "client_run es w = Some t \<Longrightarrow> ev_close \<notin> set es \<Longrightarrow> heartbeat_blocks w \<Longrightarrow> heartbeat_blocks t"
proof (induction es arbitrary: w)
  case (Cons e es)
  then obtain v where "client_exec e w = Some v" "client_run es v = Some t" by (auto split: option.splits)
  then show ?case using Cons.IH [of v] blocks_exec [of w e v] Cons.prems by auto
qed simp

text \<open>A reconnect of a client with a heartbeat never comes to its end: it waits for the heartbeat thread, and
  whatever is called and whatever thread runs next, as long as nobody calls \<open>close\<close>, it still waits and the host
  is not resolved a second time.\<close>

theorem client_reconnect_waits_forever:
  assumes "reach client_start client_step w" "cl_alive w" "\<not> cl_heartbeatStop w" "cl_heartbeatThread w = th_running"
    and "joining_heartbeat \<in> set (cw_connecting w)" "client_run es w = Some t" "ev_close \<notin> set es"
  shows "joining_heartbeat \<in> set (cw_connecting t) \<and> client_connect_continue joining_heartbeat t = Wait \<and> cw_resolves t \<le> 1"
proof -
  have "heartbeat_blocks t"
    using blocks_run [OF assms(6,7)] assms(2-5) by (simp add: heartbeat_blocks_def)
  moreover have "life_ok (life_of t)"
    using client.reach_inv [OF client_run_reach [OF assms(1,6)]] by (simp add: client_inv_def)
  then have "cw_resolves t \<le> 1" by (auto simp: life_ok_def life_of_def split: if_splits)
  ultimately show ?thesis by (simp add: heartbeat_blocks_def connect_continue_heartbeat)
qed

theorem client_reconnect_waits_forever_witness:
  "\<exists>w t. client_run (open_run @ [ev_io op_read (erc_other ''reset'') [], ev_reconnect_wakes, ev_io_ends, ev_connecting joining_io])
       sample_client = Some w \<and> client_run [ev_heartbeat_head, ev_heartbeat_wakes] w = Some t \<and>
     client_connect_continue joining_heartbeat t = Wait"
proof -
  obtain w where run: "client_run (open_run @ [ev_io op_read (erc_other ''reset'') [], ev_reconnect_wakes, ev_io_ends,
       ev_connecting joining_io]) sample_client = Some w"
      and w: "cl_alive w" "\<not> cl_heartbeatStop w" "cl_heartbeatThread w = th_running" "cw_connecting w = [joining_heartbeat]"
        "\<not> cw_heartbeatAsleep w"
    by (simp add: client_evaluate)
  obtain t where t: "client_run [ev_heartbeat_head, ev_heartbeat_wakes] w = Some t"
    using w by (simp add: client_heartbeat_head_def)
  have "reach client_start client_step w"
    using client_run_reach [OF _ run] new_client_reach unfolding sample_client_def by blast
  then show ?thesis using client_reconnect_waits_forever [of w "[ev_heartbeat_head, ev_heartbeat_wakes]" t] run w t by auto
qed

text \<open>Without a heartbeat the reconnect destroys the io context under the objects that still refer to it.\<close>

lemma client_reconnect_undefined:
  "\<exists>w. client_run ([ev_auto_reconnect True 3, ev_connect, ev_connecting joining_io, ev_connecting joining_heartbeat,
       ev_io op_start_resolve erc_ok [], ev_io op_resolve (erc_other ''no such host'') [], ev_reconnect_wakes, ev_io_ends,
       ev_connecting joining_io]) sample_client = Some w \<and>
     cw_connecting w = [joining_heartbeat] \<and> client_connect_continue joining_heartbeat w = Undef"
  by (simp add: client_evaluate)

end
