(* ===== verification/Allocators.thy ===== *)
theory Allocators
  imports Rtl_Prelude
begin

text \<open>
  The allocators of \<^verbatim>\<open>allocators/LinearAllocator.hpp\<close> and \<^verbatim>\<open>allocators/BlockAllocator.hpp\<close>, and the bounded
  buffer of \<^verbatim>\<open>collectors/BufferCollectorTemplate.h\<close>.  Addresses and sizes are 64-bit words and the null
  pointer is 0; the element size \<open>sz\<close> stands for \<open>sizeof(value_type)\<close>.  A failed assertion is an error value.
\<close>

datatype alloc_error = assertion_failed | bad_alloc

section \<open>LinearAllocator\<close>

definition ALLOCATOR_SIZE :: size_t where
  "ALLOCATOR_SIZE = 1024 * 1024"

record linear_allocator =
  la_offset :: size_t

definition new_linear :: linear_allocator where
  "new_linear = \<lparr>la_offset = 0\<rparr>"

text \<open>The result is the offset of the region in the buffer.\<close>

definition la_allocate :: "size_t \<Rightarrow> size_t \<Rightarrow> linear_allocator \<Rightarrow> (alloc_error, size_t \<times> linear_allocator) result" where
  "la_allocate sz n a =
     (if \<not> (n > 0 \<and> n * sz \<le> ALLOCATOR_SIZE) then Inl assertion_failed
      else if la_offset a + n * sz > ALLOCATOR_SIZE then Inl bad_alloc
      else Inr (la_offset a, a\<lparr>la_offset := la_offset a + n * sz\<rparr>))"

definition la_deallocate :: "size_t \<Rightarrow> size_t \<Rightarrow> linear_allocator \<Rightarrow> linear_allocator" where
  "la_deallocate p n a = a"

text \<open>The contract: a bump allocator of a given capacity on natural numbers.\<close>

definition bump_allocate :: "nat \<Rightarrow> nat \<Rightarrow> (alloc_error, nat \<times> nat) result" where
  "bump_allocate bytes used =
     (if bytes = 0 \<or> bytes > 1048576 then Inl assertion_failed
      else if used + bytes > 1048576 then Inl bad_alloc
      else Inr (used, used + bytes))"

definition la_abs :: "(alloc_error, size_t \<times> linear_allocator) result \<Rightarrow> (alloc_error, nat \<times> nat) result" where
  "la_abs r = (case r of Inl e \<Rightarrow> Inl e | Inr (p, a) \<Rightarrow> Inr (unat p, unat (la_offset a)))"

text \<open>The regions handed out by a sequence of requests.\<close>

fun la_run :: "size_t \<Rightarrow> size_t list \<Rightarrow> linear_allocator \<Rightarrow> (nat \<times> nat) list" where
  "la_run sz [] a = []"
| "la_run sz (n # ns) a =
     (case la_allocate sz n a of
        Inl e \<Rightarrow> la_run sz ns a
      | Inr (p, a') \<Rightarrow> (unat p, unat n * unat sz) # la_run sz ns a')"

lemma unat_times: "unat (a :: size_t) * unat b < 18446744073709551616 \<Longrightarrow> unat (a * b) = unat a * unat b"
  by (simp add: unat_word_ariths)

lemma ALLOCATOR_SIZE_unat [simp]: "unat ALLOCATOR_SIZE = 1048576"
  by (simp add: ALLOCATOR_SIZE_def)

lemma la_allocate_refines:
  assumes "unat n * unat sz < 2 ^ 64" "0 < unat sz" "unat (la_offset a) \<le> 1048576"
  shows "la_abs (la_allocate sz n a) = bump_allocate (unat n * unat sz) (unat (la_offset a))"
proof -
  let ?b = "unat n * unat sz"
  have b: "unat (n * sz) = ?b" using assms(1) by (intro unat_times) simp
  have z: "n > 0 \<longleftrightarrow> 0 < ?b" using assms(2) by (simp add: word_less_nat_alt)
  show ?thesis
  proof (cases "0 < ?b \<and> ?b \<le> 1048576")
    case True
    have s: "unat (la_offset a + n * sz) = unat (la_offset a) + ?b"
      using True assms(3) b by (subst unat_add_nowrap) simp_all
    then show ?thesis using True b z
      by (simp add: la_allocate_def bump_allocate_def la_abs_def word_le_nat_alt word_less_nat_alt)
  next
    case False
    then show ?thesis using b z
      by (auto simp: la_allocate_def bump_allocate_def la_abs_def word_le_nat_alt)
  qed
qed

fun regions_from :: "nat \<Rightarrow> (nat \<times> nat) list \<Rightarrow> bool" where
  "regions_from lo [] \<longleftrightarrow> True"
| "regions_from lo ((p, l) # rs) \<longleftrightarrow> lo \<le> p \<and> p + l \<le> 1048576 \<and> regions_from (p + l) rs"

lemma regions_from_mono: "regions_from lo rs \<Longrightarrow> lo' \<le> lo \<Longrightarrow> regions_from lo' rs"
  by (cases rs) auto

lemma regions_from_bounds: "regions_from lo rs \<Longrightarrow> (p, l) \<in> set rs \<Longrightarrow> lo \<le> p \<and> p + l \<le> 1048576"
proof (induction lo rs rule: regions_from.induct)
  case (2 lo p' l' rs)
  then show ?case by auto
qed simp

lemma regions_from_sorted: "regions_from lo rs \<Longrightarrow> sorted_wrt (\<lambda>r r'. fst r + snd r \<le> fst r') rs"
  by (induction lo rs rule: regions_from.induct) (auto dest: regions_from_bounds)

lemma la_run_regions:
  assumes "\<forall>n \<in> set ns. unat n * unat sz < 2 ^ 64" "0 < unat sz" "unat (la_offset a) \<le> 1048576"
  shows "regions_from (unat (la_offset a)) (la_run sz ns a)"
  using assms
proof (induction ns arbitrary: a)
  case (Cons n ns)
  show ?case
  proof (cases "la_allocate sz n a")
    case (Inl e)
    then show ?thesis using Cons by simp
  next
    case (Inr r)
    obtain p a' where r: "r = (p, a')" by fastforce
    have "la_abs (Inr (p, a')) = bump_allocate (unat n * unat sz) (unat (la_offset a))"
      using la_allocate_refines [of n sz a] Cons.prems Inr r by simp
    then have q: "unat p = unat (la_offset a)" "unat (la_offset a') = unat (la_offset a) + unat n * unat sz"
      "unat (la_offset a') \<le> 1048576"
      by (auto simp: la_abs_def bump_allocate_def split: if_splits)
    have "regions_from (unat (la_offset a')) (la_run sz ns a')" using Cons.IH [of a'] Cons.prems q(3) by simp
    with q Inr r show ?thesis by simp
  qed
qed simp

text \<open>C26: The linear allocator implements a bump allocator: as long as the byte count of a request does not
  wrap around, an allocation throws or succeeds exactly as the specification says, and the regions handed out
  by any sequence of requests lie inside the buffer, one after the other without overlap.\<close>

theorem linear_allocator_refines_bump:
  assumes "unat n * unat sz < 2 ^ 64" "0 < unat sz" "unat (la_offset a) \<le> 1048576" "\<forall>k \<in> set ns. unat k * unat sz < 2 ^ 64"
  shows "la_abs (la_allocate sz n a) = bump_allocate (unat n * unat sz) (unat (la_offset a)) \<and>
    (\<forall>r \<in> set (la_run sz ns a). unat (la_offset a) \<le> fst r \<and> fst r + snd r \<le> 1048576) \<and>
    sorted_wrt (\<lambda>r r'. fst r + snd r \<le> fst r') (la_run sz ns a)"
proof -
  have f: "regions_from (unat (la_offset a)) (la_run sz ns a)" by (rule la_run_regions [OF assms(4,2,3)])
  then have "\<forall>r \<in> set (la_run sz ns a). unat (la_offset a) \<le> fst r \<and> fst r + snd r \<le> 1048576"
    using regions_from_bounds by (metis prod.collapse)
  with f show ?thesis using la_allocate_refines [OF assms(1-3)] regions_from_sorted by simp
qed

theorem linear_allocator_refines_bump_witness:
  "la_abs (la_allocate 8 4 new_linear) = Inr (0, 32) \<and>
   sorted_wrt (\<lambda>r r'. fst r + snd r \<le> fst r') (la_run 8 [4, 200000, 2] new_linear)"
proof -
  have "la_abs (la_allocate 8 4 new_linear) = bump_allocate (unat (4 :: size_t) * unat (8 :: size_t)) (unat (la_offset new_linear)) \<and>
      sorted_wrt (\<lambda>r r'. fst r + snd r \<le> fst r') (la_run 8 [4, 200000, 2] new_linear)"
    using linear_allocator_refines_bump [of 4 8 new_linear "[4, 200000, 2]"] by (simp add: new_linear_def)
  then show ?thesis by (simp add: new_linear_def bump_allocate_def)
qed

text \<open>Without the condition the byte count wraps: a request for \<open>2^61 + 1\<close> elements of 8 bytes gets 8 bytes.
  Between the test and \<open>fetch_add\<close> another thread may allocate, so the second of two threads that passed the
  test at the last free word gets a region past the end of the buffer.\<close>

lemma la_wraps: "la_allocate 8 2305843009213693953 new_linear = Inr (0, \<lparr>la_offset = 8\<rparr>)"
  by (simp add: la_allocate_def new_linear_def ALLOCATOR_SIZE_def)

definition la_passes_test :: "size_t \<Rightarrow> size_t \<Rightarrow> linear_allocator \<Rightarrow> bool" where
  "la_passes_test sz n a \<longleftrightarrow> n > 0 \<and> n * sz \<le> ALLOCATOR_SIZE \<and> \<not> la_offset a + n * sz > ALLOCATOR_SIZE"

definition la_fetch_add :: "size_t \<Rightarrow> size_t \<Rightarrow> linear_allocator \<Rightarrow> size_t \<times> linear_allocator" where
  "la_fetch_add sz n a = (la_offset a, a\<lparr>la_offset := la_offset a + n * sz\<rparr>)"

lemma la_race:
  assumes "la_offset a = ALLOCATOR_SIZE - 8"
  shows "la_passes_test 8 1 a \<and> fst (la_fetch_add 8 1 (snd (la_fetch_add 8 1 a))) = ALLOCATOR_SIZE"
  using assms by (simp add: la_passes_test_def la_fetch_add_def ALLOCATOR_SIZE_def)

section \<open>BlockAllocator\<close>

record allocator_block =
  ab_size :: size_t
  ab_ptr :: size_t

abbreviation null_block :: allocator_block where
  "null_block \<equiv> \<lparr>ab_size = 0, ab_ptr = 0\<rparr>"

definition BlocksSize :: nat where
  "BlocksSize = 1024"

definition LINEAR_ALLOCATOR_BLOCK_SIZE :: size_t where
  "LINEAR_ALLOCATOR_BLOCK_SIZE = 1024 * 1024"

record block_allocator =
  ba_allocatedBlocks :: "allocator_block list"
  ba_freeBlocks :: "allocator_block list"

text \<open>\<open>base\<close> is the address of the buffer.\<close>

definition new_block_allocator :: "size_t \<Rightarrow> block_allocator" where
  "new_block_allocator base =
     \<lparr>ba_allocatedBlocks = replicate BlocksSize null_block,
      ba_freeBlocks = (replicate BlocksSize null_block)[0 := \<lparr>ab_size = LINEAR_ALLOCATOR_BLOCK_SIZE, ab_ptr = base\<rparr>]\<rparr>"

text \<open>The position of the first block with a property.\<close>

fun first_block :: "(allocator_block \<Rightarrow> bool) \<Rightarrow> allocator_block list \<Rightarrow> nat option" where
  "first_block P [] = None"
| "first_block P (b # bs) = (if P b then Some 0 else map_option Suc (first_block P bs))"

definition searchNullptr :: "allocator_block list \<Rightarrow> (alloc_error, nat) result" where
  "searchNullptr blocks =
     (case first_block (\<lambda>b. ab_ptr b = 0) blocks of None \<Rightarrow> Inl assertion_failed | Some i \<Rightarrow> Inr i)"

definition allocateToFreeBlock ::
  "size_t \<Rightarrow> size_t \<Rightarrow> block_allocator \<Rightarrow> (alloc_error, size_t \<times> block_allocator) result" where
  "allocateToFreeBlock sz n a =
     (case first_block (\<lambda>b. ab_ptr b \<noteq> 0 \<and> ab_size b \<ge> n * sz) (ba_freeBlocks a) of
        None \<Rightarrow> Inl assertion_failed
      | Some i \<Rightarrow>
         (case searchNullptr (ba_allocatedBlocks a) of
            Inl e \<Rightarrow> Inl e
          | Inr j \<Rightarrow>
             (let block = ba_freeBlocks a ! i;
                  bytesLeft = ab_size block - n * sz
              in Inr (ab_ptr block,
                   a\<lparr>ba_allocatedBlocks := (ba_allocatedBlocks a)[j := \<lparr>ab_size = n * sz, ab_ptr = ab_ptr block\<rparr>],
                     ba_freeBlocks := (ba_freeBlocks a)[i :=
                       (if bytesLeft > 0 then \<lparr>ab_size = bytesLeft, ab_ptr = ab_ptr block + n * sz\<rparr>
                        else null_block)]\<rparr>))))"

text \<open>The loop over neighbouring blocks; a merged block leaves a null block behind.\<close>

fun merge_loop :: "allocator_block list \<Rightarrow> allocator_block list" where
  "merge_loop (cur # nxt # rest) =
     (if ab_ptr cur \<noteq> 0 \<and> ab_ptr nxt \<noteq> 0 \<and> ab_ptr cur + ab_size cur = ab_ptr nxt
      then \<lparr>ab_size = ab_size cur + ab_size nxt, ab_ptr = ab_ptr cur\<rparr> # merge_loop (null_block # rest)
      else cur # merge_loop (nxt # rest))"
| "merge_loop bs = bs"

definition mergeFreeBlocks :: "block_allocator \<Rightarrow> block_allocator" where
  "mergeFreeBlocks a = a\<lparr>ba_freeBlocks := merge_loop (sort_key ab_ptr (ba_freeBlocks a))\<rparr>"

definition ba_allocate :: "size_t \<Rightarrow> size_t \<Rightarrow> block_allocator \<Rightarrow> (alloc_error, size_t \<times> block_allocator) result" where
  "ba_allocate sz n a =
     (case allocateToFreeBlock sz n a of Inl e \<Rightarrow> Inl e | Inr (p, a') \<Rightarrow> Inr (p, mergeFreeBlocks a'))"

definition ba_deallocate :: "size_t \<Rightarrow> block_allocator \<Rightarrow> (alloc_error, block_allocator) result" where
  "ba_deallocate p a =
     (case searchNullptr (ba_freeBlocks a) of
        Inl e \<Rightarrow> Inl e
      | Inr k \<Rightarrow>
         (case first_block (\<lambda>b. ab_ptr b = p) (ba_allocatedBlocks a) of
            None \<Rightarrow> Inr a
          | Some j \<Rightarrow> Inr (mergeFreeBlocks (a\<lparr>ba_freeBlocks := (ba_freeBlocks a)[k :=
              \<lparr>ab_size = ab_size (ba_allocatedBlocks a ! j), ab_ptr = p\<rparr>]\<rparr>))))"

fun ba_allocate_all :: "size_t \<Rightarrow> size_t list \<Rightarrow> block_allocator \<Rightarrow> block_allocator" where
  "ba_allocate_all sz [] a = a"
| "ba_allocate_all sz (n # ns) a =
     (case ba_allocate sz n a of Inl e \<Rightarrow> ba_allocate_all sz ns a | Inr (p, a') \<Rightarrow> ba_allocate_all sz ns a')"

section \<open>Every byte belongs to one block\<close>

definition covers :: "allocator_block \<Rightarrow> nat \<Rightarrow> bool" where
  "covers b x \<longleftrightarrow> unat (ab_ptr b) \<le> x \<and> x < unat (ab_ptr b) + unat (ab_size b)"

definition cover_count :: "nat \<Rightarrow> allocator_block list \<Rightarrow> nat" where
  "cover_count x bs = sum_list (map (\<lambda>b. of_bool (covers b x)) bs)"

text \<open>A null block is empty, any other block lies inside the buffer.\<close>

definition block_ok :: "size_t \<Rightarrow> allocator_block \<Rightarrow> bool" where
  "block_ok base b \<longleftrightarrow> (if ab_ptr b = 0 then ab_size b = 0
     else unat base \<le> unat (ab_ptr b) \<and> unat (ab_ptr b) + unat (ab_size b) \<le> unat base + 1048576)"

definition partition_inv :: "size_t \<Rightarrow> block_allocator \<Rightarrow> bool" where
  "partition_inv base a \<longleftrightarrow> list_all (block_ok base) (ba_freeBlocks a @ ba_allocatedBlocks a) \<and>
     (\<forall>x. cover_count x (ba_freeBlocks a) + cover_count x (ba_allocatedBlocks a) =
        of_bool (unat base \<le> x \<and> x < unat base + 1048576))"

lemma first_block_Some: "first_block P bs = Some i \<Longrightarrow> i < length bs \<and> P (bs ! i)"
  by (induction bs arbitrary: i) (auto split: if_splits)

lemma cover_update: "i < length bs \<Longrightarrow> cover_count x (bs[i := b]) + of_bool (covers (bs ! i) x) = cover_count x bs + of_bool (covers b x)"
  unfolding cover_count_def using sum_list_map_update [of i bs "\<lambda>b. of_bool (covers b x) :: nat" b] by simp

lemma covers_null [simp]: "\<not> covers null_block x"
  by (simp add: covers_def)

lemma cover_sort [simp]: "cover_count x (sort_key f bs) = cover_count x bs"
proof -
  have "mset (map (\<lambda>b. of_bool (covers b x) :: nat) (sort_key f bs)) = mset (map (\<lambda>b. of_bool (covers b x)) bs)" by simp
  then show ?thesis unfolding cover_count_def by (metis sum_mset_sum_list)
qed


lemma merged_block:
  assumes fits: "unat base + 1048576 < 18446744073709551616" and ok: "block_ok base c" "block_ok base d"
    and "ab_ptr c \<noteq> 0" "ab_ptr d \<noteq> 0" "ab_ptr c + ab_size c = ab_ptr d"
  shows "block_ok base \<lparr>ab_size = ab_size c + ab_size d, ab_ptr = ab_ptr c\<rparr>"
    and "of_bool (covers \<lparr>ab_size = ab_size c + ab_size d, ab_ptr = ab_ptr c\<rparr> x) = (of_bool (covers c x) + of_bool (covers d x) :: nat)"
proof -
  have c: "unat base \<le> unat (ab_ptr c)" "unat (ab_ptr c) + unat (ab_size c) \<le> unat base + 1048576"
    and d: "unat (ab_ptr d) + unat (ab_size d) \<le> unat base + 1048576" using ok assms(4,5) by (simp_all add: block_ok_def)
  have p: "unat (ab_ptr d) = unat (ab_ptr c) + unat (ab_size c)"
    unfolding assms(6) [symmetric] using c fits by (intro unat_add_nowrap) linarith
  have s: "unat (ab_size c + ab_size d) = unat (ab_size c) + unat (ab_size d)"
    using p c d fits by (intro unat_add_nowrap) linarith
  show "block_ok base \<lparr>ab_size = ab_size c + ab_size d, ab_ptr = ab_ptr c\<rparr>"
    using assms(4) c(1) d p s by (simp add: block_ok_def)
  show "of_bool (covers \<lparr>ab_size = ab_size c + ab_size d, ab_ptr = ab_ptr c\<rparr> x) = (of_bool (covers c x) + of_bool (covers d x) :: nat)"
    using p s by (auto simp: covers_def)
qed

lemma cover_Cons: "cover_count x (b # bs) = of_bool (covers b x) + cover_count x bs"
  by (simp add: cover_count_def)

lemma merge_loop_partition:
  assumes "unat base + 1048576 < 18446744073709551616" "list_all (block_ok base) bs"
  shows "list_all (block_ok base) (merge_loop bs) \<and> cover_count x (merge_loop bs) = cover_count x bs"
  using assms(2)
proof (induction bs rule: merge_loop.induct)
  case (1 cur nxt rest)
  show ?case
  proof (cases "ab_ptr cur \<noteq> 0 \<and> ab_ptr nxt \<noteq> 0 \<and> ab_ptr cur + ab_size cur = ab_ptr nxt")
    case True
    have "block_ok base null_block" by (simp add: block_ok_def)
    with 1(1) [OF True] 1(3) merged_block(1) [OF assms(1), of cur nxt] merged_block(2) [OF assms(1), of cur nxt x] True show ?thesis
      by (simp add: cover_Cons)
  next
    case False
    have "list_all (block_ok base) (merge_loop (nxt # rest)) \<and>
        cover_count x (merge_loop (nxt # rest)) = cover_count x (nxt # rest)" using 1(2) [OF False] 1(3) by simp
    moreover have "merge_loop (cur # nxt # rest) = cur # merge_loop (nxt # rest)" using False by (simp only: merge_loop.simps if_False)
    ultimately show ?thesis using 1(3) by (simp only: cover_Cons list.pred_inject)
  qed
qed auto

lemma list_all_sort: "list_all P bs \<Longrightarrow> list_all P (sort_key f bs)"
  by (simp add: list_all_iff)

lemma merge_inv: "unat base + 1048576 < 18446744073709551616 \<Longrightarrow> partition_inv base a \<Longrightarrow> partition_inv base (mergeFreeBlocks a)"
  using merge_loop_partition [of base "sort_key ab_ptr (ba_freeBlocks a)"]
  by (simp add: partition_inv_def mergeFreeBlocks_def list_all_sort)

text \<open>A free block is split into the allocated part and the rest.\<close>

lemma split_block:
  assumes "block_ok base b" "ab_ptr b \<noteq> 0" "k \<le> ab_size b" "unat base + 1048576 < 18446744073709551616"
  defines "rest \<equiv> (if ab_size b - k > 0 then \<lparr>ab_size = ab_size b - k, ab_ptr = ab_ptr b + k\<rparr> else null_block)"
  shows "block_ok base rest" "block_ok base \<lparr>ab_size = k, ab_ptr = ab_ptr b\<rparr>"
    and "of_bool (covers b x) = (of_bool (covers rest x) + of_bool (covers \<lparr>ab_size = k, ab_ptr = ab_ptr b\<rparr> x) :: nat)"
proof -
  have b: "unat base \<le> unat (ab_ptr b)" "unat (ab_ptr b) + unat (ab_size b) \<le> unat base + 1048576"
    using assms(1,2) by (simp_all add: block_ok_def)
  have k: "unat k \<le> unat (ab_size b)" using assms(3) by (simp add: word_le_nat_alt)
  have s: "unat (ab_size b - k) = unat (ab_size b) - unat k" by (rule unat_sub_nowrap [OF k])
  have p: "unat (ab_ptr b + k) = unat (ab_ptr b) + unat k" using b k assms(4) by (intro unat_add_nowrap) linarith
  have "0 < unat (ab_ptr b)" using assms(2) by (simp add: unat_gt_0)
  then have nz: "ab_ptr b + k \<noteq> 0" using p by (metis add_gr_0 less_irrefl unat_0)
  show "block_ok base rest" using b k s p nz by (auto simp: rest_def block_ok_def)
  show "block_ok base \<lparr>ab_size = k, ab_ptr = ab_ptr b\<rparr>" using b k assms(2) by (simp add: block_ok_def)
  show "of_bool (covers b x) = (of_bool (covers rest x) + of_bool (covers \<lparr>ab_size = k, ab_ptr = ab_ptr b\<rparr> x) :: nat)"
    using k s p by (auto simp: rest_def covers_def word_less_nat_alt)
qed

lemma allocate_inv:
  assumes fits: "unat base + 1048576 < 18446744073709551616" and inv: "partition_inv base a"
    and al: "allocateToFreeBlock sz n a = Inr (p, a')"
  shows "partition_inv base a' \<and> \<lparr>ab_size = n * sz, ab_ptr = p\<rparr> \<in> set (ba_allocatedBlocks a')"
proof -
  let ?F = "ba_freeBlocks a" and ?A = "ba_allocatedBlocks a"
  obtain i j where i: "first_block (\<lambda>b. ab_ptr b \<noteq> 0 \<and> ab_size b \<ge> n * sz) ?F = Some i"
    and j: "first_block (\<lambda>b. ab_ptr b = 0) ?A = Some j"
    using al by (auto simp: allocateToFreeBlock_def searchNullptr_def split: option.splits)
  let ?b = "?F ! i" and ?new = "\<lparr>ab_size = n * sz, ab_ptr = ab_ptr (?F ! i)\<rparr>"
  let ?rest = "if ab_size ?b - n * sz > 0 then \<lparr>ab_size = ab_size ?b - n * sz, ab_ptr = ab_ptr ?b + n * sz\<rparr> else null_block"
  have a': "p = ab_ptr ?b" "ba_allocatedBlocks a' = ?A[j := ?new]" "ba_freeBlocks a' = ?F[i := ?rest]"
    using al i j by (auto simp: allocateToFreeBlock_def searchNullptr_def Let_def)
  have il: "i < length ?F" "ab_ptr ?b \<noteq> 0" "n * sz \<le> ab_size ?b" and jl: "j < length ?A" "ab_ptr (?A ! j) = 0"
    using first_block_Some [OF i] first_block_Some [OF j] by auto
  have ok: "block_ok base ?b" "block_ok base (?A ! j)"
    using inv il jl by (auto simp: partition_inv_def list_all_iff)
  note sb = split_block [OF ok(1) il(2,3) fits]
  have old: "\<not> covers (?A ! j) x" for x using ok(2) jl(2) by (simp add: block_ok_def covers_def)
  have "cover_count x (?F[i := ?rest]) + cover_count x (?A[j := ?new]) = cover_count x ?F + cover_count x ?A" for x
    using cover_update [OF il(1), of x ?rest] cover_update [OF jl(1), of x ?new] sb(3) [of x] old [of x] by simp
  moreover have "list_all (block_ok base) (?F[i := ?rest])" "list_all (block_ok base) (?A[j := ?new])"
    using inv sb by (auto simp: partition_inv_def intro!: list_all_update)
  ultimately show ?thesis using inv jl(1) a' by (simp add: partition_inv_def set_update_memI)
qed

lemma ba_allocate_all_inv:
  assumes "unat base + 1048576 < 18446744073709551616"
  shows "partition_inv base a \<Longrightarrow> partition_inv base (ba_allocate_all sz ns a)"
proof (induction ns arbitrary: a)
  case (Cons n ns)
  then show ?case using allocate_inv [OF assms] merge_inv [OF assms]
    by (cases "allocateToFreeBlock sz n a") (auto simp: ba_allocate_def)
qed simp


lemma covers_Suc: "i < length bs \<Longrightarrow> covers (bs ! i) x \<Longrightarrow> 1 \<le> cover_count x bs"
  by (induction bs arbitrary: i) (auto simp: cover_Cons nth_Cons split: nat.splits)

lemma cover_two: "i < j \<Longrightarrow> j < length bs \<Longrightarrow> covers (bs ! i) x \<Longrightarrow> covers (bs ! j) x \<Longrightarrow> 2 \<le> cover_count x bs"
proof (induction bs arbitrary: i j)
  case (Cons b bs)
  then show ?case
  proof (cases i)
    case 0
    then show ?thesis using Cons.prems covers_Suc [of "j - 1" bs x] by (simp add: cover_Cons nth_Cons')
  next
    case (Suc i')
    then have "2 \<le> cover_count x bs" using Cons.prems Cons.IH [of i' "j - 1"] by (simp add: nth_Cons')
    then show ?thesis by (simp add: cover_Cons)
  qed
qed simp

lemma new_partition: "base \<noteq> 0 \<Longrightarrow> partition_inv base (new_block_allocator base)"
proof -
  assume base: "base \<noteq> 0"
  let ?n = "replicate BlocksSize null_block" and ?b = "\<lparr>ab_size = LINEAR_ALLOCATOR_BLOCK_SIZE, ab_ptr = base\<rparr>"
  have size: "unat LINEAR_ALLOCATOR_BLOCK_SIZE = 1048576" by (simp add: LINEAR_ALLOCATOR_BLOCK_SIZE_def)
  have nulls: "list_all (block_ok base) ?n" by (simp add: list_all_iff block_ok_def BlocksSize_def)
  moreover have "block_ok base ?b" using base by (simp add: block_ok_def size)
  ultimately have "list_all (block_ok base) (?n[0 := ?b])" by (rule list_all_update)
  moreover have none: "cover_count x ?n = 0" for x by (simp add: cover_count_def sum_list_replicate)
  have "cover_count x (?n[0 := ?b]) = of_bool (covers ?b x)" for x
    using cover_update [of 0 ?n x ?b] none [of x] by (simp add: BlocksSize_def)
  ultimately show ?thesis using nulls none by (simp add: partition_inv_def new_block_allocator_def covers_def size)
qed

text \<open>C25: After any sequence of allocations every byte of the buffer belongs to exactly one block, free or
  allocated, and no other byte to any: merging and splitting lose nothing, the regions handed out do not
  overlap each other or a free block, and they lie inside the buffer.  A successful allocation returns the
  address of a block of the requested size in the table.\<close>

theorem block_allocator_partitions:
  assumes "base \<noteq> 0" "unat base + 2 ^ 20 < 2 ^ 64" "a = ba_allocate_all sz ns (new_block_allocator base)"
  shows "cover_count x (ba_freeBlocks a) + cover_count x (ba_allocatedBlocks a) =
      of_bool (unat base \<le> x \<and> x < unat base + 2 ^ 20) \<and>
    (i < j \<and> j < length (ba_allocatedBlocks a) \<longrightarrow>
       \<not> (covers (ba_allocatedBlocks a ! i) x \<and> covers (ba_allocatedBlocks a ! j) x)) \<and>
    (ba_allocate sz n a = Inr (p, a') \<longrightarrow> \<lparr>ab_size = n * sz, ab_ptr = p\<rparr> \<in> set (ba_allocatedBlocks a'))"
proof -
  have fits: "unat base + 1048576 < 18446744073709551616" using assms(2) by simp
  have inv: "partition_inv base a"
    unfolding assms(3) by (rule ba_allocate_all_inv [OF fits new_partition [OF assms(1)]])
  then have count: "cover_count x (ba_freeBlocks a) + cover_count x (ba_allocatedBlocks a) =
      of_bool (unat base \<le> x \<and> x < unat base + 1048576)" by (simp add: partition_inv_def)
  moreover have "\<not> (covers (ba_allocatedBlocks a ! i) x \<and> covers (ba_allocatedBlocks a ! j) x)"
    if "i < j" "j < length (ba_allocatedBlocks a)"
  proof
    assume "covers (ba_allocatedBlocks a ! i) x \<and> covers (ba_allocatedBlocks a ! j) x"
    then have "2 \<le> cover_count x (ba_allocatedBlocks a)" using cover_two that by blast
    then show False using count by (simp add: of_bool_def split: if_splits)
  qed
  moreover have "\<lparr>ab_size = n * sz, ab_ptr = p\<rparr> \<in> set (ba_allocatedBlocks a')" if "ba_allocate sz n a = Inr (p, a')"
    using that allocate_inv [OF fits inv, of sz n p]
    by (auto simp: ba_allocate_def mergeFreeBlocks_def split: sum.splits prod.splits)
  ultimately show ?thesis by simp
qed

theorem block_allocator_partitions_witness:
  "cover_count 65540 (ba_freeBlocks (ba_allocate_all 4 [10, 3] (new_block_allocator 65536))) +
   cover_count 65540 (ba_allocatedBlocks (ba_allocate_all 4 [10, 3] (new_block_allocator 65536))) = 1"
  using block_allocator_partitions [of 65536 _ 4 "[10, 3]" 65540, OF _ _ refl] by simp

section \<open>BufferCollectorTemplate\<close>

text \<open>A bounded list guarded by a mutex.  The element type is a smart pointer: a null one is refused, and the
  default-constructed result of a pop is null.  \<open>max_size\<close> is the library's limit.\<close>

record 'a buffer_collector =
  bc_max :: nat
  bc_buffer :: "'a list"

definition new_collector :: "nat \<Rightarrow> 'a buffer_collector" where
  "new_collector max_size = \<lparr>bc_max = max_size, bc_buffer = []\<rparr>"

definition takeData :: "'a option \<Rightarrow> 'a buffer_collector \<Rightarrow> 'a buffer_collector \<times> bool" where
  "takeData data b =
     (case data of
        None \<Rightarrow> (b, False)
      | Some d \<Rightarrow>
         (let b = b\<lparr>bc_buffer := bc_buffer b @ [d]\<rparr> in
          (if length (bc_buffer b) > bc_max b then b\<lparr>bc_buffer := tl (bc_buffer b)\<rparr> else b, True)))"

definition bc_empty :: "'a buffer_collector \<Rightarrow> bool" where
  "bc_empty b \<longleftrightarrow> bc_buffer b = []"

definition bc_size :: "'a buffer_collector \<Rightarrow> nat" where
  "bc_size b = length (bc_buffer b)"

definition profiles :: "'a buffer_collector \<Rightarrow> 'a list" where
  "profiles b = bc_buffer b"

definition bc_clear :: "'a buffer_collector \<Rightarrow> 'a buffer_collector" where
  "bc_clear b = b\<lparr>bc_buffer := []\<rparr>"

fun pop_to_size :: "nat \<Rightarrow> 'a list \<Rightarrow> 'a list" where
  "pop_to_size m [] = []"
| "pop_to_size m (x # xs) = (if length (x # xs) > m then pop_to_size m xs else x # xs)"

definition setMaxSize :: "nat \<Rightarrow> nat \<Rightarrow> 'a buffer_collector \<Rightarrow> 'a buffer_collector" where
  "setMaxSize max_size newSize b =
     (let m = min newSize max_size in b\<lparr>bc_max := m, bc_buffer := pop_to_size m (bc_buffer b)\<rparr>)"

definition popFirstBlock :: "'a buffer_collector \<Rightarrow> 'a option \<times> 'a buffer_collector" where
  "popFirstBlock b = (case bc_buffer b of [] \<Rightarrow> (None, b) | x # xs \<Rightarrow> (Some x, b\<lparr>bc_buffer := xs\<rparr>))"

definition popLastBlock :: "'a buffer_collector \<Rightarrow> 'a option \<times> 'a buffer_collector" where
  "popLastBlock b = (if bc_buffer b = [] then (None, b)
     else (Some (last (bc_buffer b)), b\<lparr>bc_buffer := butlast (bc_buffer b)\<rparr>))"

definition getLastBlock :: "'a buffer_collector \<Rightarrow> 'a option" where
  "getLastBlock b = (if bc_buffer b = [] then None else Some (last (bc_buffer b)))"

text \<open>The limit is kept by every operation, and a full buffer forgets its oldest element.\<close>

definition collector_ok :: "'a buffer_collector \<Rightarrow> bool" where
  "collector_ok b \<longleftrightarrow> length (bc_buffer b) \<le> bc_max b"

lemma pop_to_size_drop: "pop_to_size m xs = drop (length xs - m) xs"
  by (induction xs) (auto simp: Suc_diff_le)

lemma collector_keeps_limit:
  "collector_ok (new_collector m)"
  "collector_ok b \<Longrightarrow> collector_ok (fst (takeData d b))" "collector_ok (bc_clear b)"
  "collector_ok (setMaxSize l m b)" "collector_ok b \<Longrightarrow> collector_ok (snd (popFirstBlock b))"
  "collector_ok b \<Longrightarrow> collector_ok (snd (popLastBlock b))"
  by (auto simp: collector_ok_def new_collector_def takeData_def bc_clear_def setMaxSize_def pop_to_size_drop
      popFirstBlock_def popLastBlock_def Let_def split: option.split list.split)

lemma takeData_latest:
  "bc_buffer (fst (takeData (Some d) b)) = (if length (bc_buffer b) < bc_max b then bc_buffer b @ [d] else tl (bc_buffer b @ [d]))"
  by (simp add: takeData_def Let_def)

end
