(* ===== verification/Device_Protocol.thy ===== *)
theory Device_Protocol
  imports Rtl_Prelude
begin

text \<open>
  The serial protocol of a measuring device under \<^verbatim>\<open>protocol/\<close>: the two message structures with their layout in
  memory (\<^verbatim>\<open>Request.h\<close>), their conversion to and from the bytes on the wire (\<^verbatim>\<open>I7580Message.cpp\<close>), the protocol
  object over a channel (\<^verbatim>\<open>I7580Protocol.cpp\<close>) and the provider in front of it (\<^verbatim>\<open>ConnectionProvider.cpp\<close>).  A \<open>float\<close>
  is its 32-bit pattern, in the little-endian order of the targets; a padding byte of a structure has an
  arbitrary value.  The channel is a library: what it answers is a parameter.
\<close>

unbundle bit_operations_syntax

section \<open>The structures and their layout\<close>

datatype message_type = testStruct | messageStruct | responseStruct

record message_data =
  calibration_start :: bool
  zero_positioning_start :: bool
  measuring_start :: bool
  abort_measure :: bool
  fault_reset :: bool
  save_measurements :: bool
  new_data_transfer :: bool
  scan_length :: "32 word"
  calibration_diameter :: "32 word"

record response_data =
  calibration_running :: bool
  calibration_completed :: bool
  calibration_error :: bool
  zero_positioning_running :: bool
  zero_positioning_completed :: bool
  zero_positioning_error :: bool
  measuring_running :: bool
  measuring_error :: bool
  measuring_completed :: bool
  measuring_aborted :: bool
  system_in_fault_condition :: bool
  save_measurements_running :: bool
  save_measurements_completed :: bool
  save_measurements_error :: bool
  data_transfer_read :: bool
  diameter_min :: "32 word"
  diameter_max :: "32 word"
  diameter_avg :: "32 word"
  chamfer_width_min :: "32 word"
  chamfer_width_max :: "32 word"
  chamfer_width_avg :: "32 word"
  circularity_min :: "32 word"
  circularity_max :: "32 word"
  circularity_avg :: "32 word"
  bevel_level_of_chamfers_min :: "32 word"
  bevel_level_of_chamfers_max :: "32 word"
  bevel_level_of_chamfers_avg :: "32 word"
  band_height_min :: "32 word"
  band_height_max :: "32 word"
  band_height_avg :: "32 word"

definition default_message_data :: "32 word \<Rightarrow> message_data" where
  "default_message_data scan_default = \<lparr>calibration_start = True, zero_positioning_start = True, measuring_start = False,
     abort_measure = True, fault_reset = False, save_measurements = True, new_data_transfer = True,
     scan_length = scan_default, calibration_diameter = 0x43480000\<rparr>"

text \<open>The four bytes of a \<open>float\<close>, and the \<open>float\<close> of four bytes.\<close>

definition float_bytes :: "32 word \<Rightarrow> byte list" where
  "float_bytes f = [ucast f, ucast (drop_bit 8 f), ucast (drop_bit 16 f), ucast (drop_bit 24 f)]"

definition float_of_bytes :: "byte list \<Rightarrow> 32 word" where
  "float_of_bytes bs = ucast (bs ! 0) OR push_bit 8 (ucast (bs ! 1)) OR push_bit 16 (ucast (bs ! 2)) OR
     push_bit 24 (ucast (bs ! 3))"

definition floats_at :: "nat \<Rightarrow> nat \<Rightarrow> byte list \<Rightarrow> 32 word" where
  "floats_at start n bs = float_of_bytes (take 4 (drop (start + 4 * n) bs))"

definition message_bytes :: "byte \<Rightarrow> message_data \<Rightarrow> byte list" where
  "message_bytes pad d = map of_bool
     [calibration_start d, zero_positioning_start d, measuring_start d, abort_measure d, fault_reset d,
      save_measurements d, new_data_transfer d] @
     [pad] @ concat (map float_bytes [scan_length d, calibration_diameter d])"

definition message_of_bytes :: "byte list \<Rightarrow> message_data" where
  "message_of_bytes bs = \<lparr>calibration_start = bs ! 0 \<noteq> 0, zero_positioning_start = bs ! 1 \<noteq> 0,
     measuring_start = bs ! 2 \<noteq> 0, abort_measure = bs ! 3 \<noteq> 0,
     fault_reset = bs ! 4 \<noteq> 0, save_measurements = bs ! 5 \<noteq> 0,
     new_data_transfer = bs ! 6 \<noteq> 0, scan_length = floats_at 8 0 bs,
     calibration_diameter = floats_at 8 1 bs\<rparr>"

definition response_bytes :: "byte \<Rightarrow> response_data \<Rightarrow> byte list" where
  "response_bytes pad d = map of_bool
     [calibration_running d, calibration_completed d, calibration_error d, zero_positioning_running d,
      zero_positioning_completed d, zero_positioning_error d, measuring_running d, measuring_error d,
      measuring_completed d, measuring_aborted d, system_in_fault_condition d,
      save_measurements_running d, save_measurements_completed d, save_measurements_error d,
      data_transfer_read d] @
     [pad] @ concat (map float_bytes
     [diameter_min d, diameter_max d, diameter_avg d, chamfer_width_min d, chamfer_width_max d,
      chamfer_width_avg d, circularity_min d, circularity_max d, circularity_avg d,
      bevel_level_of_chamfers_min d, bevel_level_of_chamfers_max d, bevel_level_of_chamfers_avg d,
      band_height_min d, band_height_max d, band_height_avg d])"

definition response_of_bytes :: "byte list \<Rightarrow> response_data" where
  "response_of_bytes bs = \<lparr>calibration_running = bs ! 0 \<noteq> 0, calibration_completed = bs ! 1 \<noteq> 0,
     calibration_error = bs ! 2 \<noteq> 0, zero_positioning_running = bs ! 3 \<noteq> 0,
     zero_positioning_completed = bs ! 4 \<noteq> 0, zero_positioning_error = bs ! 5 \<noteq> 0,
     measuring_running = bs ! 6 \<noteq> 0, measuring_error = bs ! 7 \<noteq> 0,
     measuring_completed = bs ! 8 \<noteq> 0, measuring_aborted = bs ! 9 \<noteq> 0,
     system_in_fault_condition = bs ! 10 \<noteq> 0, save_measurements_running = bs ! 11 \<noteq> 0,
     save_measurements_completed = bs ! 12 \<noteq> 0, save_measurements_error = bs ! 13 \<noteq> 0,
     data_transfer_read = bs ! 14 \<noteq> 0, diameter_min = floats_at 16 0 bs,
     diameter_max = floats_at 16 1 bs, diameter_avg = floats_at 16 2 bs,
     chamfer_width_min = floats_at 16 3 bs, chamfer_width_max = floats_at 16 4 bs,
     chamfer_width_avg = floats_at 16 5 bs, circularity_min = floats_at 16 6 bs,
     circularity_max = floats_at 16 7 bs, circularity_avg = floats_at 16 8 bs,
     bevel_level_of_chamfers_min = floats_at 16 9 bs, bevel_level_of_chamfers_max = floats_at 16 10 bs,
     bevel_level_of_chamfers_avg = floats_at 16 11 bs, band_height_min = floats_at 16 12 bs,
     band_height_max = floats_at 16 13 bs, band_height_avg = floats_at 16 14 bs\<rparr>"

text \<open>What a caller sees of a message through \<open>IBaseMessage\<close>: its type, its bytes and the positions its class
  declares as padding.\<close>

record base_message =
  bm_type :: message_type
  bm_bytes :: "byte list"
  bm_aligned :: "nat set"

definition message_struct :: "byte \<Rightarrow> message_data \<Rightarrow> base_message" where
  "message_struct pad d = \<lparr>bm_type = messageStruct, bm_bytes = message_bytes pad d, bm_aligned = {7}\<rparr>"

definition response_struct :: "byte \<Rightarrow> response_data \<Rightarrow> base_message" where
  "response_struct pad d = \<lparr>bm_type = responseStruct, bm_bytes = response_bytes pad d, bm_aligned = {16}\<rparr>"

text \<open>The size of a \<open>MessageStruct\<close> object: its data and the pointer to its virtual table.\<close>

definition sizeof_MessageStruct :: nat where
  "sizeof_MessageStruct = 8 + 16"

definition format_bool :: "bool \<Rightarrow> string" where
  "format_bool b = (if b then ''true'' else ''false'')"

text \<open>The printed form of the structures; \<open>format_float\<close> is what \<open>std::format\<close> makes of a \<open>float\<close>.\<close>

definition message_to_string :: "(32 word \<Rightarrow> string) \<Rightarrow> message_data \<Rightarrow> string" where
  "message_to_string format_float d = concat (map (\<lambda>b. format_bool b @ '' '')
     [calibration_start d, zero_positioning_start d, measuring_start d, abort_measure d, fault_reset d,
      save_measurements d, new_data_transfer d]) @
     format_float (scan_length d) @ '' '' @ format_float (calibration_diameter d)"

definition append_line :: "string \<Rightarrow> string \<Rightarrow> string" where
  "append_line name val = ''  '' @ name @ replicate (30 - length name) (CHR '' '') @ '': '' @ val @ ''\<newline>''"

definition toStringInner :: "(32 word \<Rightarrow> string) \<Rightarrow> response_data \<Rightarrow> string" where
  "toStringInner format_float d = ''Data {\<newline>'' @ concat (map (\<lambda>(name, b). append_line name (format_bool b))
     [(''calibration_running'', calibration_running d),
      (''calibration_completed'', calibration_completed d),
      (''calibration_error'', calibration_error d),
      (''zero_positioning_running'', zero_positioning_running d),
      (''zero_positioning_completed'', zero_positioning_completed d),
      (''zero_positioning_error'', zero_positioning_error d),
      (''measuring_running'', measuring_running d), (''measuring_error'', measuring_error d),
      (''measuring_completed'', measuring_completed d), (''measuring_aborted'', measuring_aborted d),
      (''system_in_fault_condition'', system_in_fault_condition d),
      (''save_measurements_running'', save_measurements_running d),
      (''save_measurements_completed'', save_measurements_completed d),
      (''save_measurements_error'', save_measurements_error d),
      (''data_transfer_read'', data_transfer_read d)]) @
   concat (map (\<lambda>(name, f). append_line name (format_float f))
     [(''diameter_min'', diameter_min d), (''diameter_max'', diameter_max d),
      (''diameter_avg'', diameter_avg d), (''chamfer_width_min'', chamfer_width_min d),
      (''chamfer_width_max'', chamfer_width_max d), (''chamfer_width_avg'', chamfer_width_avg d),
      (''circularity_min'', circularity_min d), (''circularity_max'', circularity_max d),
      (''circularity_avg'', circularity_avg d),
      (''bevel_level_of_chamfers_min'', bevel_level_of_chamfers_min d),
      (''bevel_level_of_chamfers_max'', bevel_level_of_chamfers_max d),
      (''bevel_level_of_chamfers_avg'', bevel_level_of_chamfers_avg d),
      (''band_height_min'', band_height_min d), (''band_height_max'', band_height_max d),
      (''band_height_avg'', band_height_avg d)]) @ ''}''"

section \<open>I7580Message\<close>

text \<open>A message is its buffer; the capacity that is reserved for it has no effect on what it holds.\<close>

type_synonym i7580_message = "byte list"

definition setData_raw :: "byte list \<Rightarrow> i7580_message" where
  "setData_raw dataBuf = dataBuf"

definition setData_struct :: "byte list \<Rightarrow> i7580_message" where
  "setData_struct str = take 7 str @ take 8 (drop 8 str)"

definition setData :: "base_message option \<Rightarrow> i7580_message \<Rightarrow> i7580_message" where
  "setData msg buffer =
     (case msg of
        None \<Rightarrow> buffer
      | Some m \<Rightarrow> map ((!) (bm_bytes m)) (filter (\<lambda>i. i \<notin> bm_aligned m) [0..<length (bm_bytes m)]))"

text \<open>The constructors: from a reference the bytes with their padding, from a pointer without.\<close>

definition new_message_ref :: "base_message \<Rightarrow> i7580_message" where
  "new_message_ref msg = setData_raw (bm_bytes msg)"

definition new_message_ptr :: "base_message option \<Rightarrow> i7580_message" where
  "new_message_ptr msg = setData msg []"

text \<open>\<open>str\<close> are the bytes of the default-constructed structure the two copies write into.\<close>

definition getMessageStruct :: "byte list \<Rightarrow> i7580_message \<Rightarrow> byte list option" where
  "getMessageStruct str buffer =
     (if buffer = [] then None
      else if length buffer < sizeof_MessageStruct - card {7 :: nat} then None
      else (let str = take 7 buffer @ drop 7 str;
                str = take 8 (drop 8 buffer) @ drop 8 str
            in Some str))"

text \<open>The loop of \<open>getStruct\<close> from index \<open>i\<close> on: the bytes of the structure that are left, and the bytes of the buffer
  that are left together with the terminator behind them; reading further is undefined.\<close>

fun fill_struct :: "nat set \<Rightarrow> nat \<Rightarrow> byte list \<Rightarrow> byte list \<Rightarrow> byte list option" where
  "fill_struct aligned i [] buf = Some []"
| "fill_struct aligned i (x # xs) buf =
     (if i \<in> aligned then map_option ((#) x) (fill_struct aligned (i + 1) xs buf)
      else case buf of
        [] \<Rightarrow> None
      | b # bs \<Rightarrow> map_option ((#) b) (fill_struct aligned (i + 1) xs bs))"

definition getStruct :: "base_message option \<Rightarrow> i7580_message \<Rightarrow> (bool \<times> base_message option) locked_section" where
  "getStruct msg buffer =
     (case msg of
        None \<Rightarrow> Done (False, None)
      | Some m \<Rightarrow>
          if buffer = [] then Done (False, msg)
          else if (of_nat (length buffer) :: size_t) < 8 - of_nat (card (bm_aligned m)) then Done (False, msg)
          else case fill_struct (bm_aligned m) 0 (bm_bytes m) (buffer @ [0]) of
            None \<Rightarrow> Undef
          | Some bs \<Rightarrow> Done (True, Some (m\<lparr>bm_bytes := bs\<rparr>)))"

section \<open>I7580Protocol and ConnectionProvider\<close>

text \<open>What the channel answers: to \<open>Init\<close>, to \<open>Send_Data\<close>, and to \<open>Get_Data\<close> the packet that arrived before the timeout.\<close>

record channel =
  Init :: "string \<Rightarrow> bool"
  Send_Data :: "byte list \<Rightarrow> bool"
  Get_Data :: "int \<Rightarrow> byte list option"

definition initChannel :: "channel \<Rightarrow> nat \<Rightarrow> nat \<Rightarrow> bool" where
  "initChannel ch comPort baudrate =
     Init ch ([CHR 0x5C, CHR 0x5C, CHR ''.'', CHR 0x5C] @ ''COM'' @ nat_dec comPort @ '';'' @ nat_dec baudrate)"

record i7580_protocol =
  ip_initStatus :: bool
  ip_sent :: "byte list list"

definition new_protocol :: "channel \<Rightarrow> nat \<Rightarrow> nat \<Rightarrow> i7580_protocol" where
  "new_protocol ch comPort baudrate = \<lparr>ip_initStatus = initChannel ch comPort baudrate, ip_sent = []\<rparr>"

text \<open>\<open>ip_sent\<close> are the packets given to the channel.\<close>

definition SendProtocolMessage ::
  "channel \<Rightarrow> i7580_message option \<Rightarrow> i7580_protocol \<Rightarrow> (bool \<times> i7580_protocol) locked_section" where
  "SendProtocolMessage ch msg p =
     (if \<not> ip_initStatus p then Done (False, p)
      else case msg of
        None \<Rightarrow> Undef
      | Some m \<Rightarrow> Done (Send_Data ch m, p\<lparr>ip_sent := ip_sent p @ [m]\<rparr>))"

definition ListenForMessage :: "channel \<Rightarrow> int \<Rightarrow> i7580_message option \<Rightarrow> i7580_protocol \<Rightarrow> bool \<times> i7580_message option" where
  "ListenForMessage ch timeOutMs msg p =
     (if \<not> ip_initStatus p then (False, msg)
      else case msg of
        None \<Rightarrow> (False, msg)
      | Some m \<Rightarrow> (case Get_Data ch timeOutMs of None \<Rightarrow> (False, msg) | Some packet \<Rightarrow> (True, Some (setData_raw packet))))"

record connection_provider =
  cp_statusFlag :: bool
  cp_protocol :: "i7580_protocol option"

definition checkInitialization :: "connection_provider \<Rightarrow> connection_provider locked_section" where
  "checkInitialization c =
     (case cp_protocol c of
        None \<Rightarrow> Undef
      | Some p \<Rightarrow> Done (c\<lparr>cp_statusFlag := ip_initStatus p\<rparr>))"

definition new_provider :: "i7580_protocol option \<Rightarrow> connection_provider locked_section" where
  "new_provider p = checkInitialization \<lparr>cp_statusFlag = False, cp_protocol = p\<rparr>"

definition SendData ::
  "channel \<Rightarrow> i7580_message option \<Rightarrow> connection_provider \<Rightarrow> (bool \<times> connection_provider) locked_section" where
  "SendData ch msg c =
     (if \<not> cp_statusFlag c then Done (False, c)
      else if msg = None then Done (False, c)
      else case cp_protocol c of
        None \<Rightarrow> Undef
      | Some p \<Rightarrow>
         (case SendProtocolMessage ch msg p of
            Done (_, p) \<Rightarrow> Done (True, c\<lparr>cp_protocol := Some p\<rparr>)
          | Wait \<Rightarrow> Wait | Undef \<Rightarrow> Undef))"

definition ListenForData ::
  "channel \<Rightarrow> int \<Rightarrow> i7580_message option \<Rightarrow> connection_provider \<Rightarrow> (bool \<times> i7580_message option) locked_section" where
  "ListenForData ch timeOutMs msg c =
     (if \<not> cp_statusFlag c then Done (False, msg)
      else if msg = None then Done (False, msg)
      else case cp_protocol c of
        None \<Rightarrow> Undef
      | Some p \<Rightarrow> Done (ListenForMessage ch timeOutMs msg p))"


section \<open>Round trips\<close>

lemma float_of_float_bytes [simp]: "float_of_bytes (float_bytes f) = f"
proof (rule bit_word_eqI)
  fix n
  assume n: "n < LENGTH(32)"
  consider "n < 8" | "8 \<le> n" "n < 16" | "16 \<le> n" "n < 24" | "24 \<le> n" using n by linarith
  then show "bit (float_of_bytes (float_bytes f)) n \<longleftrightarrow> bit f n"
    using n by cases (auto simp: float_of_bytes_def float_bytes_def bit_simps)
qed

lemma length_float_bytes [simp]: "length (float_bytes f) = 4"
  by (simp add: float_bytes_def)

lemma take4_float_bytes [simp]: "take 4 (float_bytes f @ rest) = float_bytes f"
  by simp

lemma message_of_message_bytes [simp]: "message_of_bytes (message_bytes pad d) = d"
  by (simp add: message_of_bytes_def message_bytes_def floats_at_def)

lemma response_of_response_bytes [simp]: "response_of_bytes (response_bytes pad d) = d"
  by (simp add: response_of_bytes_def response_bytes_def floats_at_def)

text \<open>Writing what was read off one structure into another of the same layout: the positions that count as
  padding keep the bytes of the receiver.\<close>

lemma fill_struct_copies:
  "length xs = length ys \<Longrightarrow>
   fill_struct aligned i xs (map ((!) ys) (filter (\<lambda>j. i + j \<notin> aligned) [0..<length ys]) @ rest) =
     Some (map (\<lambda>j. if i + j \<in> aligned then xs ! j else ys ! j) [0..<length ys])"
proof (induction xs arbitrary: i ys)
  case (Cons x xs)
  then obtain y zs where ys: "ys = y # zs" by (cases ys) auto
  have split: "[0..<length ys] = 0 # map Suc [0..<length zs]" by (simp add: ys upt_conv_Cons map_Suc_upt del: upt_Suc)
  have "filter (\<lambda>j. i + j \<notin> aligned) (map Suc [0..<length zs]) = map Suc (filter (\<lambda>j. i + 1 + j \<notin> aligned) [0..<length zs])"
    by (simp add: filter_map comp_def)
  then show ?case
    using Cons.IH [of zs "i + 1"] Cons.prems by (simp only: split) (simp add: ys comp_def)
qed simp


lemma getStruct_setData:
  assumes "bm_aligned m0 = {k}" "bm_aligned m = {k}" "length (bm_bytes m0) = length (bm_bytes m)"
    and "8 \<le> length (bm_bytes m)" "length (bm_bytes m) < 18446744073709551616"
  shows "getStruct (Some m0) (setData (Some m) buffer) = Done (True, Some (m0\<lparr>bm_bytes :=
    map (\<lambda>j. if j = k then bm_bytes m0 ! j else bm_bytes m ! j) [0..<length (bm_bytes m)]\<rparr>))"
proof -
  let ?n = "length (bm_bytes m)" and ?buf = "setData (Some m) buffer"
  have "length (filter (\<lambda>i. i \<noteq> k) [0..<?n]) + length (filter (\<lambda>i. i = k) [0..<?n]) = ?n"
    using sum_length_filter_compl [of "\<lambda>i. i \<noteq> k" "[0..<?n]"] by simp
  moreover have "length (filter (\<lambda>i. i = k) [0..<?n]) \<le> 1"
    using distinct_length_filter [of "[0..<?n]" "\<lambda>i. i = k"] card_mono [of "{k}" "{k} \<inter> {0..<?n}"] by simp
  ultimately have len: "7 \<le> length ?buf" "length ?buf \<le> ?n"
    using assms(2,4) by (simp_all add: setData_def)
  then have "\<not> (of_nat (length ?buf) :: size_t) < 8 - of_nat (card (bm_aligned m0))"
    using assms(1,5) by (simp add: word_less_nat_alt unat_of_nat_size)
  moreover have "?buf \<noteq> []" using len(1) by auto
  moreover have "fill_struct (bm_aligned m0) 0 (bm_bytes m0) (?buf @ [0]) =
      Some (map (\<lambda>j. if j = k then bm_bytes m0 ! j else bm_bytes m ! j) [0..<?n])"
    using fill_struct_copies [of "bm_bytes m0" "bm_bytes m" "{k}" 0 "[0]"] assms(1-3) by (simp add: setData_def)
  ultimately show ?thesis by (simp add: getStruct_def)
qed

lemma length_message_bytes [simp]: "length (message_bytes pad d) = 16"
  by (simp add: message_bytes_def)

lemma length_response_bytes [simp]: "length (response_bytes pad d) = 76"
  by (simp add: response_bytes_def)

lemma message_bytes_pad: "map (\<lambda>j. if j = 7 then message_bytes pad' d' ! 7 else message_bytes pad d ! j) [0..<16] = message_bytes pad' d"
  by (rule nth_equalityI) (auto simp: message_bytes_def nth_append nth_Cons')

text \<open>C22: What \<open>setData\<close> puts on the wire for a \<open>MessageStruct\<close> is its 15 meaningful bytes, the same as the overload
  for the structure itself writes; \<open>getStruct\<close> of a receiver with any contents reads them back to a structure with
  exactly the fields of the sender, whatever the padding.\<close>

theorem message_struct_roundtrip:
  "length (setData (Some (message_struct pad d)) buffer) = 15 \<and>
   setData (Some (message_struct pad d)) buffer = setData_struct (message_bytes pad d) \<and>
   (\<exists>m. getStruct (Some (message_struct pad' d')) (setData (Some (message_struct pad d)) buffer) = Done (True, Some m) \<and>
     bm_type m = messageStruct \<and> message_of_bytes (bm_bytes m) = d)"
proof -
  have "setData (Some (message_struct pad d)) buffer = setData_struct (message_bytes pad d)"
    by (simp add: setData_def message_struct_def setData_struct_def upt_rec message_bytes_def float_bytes_def)
  moreover have "length (setData_struct (message_bytes pad d)) = 15" by (simp add: setData_struct_def)
  moreover have "getStruct (Some (message_struct pad' d')) (setData (Some (message_struct pad d)) buffer) =
      Done (True, Some (message_struct pad' d))"
    using getStruct_setData [of "message_struct pad' d'" 7 "message_struct pad d" buffer]
    by (simp add: message_struct_def message_bytes_pad cong: if_cong)
  ultimately show ?thesis by (simp add: message_struct_def)
qed

text \<open>The padding of a \<open>ResponseStruct\<close> is byte 15, but byte 16 is declared: the lowest byte of \<open>diameter_min\<close> is
  neither sent nor received.\<close>

lemma float_bytes_of_bytes: "float_bytes (float_of_bytes [a, b, c, d]) = [a, b, c, d]"
proof -
  have "ucast (float_of_bytes [a, b, c, d]) = a" "ucast (drop_bit 8 (float_of_bytes [a, b, c, d])) = b"
    "ucast (drop_bit 16 (float_of_bytes [a, b, c, d])) = c" "ucast (drop_bit 24 (float_of_bytes [a, b, c, d])) = d"
    by (rule bit_word_eqI; auto simp: float_of_bytes_def bit_simps dest: bit_imp_le_length)+
  then show ?thesis by (simp add: float_bytes_def)
qed

definition low_byte_of :: "32 word \<Rightarrow> 32 word \<Rightarrow> 32 word" where
  "low_byte_of f g = float_of_bytes (hd (float_bytes f) # tl (float_bytes g))"

lemma float_bytes_low: "float_bytes (low_byte_of f g) = (float_bytes g)[0 := float_bytes f ! 0]"
  unfolding low_byte_of_def by (simp add: float_bytes_of_bytes float_bytes_def [of f] float_bytes_def [of g])

lemma response_bytes_low:
  "response_bytes pad (d\<lparr>diameter_min := low_byte_of (diameter_min d') (diameter_min d)\<rparr>) =
   (response_bytes pad d)[16 := response_bytes pad' d' ! 16]"
proof -
  obtain rest where rest: "\<And>f. response_bytes pad (d\<lparr>diameter_min := f\<rparr>) = take 16 (response_bytes pad d) @ float_bytes f @ rest"
    by (rule that) (simp add: response_bytes_def)
  have "response_bytes pad' d' ! 16 = float_bytes (diameter_min d') ! 0" by (simp add: response_bytes_def nth_append)
  moreover have "response_bytes pad d = take 16 (response_bytes pad d) @ float_bytes (diameter_min d) @ rest"
    using rest [of "diameter_min d"] by simp
  ultimately show ?thesis
    using list_update_append [of "take 16 (response_bytes pad d)" "float_bytes (diameter_min d) @ rest" 16]
    by (simp add: rest float_bytes_low list_update_append)
qed

lemma response_struct_loses_byte:
  "\<exists>m. getStruct (Some (response_struct pad' d')) (setData (Some (response_struct pad d)) buffer) = Done (True, Some m) \<and>
    response_of_bytes (bm_bytes m) = d\<lparr>diameter_min := low_byte_of (diameter_min d') (diameter_min d)\<rparr>"
proof -
  let ?r = "d\<lparr>diameter_min := low_byte_of (diameter_min d') (diameter_min d)\<rparr>"
  have "map (\<lambda>j. if j = 16 then response_bytes pad' d' ! j else response_bytes pad d ! j) [0..<76] = response_bytes pad ?r"
    unfolding response_bytes_low [of pad d' d pad'] by (rule nth_equalityI) (auto simp: nth_list_update)
  then have "getStruct (Some (response_struct pad' d')) (setData (Some (response_struct pad d)) buffer) =
      Done (True, Some (response_struct pad ?r))"
    using getStruct_setData [of "response_struct pad' d'" 16 "response_struct pad d" buffer]
    by (simp add: response_struct_def cong: if_cong)
  then show ?thesis by (simp add: response_struct_def)
qed

text \<open>The checks before the bytes are read are wrong in both directions: the 15 bytes of a message are too few for
  \<open>getMessageStruct\<close>, and 7 bytes are enough for \<open>getStruct\<close> to read past the end of the buffer.\<close>

lemma getMessageStruct_refuses: "getMessageStruct str (setData (Some (message_struct pad d)) buffer) = None"
proof -
  have "length (setData (Some (message_struct pad d)) buffer) \<le> 16"
    using length_filter_le [of "\<lambda>i. i \<noteq> 7" "[0..<16 :: nat]"] by (simp add: setData_def message_struct_def)
  then show ?thesis by (simp add: getMessageStruct_def sizeof_MessageStruct_def)
qed

lemma getStruct_reads_past: "getStruct (Some (message_struct pad d)) (replicate 7 b) = Undef"
  by (simp add: getStruct_def message_struct_def message_bytes_def float_bytes_def numeral_eq_Suc split: option.splits)

text \<open>A provider without a protocol is undefined from its constructor on, and \<open>SendData\<close> hides that the channel refused.\<close>

lemma provider_branches:
  "new_provider None = Undef"
  "cp_statusFlag c \<Longrightarrow> cp_protocol c = Some p \<Longrightarrow> ip_initStatus p \<Longrightarrow> \<exists>c'. SendData ch (Some m) c = Done (True, c')"
  "new_provider (Some p) = Done c \<Longrightarrow> \<not> ip_initStatus p \<Longrightarrow> SendData ch msg c = Done (False, c) \<and> ListenForData ch t msg c = Done (False, msg)"
  by (auto simp: new_provider_def checkInitialization_def SendData_def SendProtocolMessage_def ListenForData_def)

end
