(* ===== verification/Coro_Task.thy ===== *)
theory Coro_Task
  imports Rtl_Prelude
begin

text \<open>
  The coroutines of \<^verbatim>\<open>coro/\<close>: the lazy \<open>Task\<close> of \<^verbatim>\<open>Task.hpp\<close> with its promise and awaiters, and the blocking
  \<open>sync_wait\<close> of \<^verbatim>\<open>SyncWait.hpp\<close>.  A coroutine frame lives in a heap under its handle.  A coroutine body is a tree: it returns,
  throws, awaits a task made from another body, or awaits a scheduler, and goes on with what the awaited
  expression gave.  The tasks are lazy, so that a task is created where it is awaited.
\<close>

section \<open>Errors\<close>

datatype coro_error_code = cc_unknown | cc_invalid_task | cc_task_not_ready | cc_empty_result | cc_schedule_rejected

text \<open>The exceptions of the library, and those of the coroutine bodies.\<close>

datatype coro_exn = InvalidTask | TaskNotReady | EmptyResult | ScheduleRejected | user_exception string

definition coro_code :: "coro_exn \<Rightarrow> coro_error_code option" where
  "coro_code e = (case e of InvalidTask \<Rightarrow> Some cc_invalid_task | TaskNotReady \<Rightarrow> Some cc_task_not_ready
     | EmptyResult \<Rightarrow> Some cc_empty_result | ScheduleRejected \<Rightarrow> Some cc_schedule_rejected | user_exception _ \<Rightarrow> None)"

section \<open>Bodies, frames and promises\<close>

datatype 'v body =
    co_return 'v
  | co_throw coro_exn
  | co_await_task "'v body" "coro_exn + 'v \<Rightarrow> 'v body"
  | co_await_schedule "coro_exn option \<Rightarrow> 'v body"

text \<open>What a coroutine does with the result of the task it awaits: a body goes on, the runner of \<open>sync_wait\<close> stores it.\<close>

datatype 'v kont = user_k "coro_exn + 'v \<Rightarrow> 'v body" | runner_k

datatype 'v frame_state =
    fs_start "'v body" | fs_ready "'v body" | fs_awaiting nat "'v kont" | fs_got "coro_exn + 'v" | fs_signalled | fs_final

record 'v frame =
  fr_value :: "'v option"
  fr_exp :: "coro_exn option"
  fr_continuation :: "nat option"
  fr_state :: "'v frame_state"

type_synonym 'v frames = "nat \<rightharpoonup> 'v frame"

text \<open>A new coroutine is suspended before its first statement.\<close>

definition new_frame :: "'v frame_state \<Rightarrow> 'v frame" where
  "new_frame s = \<lparr>fr_value = None, fr_exp = None, fr_continuation = None, fr_state = s\<rparr>"

definition return_value :: "'v \<Rightarrow> 'v frame \<Rightarrow> 'v frame" where
  "return_value v f = f\<lparr>fr_value := Some v\<rparr>"

definition unhandled_exception :: "coro_exn \<Rightarrow> 'v frame \<Rightarrow> 'v frame" where
  "unhandled_exception e f = f\<lparr>fr_exp := Some e\<rparr>"

text \<open>Which coroutine runs after the final suspension; \<open>None\<close> is the coroutine that does nothing.\<close>

definition final_await_suspend :: "'v frame \<Rightarrow> nat option" where
  "final_await_suspend f = fr_continuation f"

definition handle_done :: "'v frames \<Rightarrow> nat \<Rightarrow> bool" where
  "handle_done F h = (case F h of None \<Rightarrow> False | Some f \<Rightarrow> fr_state f = fs_final)"

definition handle_destroy :: "nat \<Rightarrow> 'v frames \<Rightarrow> 'v frames locked_section" where
  "handle_destroy h F = (if F h = None then Undef else Done (F(h := None)))"

section \<open>Awaiters and tasks\<close>

definition await_ready :: "'v frames \<Rightarrow> nat option \<Rightarrow> bool" where
  "await_ready F h = (case h of None \<Rightarrow> True | Some i \<Rightarrow> handle_done F i)"

definition await_suspend :: "'v frames \<Rightarrow> nat option \<Rightarrow> nat \<Rightarrow> 'v frames \<times> nat option" where
  "await_suspend F h continuation =
     (case h of
        None \<Rightarrow> (F, None)
      | Some i \<Rightarrow> (F(i := map_option (fr_continuation_update (\<lambda>_. Some continuation)) (F i)), Some i))"

text \<open>What a promise holds, for \<open>await_resume\<close> and \<open>result\<close>.\<close>

definition promise_result :: "'v frame \<Rightarrow> coro_exn + 'v" where
  "promise_result f =
     (case fr_exp f of
        Some e \<Rightarrow> Inl e
      | None \<Rightarrow> (case fr_value f of None \<Rightarrow> Inl EmptyResult | Some v \<Rightarrow> Inr v))"

definition await_resume :: "'v frames \<Rightarrow> nat option \<Rightarrow> coro_exn + 'v" where
  "await_resume F h =
     (case h of None \<Rightarrow> Inl InvalidTask | Some i \<Rightarrow> (case F i of None \<Rightarrow> Inl InvalidTask | Some f \<Rightarrow> promise_result f))"

definition task_done :: "'v frames \<Rightarrow> nat option \<Rightarrow> bool" where
  "task_done F h = (case h of None \<Rightarrow> True | Some i \<Rightarrow> handle_done F i)"

text \<open>The coroutine that \<open>resume\<close> continues, if any.\<close>

definition task_resume :: "'v frames \<Rightarrow> nat option \<Rightarrow> nat option" where
  "task_resume F h = (if task_done F h then None else h)"

definition task_result :: "'v frames \<Rightarrow> nat option \<Rightarrow> coro_exn + 'v" where
  "task_result F h =
     (if \<not> task_done F h then Inl TaskNotReady
      else case h of None \<Rightarrow> Inl InvalidTask | Some i \<Rightarrow> (case F i of None \<Rightarrow> Inl InvalidTask | Some f \<Rightarrow> promise_result f))"

text \<open>A \<open>Task<void>\<close> has no value to miss.\<close>

definition await_resume_void :: "unit frames \<Rightarrow> nat option \<Rightarrow> coro_exn + unit" where
  "await_resume_void F h =
     (case h of
        None \<Rightarrow> Inl InvalidTask
      | Some i \<Rightarrow> (case F i of None \<Rightarrow> Inl InvalidTask | Some f \<Rightarrow> (case fr_exp f of Some e \<Rightarrow> Inl e | None \<Rightarrow> Inr ())))"

definition task_result_void :: "unit frames \<Rightarrow> nat option \<Rightarrow> coro_exn + unit" where
  "task_result_void F h = (if \<not> task_done F h then Inl TaskNotReady else await_resume_void F h)"

section \<open>Owners of frames\<close>

text \<open>The \<open>Task\<close> and \<open>Awaiter\<close> objects of a program and the handle each holds: both classes move, assign and destroy
  in the same way, and \<open>co_await\<close> moves the handle of a task into an awaiter.\<close>

record 'v task_world =
  tk_objects :: "nat \<rightharpoonup> nat option"
  tk_frames :: "'v frames"
  tk_next :: nat

definition task_create :: "nat \<Rightarrow> 'v body \<Rightarrow> 'v task_world \<Rightarrow> 'v task_world" where
  "task_create o' b w = w\<lparr>tk_objects := (tk_objects w)(o' \<mapsto> Some (tk_next w)),
     tk_frames := (tk_frames w)(tk_next w \<mapsto> new_frame (fs_ready b)), tk_next := tk_next w + 1\<rparr>"

definition task_move :: "nat \<Rightarrow> nat \<Rightarrow> 'v task_world \<Rightarrow> 'v task_world" where
  "task_move dst src w = w\<lparr>tk_objects := (tk_objects w)(dst := tk_objects w src, src \<mapsto> None)\<rparr>"

definition task_destroy_handle :: "nat option \<Rightarrow> 'v task_world \<Rightarrow> 'v task_world locked_section" where
  "task_destroy_handle h w =
     (case h of
        None \<Rightarrow> Done w
      | Some i \<Rightarrow> (case handle_destroy i (tk_frames w) of Done F \<Rightarrow> Done (w\<lparr>tk_frames := F\<rparr>) | Wait \<Rightarrow> Wait | Undef \<Rightarrow> Undef))"

definition task_move_assign :: "nat \<Rightarrow> nat \<Rightarrow> 'v task_world \<Rightarrow> 'v task_world locked_section" where
  "task_move_assign dst src w =
     (if dst = src then Done w
      else case task_destroy_handle (the (tk_objects w dst)) w of
        Done w \<Rightarrow> Done (task_move dst src w) | Wait \<Rightarrow> Wait | Undef \<Rightarrow> Undef)"

definition task_destroy :: "nat \<Rightarrow> 'v task_world \<Rightarrow> 'v task_world locked_section" where
  "task_destroy o' w =
     (case task_destroy_handle (the (tk_objects w o')) w of
        Done w \<Rightarrow> Done (w\<lparr>tk_objects := (tk_objects w)(o' := None)\<rparr>) | Wait \<Rightarrow> Wait | Undef \<Rightarrow> Undef)"

text \<open>A program over these objects; an operation that names an object that does not exist, or creates one that
  does, is not a program and is passed over.\<close>

datatype 'v task_op = tk_create nat "'v body" | tk_move nat nat | tk_assign nat nat | tk_destroy nat

fun task_exec :: "'v task_op \<Rightarrow> 'v task_world \<Rightarrow> 'v task_world locked_section" where
  "task_exec (tk_create o' b) w = (if tk_objects w o' = None then Done (task_create o' b w) else Done w)"
| "task_exec (tk_move dst src) w =
     (if tk_objects w dst = None \<and> tk_objects w src \<noteq> None then Done (task_move dst src w) else Done w)"
| "task_exec (tk_assign dst src) w =
     (if tk_objects w dst \<noteq> None \<and> tk_objects w src \<noteq> None then task_move_assign dst src w else Done w)"
| "task_exec (tk_destroy o') w = (if tk_objects w o' \<noteq> None then task_destroy o' w else Done w)"

fun task_run :: "'v task_op list \<Rightarrow> 'v task_world \<Rightarrow> 'v task_world locked_section" where
  "task_run [] w = Done w"
| "task_run (p # ps) w = (case task_exec p w of Done w' \<Rightarrow> task_run ps w' | Wait \<Rightarrow> Wait | Undef \<Rightarrow> Undef)"

definition no_tasks :: "'v task_world" where
  "no_tasks = \<lparr>tk_objects = Map.empty, tk_frames = Map.empty, tk_next = 0\<rparr>"

section \<open>sync_wait\<close>

text \<open>The thread that called \<open>sync_wait\<close>: inside \<open>runner.resume()\<close>, at the wait, or back at its caller.\<close>

datatype 'v sync_pc = sy_resuming | sy_waiting | sy_returned "coro_exn + 'v"

datatype co_thread = on_caller | on_worker

text \<open>\<open>sy_done\<close>, \<open>sy_result\<close> and \<open>sy_exception\<close> are the shared state on the stack of the caller.  \<open>sy_caller\<close> and
  \<open>sy_worker\<close> are the coroutines that the caller and a worker of the executor are running, \<open>sy_queue\<close> the handles
  posted to the executor.  The executor takes the \<open>n\<close>-th post if \<open>acc n\<close>.\<close>

record 'v sync_world =
  sy_frames :: "'v frames"
  sy_next :: nat
  sy_caller :: "nat option"
  sy_worker :: "nat option"
  sy_queue :: "nat list"
  sy_posts :: nat
  sy_done :: bool
  sy_result :: "'v option"
  sy_exception :: "coro_exn option"
  sy_pc :: "'v sync_pc"

definition running :: "co_thread \<Rightarrow> 'v sync_world \<Rightarrow> nat option" where
  "running th w = (case th of on_caller \<Rightarrow> sy_caller w | on_worker \<Rightarrow> sy_worker w)"

definition transfer :: "co_thread \<Rightarrow> nat option \<Rightarrow> 'v sync_world \<Rightarrow> 'v sync_world" where
  "transfer th h w = (case th of on_caller \<Rightarrow> w\<lparr>sy_caller := h\<rparr> | on_worker \<Rightarrow> w\<lparr>sy_worker := h\<rparr>)"

text \<open>\<open>sync_wait\<close> up to \<open>runner.resume()\<close>; the runner is the coroutine 0.\<close>

definition sync_wait_start :: "'v body \<Rightarrow> 'v sync_world" where
  "sync_wait_start b = \<lparr>sy_frames = [0 \<mapsto> new_frame (fs_start b)], sy_next = 1, sy_caller = Some 0, sy_worker = None,
     sy_queue = [], sy_posts = 0, sy_done = False, sy_result = None, sy_exception = None, sy_pc = sy_resuming\<rparr>"

text \<open>\<open>co_await\<close> of a new task by coroutine \<open>h\<close>.\<close>

definition await_child :: "co_thread \<Rightarrow> nat \<Rightarrow> 'v frame \<Rightarrow> 'v body \<Rightarrow> 'v kont \<Rightarrow> 'v sync_world \<Rightarrow> 'v sync_world" where
  "await_child th h f b k w =
     (let c = sy_next w;
          F = (sy_frames w)(c \<mapsto> new_frame (fs_ready b), h \<mapsto> f\<lparr>fr_state := fs_awaiting c k\<rparr>);
          w = w\<lparr>sy_next := c + 1\<rparr>
      in if await_ready F (Some c) then w\<lparr>sy_frames := F\<rparr>
         else (let (F, nxt) = await_suspend F (Some c) h in transfer th nxt (w\<lparr>sy_frames := F\<rparr>)))"

definition co_finish :: "co_thread \<Rightarrow> nat \<Rightarrow> 'v frame \<Rightarrow> 'v sync_world \<Rightarrow> 'v sync_world" where
  "co_finish th h f w =
     transfer th (final_await_suspend f) (w\<lparr>sy_frames := (sy_frames w)(h \<mapsto> f\<lparr>fr_state := fs_final\<rparr>)\<rparr>)"

text \<open>A resumed coroutine takes the result of the task it awaited, and the awaiter with its frame is destroyed.\<close>

definition co_resumed :: "nat \<Rightarrow> 'v frame \<Rightarrow> nat \<Rightarrow> 'v kont \<Rightarrow> 'v sync_world \<Rightarrow> 'v sync_world locked_section" where
  "co_resumed h f c k w =
     (let r = await_resume (sy_frames w) (Some c) in
      case handle_destroy c (sy_frames w) of
        Done F \<Rightarrow> Done (w\<lparr>sy_frames := F(h \<mapsto> f\<lparr>fr_state := (case k of user_k g \<Rightarrow> fs_ready (g r) | runner_k \<Rightarrow> fs_got r)\<rparr>)\<rparr>)
      | Wait \<Rightarrow> Wait | Undef \<Rightarrow> Undef)"

text \<open>The runner stores the result under the lock.\<close>

definition runner_stores :: "coro_exn + 'v \<Rightarrow> 'v sync_world \<Rightarrow> 'v sync_world" where
  "runner_stores r w =
     (case r of Inr v \<Rightarrow> w\<lparr>sy_result := Some v, sy_done := True\<rparr> | Inl e \<Rightarrow> w\<lparr>sy_exception := Some e, sy_done := True\<rparr>)"

text \<open>One step of the coroutine that a thread runs.  Using a destroyed frame or the state of a \<open>sync_wait\<close> that has
  returned is undefined.\<close>

definition co_step :: "(nat \<Rightarrow> bool) \<Rightarrow> co_thread \<Rightarrow> 'v sync_world \<Rightarrow> 'v sync_world locked_section" where
  "co_step acc th w =
     (case running th w of
        None \<Rightarrow> Wait
      | Some h \<Rightarrow>
         (case sy_frames w h of
            None \<Rightarrow> Undef
          | Some f \<Rightarrow>
             (case fr_state f of
                fs_start b \<Rightarrow> Done (await_child th h f b runner_k w)
              | fs_ready (co_return v) \<Rightarrow> Done (co_finish th h (return_value v f) w)
              | fs_ready (co_throw e) \<Rightarrow> Done (co_finish th h (unhandled_exception e f) w)
              | fs_ready (co_await_task b g) \<Rightarrow> Done (await_child th h f b (user_k g) w)
              | fs_ready (co_await_schedule g) \<Rightarrow>
                  (let w = w\<lparr>sy_posts := sy_posts w + 1\<rparr> in
                   if acc (sy_posts w - 1)
                   then Done (transfer th None (w\<lparr>sy_frames := (sy_frames w)(h \<mapsto> f\<lparr>fr_state := fs_ready (g None)\<rparr>),
                     sy_queue := sy_queue w @ [h]\<rparr>))
                   else Done (w\<lparr>sy_frames := (sy_frames w)(h \<mapsto> f\<lparr>fr_state := fs_ready (g (Some ScheduleRejected))\<rparr>)\<rparr>))
              | fs_awaiting c k \<Rightarrow> co_resumed h f c k w
              | fs_got r \<Rightarrow> Done ((runner_stores r w)\<lparr>sy_frames := (sy_frames w)(h \<mapsto> f\<lparr>fr_state := fs_signalled\<rparr>)\<rparr>)
              | fs_signalled \<Rightarrow> Done (co_finish th h f w)
              | fs_final \<Rightarrow> Undef)))"

text \<open>A worker of the executor takes a posted handle and resumes it unless it is done.\<close>

definition worker_picks :: "'v sync_world \<Rightarrow> 'v sync_world locked_section" where
  "worker_picks w =
     (case sy_queue w of
        [] \<Rightarrow> Wait
      | h # q \<Rightarrow>
         if sy_worker w \<noteq> None then Wait
         else if sy_frames w h = None then Undef
         else if handle_done (sy_frames w) h then Done (w\<lparr>sy_queue := q\<rparr>)
         else Done (w\<lparr>sy_queue := q, sy_worker := Some h\<rparr>))"

text \<open>The caller after \<open>runner.resume()\<close>, and after the wait; returning destroys the runner.\<close>

definition resume_returns :: "'v sync_world \<Rightarrow> 'v sync_world locked_section" where
  "resume_returns w = (if sy_pc w = sy_resuming \<and> sy_caller w = None then Done (w\<lparr>sy_pc := sy_waiting\<rparr>) else Wait)"

definition sync_wait_returns :: "'v sync_world \<Rightarrow> 'v sync_world locked_section" where
  "sync_wait_returns w =
     (if sy_pc w = sy_waiting \<and> sy_done w then
        (let r = (case sy_exception w of
                    Some e \<Rightarrow> Inl e
                  | None \<Rightarrow> (case sy_result w of None \<Rightarrow> Inl EmptyResult | Some v \<Rightarrow> Inr v))
         in case handle_destroy 0 (sy_frames w) of
              Done F \<Rightarrow> Done (w\<lparr>sy_frames := F, sy_pc := sy_returned r\<rparr>) | Wait \<Rightarrow> Wait | Undef \<Rightarrow> Undef)
      else Wait)"

inductive sync_step :: "(nat \<Rightarrow> bool) \<Rightarrow> 'v sync_world \<Rightarrow> 'v sync_world \<Rightarrow> bool" for acc where
  step_coroutine: "co_step acc th w = Done w' \<Longrightarrow> sync_step acc w w'"
| step_worker: "worker_picks w = Done w' \<Longrightarrow> sync_step acc w w'"
| step_resumed: "resume_returns w = Done w' \<Longrightarrow> sync_step acc w w'"
| step_returns: "sync_wait_returns w = Done w' \<Longrightarrow> sync_step acc w w'"

section \<open>What a body computes\<close>

text \<open>The direct reading of a body, without frames, handles or threads: the result, and the number of posts made.\<close>

primrec coro_eval :: "'v body \<Rightarrow> (nat \<Rightarrow> bool) \<Rightarrow> nat \<Rightarrow> (coro_exn + 'v) \<times> nat" where
  "coro_eval (co_return v) acc n = (Inr v, n)"
| "coro_eval (co_throw e) acc n = (Inl e, n)"
| "coro_eval (co_await_task b g) acc n = (case coro_eval b acc n of (r, m) \<Rightarrow> coro_eval (g r) acc m)"
| "coro_eval (co_await_schedule g) acc n = coro_eval (g (if acc n then None else Some ScheduleRejected)) acc (n + 1)"


section \<open>Every frame has one owner\<close>

definition task_inv :: "'v task_world \<Rightarrow> bool" where
  "task_inv w \<longleftrightarrow> (\<forall>h. tk_frames w h \<noteq> None \<longleftrightarrow> (\<exists>x. tk_objects w x = Some (Some h))) \<and>
     (\<forall>x y h. tk_objects w x = Some (Some h) \<longrightarrow> tk_objects w y = Some (Some h) \<longrightarrow> x = y) \<and>
     (\<forall>h. tk_frames w h \<noteq> None \<longrightarrow> h < tk_next w)"

lemma task_create_inv: "task_inv w \<Longrightarrow> tk_objects w x = None \<Longrightarrow> task_inv (task_create x b w)"
  unfolding task_inv_def task_create_def by (auto simp: less_Suc_eq) (metis less_irrefl not_None_eq option.inject)+

lemma task_move_inv:
  assumes "task_inv w" "tk_objects w src = Some h" "tk_objects w dst = None \<or> tk_objects w dst = Some None" "dst \<noteq> src"
  shows "task_inv (task_move dst src w)"
proof -
  let ?T = "tk_objects (task_move dst src w)"
  have T: "?T x = Some (Some i) \<longleftrightarrow> (if x = dst then h = Some i else x \<noteq> src \<and> tk_objects w x = Some (Some i))" for x i
    using assms(2,4) by (simp add: task_move_def)
  have owned: "(\<exists>x. ?T x = Some (Some i)) \<longleftrightarrow> (\<exists>x. tk_objects w x = Some (Some i))" for i
  proof
    assume "\<exists>x. tk_objects w x = Some (Some i)"
    then obtain x where x: "tk_objects w x = Some (Some i)" ..
    then have "?T (if x = src then dst else x) = Some (Some i)" using T assms(2,3) by auto
    then show "\<exists>x. ?T x = Some (Some i)" by blast
  qed (use T assms(2) in \<open>auto split: if_splits\<close>)
  have "x = y" if "?T x = Some (Some i)" "?T y = Some (Some i)" for x y i
    using that assms(1,2) T [of x i] T [of y i] unfolding task_inv_def by (metis (no_types))
  moreover have "tk_frames (task_move dst src w) = tk_frames w" "tk_next (task_move dst src w) = tk_next w"
    by (simp_all add: task_move_def)
  ultimately show ?thesis using assms(1) owned unfolding task_inv_def by simp
qed

lemma task_drop_inv:
  assumes "task_inv w" "tk_objects w x = Some h" "t = None \<or> t = Some None"
    and "F = (case h of None \<Rightarrow> tk_frames w | Some i \<Rightarrow> (tk_frames w)(i := None))"
  shows "task_inv (w\<lparr>tk_frames := F, tk_objects := (tk_objects w)(x := t)\<rparr>)"
proof -
  have one: "\<And>y i. tk_objects w x = Some (Some i) \<Longrightarrow> tk_objects w y = Some (Some i) \<Longrightarrow> x = y"
    and dom: "\<And>i. tk_frames w i \<noteq> None \<longleftrightarrow> (\<exists>y. tk_objects w y = Some (Some i))"
    using assms(1) unfolding task_inv_def by blast+
  have "F i \<noteq> None \<longleftrightarrow> (\<exists>y. y \<noteq> x \<and> tk_objects w y = Some (Some i))" for i
  proof (cases "h = Some i")
    case True
    then have "F i = None" by (simp add: assms(4))
    moreover have "\<not> (\<exists>y. y \<noteq> x \<and> tk_objects w y = Some (Some i))" using one [of i] assms(2) True by blast
    ultimately show ?thesis by simp
  next
    case False
    then have "F i = tk_frames w i" by (auto simp: assms(4) split: option.split)
    moreover have "(\<exists>y. y \<noteq> x \<and> tk_objects w y = Some (Some i)) \<longleftrightarrow> (\<exists>y. tk_objects w y = Some (Some i))"
    proof
      assume "\<exists>y. tk_objects w y = Some (Some i)"
      then obtain y where y: "tk_objects w y = Some (Some i)" ..
      with False assms(2) have "y \<noteq> x" by auto
      with y show "\<exists>y. y \<noteq> x \<and> tk_objects w y = Some (Some i)" by blast
    qed blast
    ultimately show ?thesis using dom [of i] by simp
  qed
  moreover have "((tk_objects w)(x := t)) y = Some (Some i) \<longleftrightarrow> y \<noteq> x \<and> tk_objects w y = Some (Some i)" for y i
    using assms(3) by auto
  moreover have "F i \<noteq> None \<longrightarrow> i < tk_next w" for i
    using assms(1) unfolding task_inv_def by (cases h) (simp_all add: assms(4))
  moreover have "y = z" if "tk_objects w y = Some (Some i)" "tk_objects w z = Some (Some i)" for y z i
    using that assms(1) unfolding task_inv_def by blast
  ultimately show ?thesis unfolding task_inv_def by (simp add: fun_upd_apply del: fun_upd_apply)
qed

lemma destroy_handle_done:
  assumes "task_inv w" "tk_objects w x = Some h"
  shows "task_destroy_handle h w = Done (w\<lparr>tk_frames := (case h of None \<Rightarrow> tk_frames w | Some i \<Rightarrow> (tk_frames w)(i := None))\<rparr>)"
proof (cases h)
  case (Some i)
  then have "tk_frames w i \<noteq> None" using assms unfolding task_inv_def by blast
  then show ?thesis using Some by (simp add: task_destroy_handle_def handle_destroy_def)
qed (simp add: task_destroy_handle_def)

lemma move_overwrites:
  "dst \<noteq> src \<Longrightarrow> task_move dst src (w\<lparr>tk_frames := F\<rparr>) =
   task_move dst src (w\<lparr>tk_frames := F, tk_objects := (tk_objects w)(dst \<mapsto> None)\<rparr>)"
  by (simp add: task_move_def)

lemma task_exec_inv: "task_inv w \<Longrightarrow> \<exists>w'. task_exec p w = Done w' \<and> task_inv w'"
proof (cases p)
  case (tk_assign dst src)
  assume inv: "task_inv w"
  show ?thesis
  proof (cases "tk_objects w dst \<noteq> None \<and> tk_objects w src \<noteq> None \<and> dst \<noteq> src")
    case True
    then obtain g h where gh: "tk_objects w dst = Some g" "tk_objects w src = Some h" by blast
    let ?F = "case g of None \<Rightarrow> tk_frames w | Some i \<Rightarrow> (tk_frames w)(i := None)"
    have "task_inv (w\<lparr>tk_frames := ?F, tk_objects := (tk_objects w)(dst \<mapsto> None)\<rparr>)"
      by (rule task_drop_inv [OF inv gh(1) _ refl]) simp
    then have "task_inv (task_move dst src (w\<lparr>tk_frames := ?F\<rparr>))"
      unfolding move_overwrites [OF True [THEN conjunct2, THEN conjunct2]]
      by (rule task_move_inv) (use True gh in simp_all)
    then show ?thesis
      using tk_assign True gh destroy_handle_done [OF inv gh(1)] by (simp add: task_move_assign_def)
  qed (use tk_assign inv in \<open>auto simp: task_move_assign_def\<close>)
next
  case (tk_destroy x)
  assume inv: "task_inv w"
  show ?thesis
  proof (cases "tk_objects w x")
    case (Some h)
    then show ?thesis
      using tk_destroy destroy_handle_done [OF inv Some] task_drop_inv [OF inv Some _ refl, of None]
      by (simp add: task_destroy_def)
  qed (use tk_destroy inv in simp)
qed (auto intro: task_create_inv task_move_inv)

lemma task_run_inv: "task_inv w \<Longrightarrow> \<exists>w'. task_run ps w = Done w' \<and> task_inv w'"
proof (induction ps arbitrary: w)
  case (Cons p ps)
  then show ?case using task_exec_inv [OF Cons.prems, of p] by auto
qed auto

text \<open>C16: No program over tasks and awaiters destroys a frame twice or loses one: after any sequence of creations,
  moves, move assignments, self-assignments included, awaits and destructions, the frames that exist are
  exactly those held by an object, each by one object only; when the last object is gone, so is every frame.\<close>

theorem tasks_own_frames:
  "\<exists>w. task_run ps no_tasks = Done w \<and> dom (tk_frames w) = {h. \<exists>x. tk_objects w x = Some (Some h)} \<and>
    (\<forall>x y h. tk_objects w x = Some (Some h) \<and> tk_objects w y = Some (Some h) \<longrightarrow> x = y) \<and>
    (dom (tk_objects w) = {} \<longrightarrow> tk_frames w = Map.empty)"
proof -
  have "task_inv no_tasks" by (simp add: task_inv_def no_tasks_def)
  then obtain w where w: "task_run ps no_tasks = Done w" "task_inv w" using task_run_inv by blast
  then have dom: "dom (tk_frames w) = {h. \<exists>x. tk_objects w x = Some (Some h)}" unfolding task_inv_def by auto
  moreover have "tk_frames w = Map.empty" if "dom (tk_objects w) = {}" using that dom by auto
  ultimately show ?thesis using w unfolding task_inv_def by blast
qed

theorem tasks_own_frames_witness:
  "\<exists>w. task_run [tk_create 0 (co_return (1 :: nat)), tk_create 1 (co_return 2), tk_assign 0 1, tk_assign 0 0, tk_move 2 0, tk_destroy 0,
       tk_destroy 1] no_tasks = Done w \<and> tk_objects w 2 = Some (Some 1) \<and> dom (tk_frames w) = {1}"
proof -
  let ?ps = "[tk_create 0 (co_return (1 :: nat)), tk_create 1 (co_return 2), tk_assign 0 1, tk_assign 0 0, tk_move 2 0, tk_destroy 0,
       tk_destroy 1]"
  obtain w where run: "task_run ?ps no_tasks = Done w" and dom: "dom (tk_frames w) = {h. \<exists>x. tk_objects w x = Some (Some h)}"
    using tasks_own_frames [of ?ps] by blast
  have "tk_objects w = [2 \<mapsto> Some 1]"
    using run by (auto simp: no_tasks_def task_create_def task_move_assign_def task_destroy_def task_move_def task_destroy_handle_def
        handle_destroy_def fun_eq_iff)
  then show ?thesis using run dom by auto
qed


section \<open>The stack of awaiting coroutines\<close>

text \<open>The result of a stack of awaiting coroutines once the innermost task gives \<open>r\<close>.\<close>

fun resume_stack :: "(nat \<Rightarrow> bool) \<Rightarrow> nat \<Rightarrow> 'v kont list \<Rightarrow> coro_exn + 'v \<Rightarrow> coro_exn + 'v" where
  "resume_stack acc n (user_k g # ks) r = (case coro_eval (g r) acc n of (r', m) \<Rightarrow> resume_stack acc m ks r')"
| "resume_stack acc n ks r = r"

definition eval_stack :: "(nat \<Rightarrow> bool) \<Rightarrow> nat \<Rightarrow> 'v body \<Rightarrow> 'v kont list \<Rightarrow> coro_exn + 'v" where
  "eval_stack acc n b ks = (case coro_eval b acc n of (r, m) \<Rightarrow> resume_stack acc m ks r)"

text \<open>Coroutine \<open>c\<close> is awaited by the first of \<open>ps\<close>, that by the next, and so on to the runner.\<close>

fun linked :: "'v frames \<Rightarrow> nat \<Rightarrow> nat list \<Rightarrow> 'v kont list \<Rightarrow> bool" where
  "linked F c (p # ps) (k # ks) \<longleftrightarrow> (\<exists>f g. F c = Some f \<and> fr_continuation f = Some p \<and> F p = Some g \<and>
     fr_state g = fs_awaiting c k \<and> fr_exp g = None \<and> (k = runner_k \<longleftrightarrow> ps = []) \<and> linked F p ps ks)"
| "linked F c [] [] \<longleftrightarrow> c = 0 \<and> (\<exists>f. F c = Some f \<and> fr_continuation f = None)"
| "linked F c _ _ \<longleftrightarrow> False"

lemma linked_other:
  "linked F c ps ks \<Longrightarrow> x \<notin> set (c # ps) \<Longrightarrow> linked (F(x := t)) c ps ks"
  by (induction F c ps ks rule: linked.induct) auto

lemma linked_tail: "linked F c (p # ps) (k # ks) \<Longrightarrow> linked F p ps ks"
  by auto

lemma linked_head_cong:
  assumes "linked F c ps ks" "c \<notin> set ps" "F c = Some f" "fr_continuation f' = fr_continuation f"
  shows "linked (F(c \<mapsto> f')) c ps ks"
proof (cases ps)
  case Nil
  then show ?thesis using assms by (cases ks) auto
next
  case (Cons p qs)
  then obtain k ls where ks: "ks = k # ls" using assms(1) by (cases ks) auto
  then have "linked (F(c \<mapsto> f')) p qs ls" using assms(1,2) linked_other [of F p qs ls c] linked_tail Cons by auto
  then show ?thesis using assms Cons ks by auto
qed

lemma linked_length: "linked F c ps ks \<Longrightarrow> length ks = length ps"
  by (induction F c ps ks rule: linked.induct) auto

definition stack_ok :: "'v sync_world \<Rightarrow> nat \<Rightarrow> nat list \<Rightarrow> 'v kont list \<Rightarrow> bool" where
  "stack_ok w c ps ks \<longleftrightarrow> distinct (c # ps) \<and> dom (sy_frames w) = set (c # ps) \<and> linked (sy_frames w) c ps ks \<and>
     (\<forall>h \<in> set (c # ps). h < sy_next w)"

text \<open>Who runs coroutine \<open>h\<close>: the caller, still inside \<open>resume\<close>, or a worker; or it is posted; or nobody runs.\<close>

definition running_at :: "'v sync_world \<Rightarrow> nat \<Rightarrow> bool" where
  "running_at w h \<longleftrightarrow> sy_queue w = [] \<and>
     (sy_caller w = Some h \<and> sy_worker w = None \<and> sy_pc w = sy_resuming \<or> sy_caller w = None \<and> sy_worker w = Some h)"

definition posted :: "'v sync_world \<Rightarrow> nat \<Rightarrow> bool" where
  "posted w h \<longleftrightarrow> sy_queue w = [h] \<and> sy_caller w = None \<and> sy_worker w = None"

definition idle :: "'v sync_world \<Rightarrow> bool" where
  "idle w \<longleftrightarrow> sy_queue w = [] \<and> sy_caller w = None \<and> sy_worker w = None"

definition returned :: "'v sync_world \<Rightarrow> bool" where
  "returned w \<longleftrightarrow> (case sy_pc w of sy_returned _ \<Rightarrow> True | _ \<Rightarrow> False)"

definition no_result_yet :: "'v sync_world \<Rightarrow> bool" where
  "no_result_yet w \<longleftrightarrow> \<not> returned w \<and> \<not> sy_done w \<and> sy_exception w = None \<and> sy_result w = None"

definition stored :: "coro_exn + 'v \<Rightarrow> 'v sync_world \<Rightarrow> bool" where
  "stored r w \<longleftrightarrow> \<not> returned w \<and> sy_done w \<and>
     (case r of Inl e \<Rightarrow> sy_exception w = Some e | Inr v \<Rightarrow> sy_exception w = None \<and> sy_result w = Some v)"

definition ready_at where
  "ready_at w c ps ks b \<longleftrightarrow> stack_ok w c ps ks \<and> ps \<noteq> [] \<and> no_result_yet w \<and>
     (\<exists>f. sy_frames w c = Some f \<and> fr_state f = fs_ready b \<and> fr_exp f = None)"

definition final_at where
  "final_at w c ps ks r \<longleftrightarrow> stack_ok w c ps ks \<and> ps \<noteq> [] \<and> no_result_yet w \<and> running_at w (hd ps) \<and>
     (\<exists>f. sy_frames w c = Some f \<and> fr_state f = fs_final \<and> promise_result f = r)"

definition root_at where
  "root_at w s \<longleftrightarrow> (\<exists>f. sy_frames w = [0 \<mapsto> f] \<and> fr_state f = s \<and> fr_exp f = None \<and> fr_continuation f = None) \<and> 0 < sy_next w"

text \<open>The phases of a \<open>sync_wait\<close> whose result will be \<open>R\<close>.\<close>

inductive sync_inv :: "(nat \<Rightarrow> bool) \<Rightarrow> 'v body \<Rightarrow> coro_exn + 'v \<Rightarrow> 'v sync_world \<Rightarrow> bool" for acc b R where
  inv_start: "root_at w (fs_start b) \<Longrightarrow> running_at w 0 \<Longrightarrow> no_result_yet w \<Longrightarrow> sy_posts w = 0 \<Longrightarrow> sync_inv acc b R w"
| inv_ready: "ready_at w c ps ks b' \<Longrightarrow> running_at w c \<or> posted w c \<Longrightarrow> eval_stack acc (sy_posts w) b' ks = R \<Longrightarrow> sync_inv acc b R w"
| inv_final: "final_at w c ps ks r \<Longrightarrow> resume_stack acc (sy_posts w) ks r = R \<Longrightarrow> sync_inv acc b R w"
| inv_got: "root_at w (fs_got R) \<Longrightarrow> running_at w 0 \<Longrightarrow> no_result_yet w \<Longrightarrow> sync_inv acc b R w"
| inv_signalled: "root_at w fs_signalled \<Longrightarrow> running_at w 0 \<Longrightarrow> stored R w \<Longrightarrow> sync_inv acc b R w"
| inv_finished: "root_at w fs_final \<Longrightarrow> idle w \<Longrightarrow> stored R w \<Longrightarrow> sync_inv acc b R w"
| inv_returned: "sy_pc w = sy_returned R \<Longrightarrow> sy_frames w = Map.empty \<Longrightarrow> sy_queue w = [] \<Longrightarrow> sy_caller w = None \<Longrightarrow> sync_inv acc b R w"


section \<open>The steps keep the phase\<close>

lemma root_atI:
  "sy_frames w = [0 \<mapsto> f] \<Longrightarrow> fr_state f = s \<Longrightarrow> fr_exp f = None \<Longrightarrow> fr_continuation f = None \<Longrightarrow> 0 < sy_next w \<Longrightarrow> root_at w s"
  unfolding root_at_def by blast

lemma transfer_fields [simp]:
  "sy_frames (transfer th h w) = sy_frames w" "sy_next (transfer th h w) = sy_next w" "sy_queue (transfer th h w) = sy_queue w"
  "sy_posts (transfer th h w) = sy_posts w" "sy_done (transfer th h w) = sy_done w" "sy_result (transfer th h w) = sy_result w"
  "sy_exception (transfer th h w) = sy_exception w" "sy_pc (transfer th h w) = sy_pc w"
  "no_result_yet (transfer th h w) = no_result_yet w" "stored r (transfer th h w) = stored r w"
  by (simp_all add: transfer_def no_result_yet_def returned_def stored_def split: co_thread.split sum.split)

lemma thread_fields [simp]:
  "running th (w\<lparr>sy_frames := F\<rparr>) = running th w" "running th (w\<lparr>sy_next := n\<rparr>) = running th w" "running th (w\<lparr>sy_posts := n\<rparr>) = running th w"
  "running_at (w\<lparr>sy_frames := F\<rparr>) h = running_at w h" "running_at (w\<lparr>sy_next := n\<rparr>) h = running_at w h"
  "running_at (w\<lparr>sy_posts := n\<rparr>) h = running_at w h" "no_result_yet (w\<lparr>sy_frames := F\<rparr>) = no_result_yet w"
  "no_result_yet (w\<lparr>sy_next := n\<rparr>) = no_result_yet w" "no_result_yet (w\<lparr>sy_posts := n\<rparr>) = no_result_yet w"
  "no_result_yet (w\<lparr>sy_queue := q\<rparr>) = no_result_yet w" "no_result_yet (w\<lparr>sy_worker := q'\<rparr>) = no_result_yet w"
  "stored r (w\<lparr>sy_frames := F\<rparr>) = stored r w"
  by (simp_all add: running_def running_at_def no_result_yet_def returned_def stored_def split: co_thread.split sum.split)

lemma running_unique: "running_at w c \<Longrightarrow> running th w = Some h \<Longrightarrow> h = c"
  by (auto simp: running_at_def running_def split: co_thread.splits)

lemma running_thread: "running_at w c \<Longrightarrow> \<exists>th. running th w = Some c"
  unfolding running_at_def running_def by (metis co_thread.simps(3,4))

lemma transfer_running:
  assumes "running_at w c" "running th w = Some c"
  shows "running_at (transfer th (Some p) w) p" "idle (transfer th None w)" "posted (transfer th None (w\<lparr>sy_queue := sy_queue w @ [h]\<rparr>)) h"
  using assms by (auto simp: running_at_def idle_def posted_def running_def transfer_def split: co_thread.splits)

lemma promise_state [simp]: "promise_result (f\<lparr>fr_state := s\<rparr>) = promise_result f"
  by (simp add: promise_result_def split: option.split)

lemma finish_final:
  assumes "ready_at w c ps ks b" "running_at w c" "running th w = Some c" "sy_frames w c = Some f"
    and "fr_continuation f' = fr_continuation f"
  shows "final_at (co_finish th c f' w) c ps ks (promise_result f')"
proof -
  let ?f = "f'\<lparr>fr_state := fs_final\<rparr>"
  obtain p qs where ps: "ps = p # qs" using assms(1) by (auto simp: ready_at_def neq_Nil_conv)
  have ok: "stack_ok w c ps ks" "no_result_yet w" using assms(1) by (simp_all add: ready_at_def)
  then have "fr_continuation f = Some p" using assms(4) ps by (cases ks) (auto simp: stack_ok_def)
  then have fin: "co_finish th c f' w = (transfer th (Some p) w)\<lparr>sy_frames := (sy_frames w)(c \<mapsto> ?f)\<rparr>"
    using assms(5) by (simp add: co_finish_def final_await_suspend_def transfer_def split: co_thread.split)
  have "linked ((sy_frames w)(c \<mapsto> ?f)) c ps ks"
    using linked_head_cong [of "sy_frames w" c ps ks f ?f] ok(1) assms(4,5) by (simp add: stack_ok_def)
  then have "stack_ok (co_finish th c f' w) c ps ks" using ok(1) by (auto simp: stack_ok_def fin)
  then show ?thesis using ok(2) transfer_running(1) [OF assms(2,3)] ps by (simp add: final_at_def fin)
qed

lemma await_child_ready:
  assumes "stack_ok w c ps ks" "sy_frames w c = Some f" "fr_exp f = None" "k = runner_k \<longleftrightarrow> ps = []"
    and "running_at w c" "running th w = Some c" "no_result_yet w"
  shows "ready_at (await_child th c f b k w) (sy_next w) (c # ps) (k # ks) b \<and>
    running_at (await_child th c f b k w) (sy_next w) \<and> sy_posts (await_child th c f b k w) = sy_posts w"
proof -
  let ?n = "sy_next w" and ?g = "f\<lparr>fr_state := fs_awaiting (sy_next w) k\<rparr>"
  let ?h = "(new_frame (fs_ready b))\<lparr>fr_continuation := Some c\<rparr>"
  have n: "?n \<notin> set (c # ps)" using assms(1) by (auto simp: stack_ok_def)
  let ?F = "(sy_frames w)(c \<mapsto> ?g, ?n \<mapsto> ?h)"
  have w': "await_child th c f b k w = (transfer th (Some ?n) w)\<lparr>sy_next := ?n + 1, sy_frames := ?F\<rparr>"
    using n by (auto simp: await_child_def await_ready_def handle_done_def await_suspend_def new_frame_def Let_def transfer_def
        split: co_thread.split)
  have "linked ((sy_frames w)(c \<mapsto> ?g)) c ps ks"
    using linked_head_cong [of "sy_frames w" c ps ks f ?g] assms(1,2) by (simp add: stack_ok_def)
  then have "linked ?F c ps ks" using n by (rule linked_other)
  then have "linked ?F ?n (c # ps) (k # ks)" using n assms(3,4) by simp
  then have "stack_ok (await_child th c f b k w) ?n (c # ps) (k # ks)"
    using assms(1) n by (auto simp: stack_ok_def w')
  then show ?thesis
    using assms(7) n transfer_running(1) [OF assms(5,6)] by (simp add: ready_at_def w' new_frame_def)
qed

lemma resumed_ready:
  assumes "final_at w c (p # ps) (k # ks) r" "sy_frames w p = Some f"
  shows "\<exists>w'. co_resumed p f c k w = Done w' \<and> sy_posts w' = sy_posts w \<and> running_at w' p \<and> no_result_yet w' \<and>
    (case k of user_k g \<Rightarrow> ready_at w' p ps ks (g r) | runner_k \<Rightarrow> p = 0 \<and> root_at w' (fs_got r))"
proof -
  obtain fc where fc: "sy_frames w c = Some fc" "promise_result fc = r" using assms(1) by (auto simp: final_at_def)
  have ok: "stack_ok w c (p # ps) (k # ks)" "no_result_yet w" "running_at w p" using assms(1) by (auto simp: final_at_def)
  let ?s = "case k of user_k g \<Rightarrow> fs_ready (g r) | runner_k \<Rightarrow> fs_got r" and ?F = "(sy_frames w)(c := None)"
  let ?w = "w\<lparr>sy_frames := ?F(p \<mapsto> f\<lparr>fr_state := ?s\<rparr>)\<rparr>"
  have step: "co_resumed p f c k w = Done ?w"
    using fc by (simp add: co_resumed_def await_resume_def handle_destroy_def)
  have cp: "c \<notin> set (p # ps)" "p \<notin> set ps" and lk: "linked (sy_frames w) p ps ks"
    using ok(1) by (auto simp: stack_ok_def)
  have f: "fr_exp f = None" "k = runner_k \<longleftrightarrow> ps = []" using ok(1) assms(2) by (auto simp: stack_ok_def)
  have "linked ?F p ps ks" using linked_other [OF lk cp(1)] by simp
  then have "linked (?F(p \<mapsto> f\<lparr>fr_state := ?s\<rparr>)) p ps ks"
    using linked_head_cong [of ?F p ps ks f] cp assms(2) by auto
  then have stack: "stack_ok ?w p ps ks" using ok(1) cp assms(2) by (auto simp: stack_ok_def)
  have "root_at ?w (fs_got r) \<and> p = 0" if "k = runner_k"
  proof -
    have "ps = []" "ks = []" using that f(2) linked_length [OF lk] by auto
    then have dom: "dom (sy_frames ?w) = {p}" and root: "p = 0" "fr_continuation f = None" "0 < sy_next w"
      using stack lk assms(2) by (auto simp: stack_ok_def)
    obtain y where y: "sy_frames ?w = [p \<mapsto> y]" using dom unfolding dom_eq_singleton_conv by blast
    have "sy_frames ?w p = Some (f\<lparr>fr_state := fs_got r\<rparr>)" using that by simp
    then have "y = f\<lparr>fr_state := fs_got r\<rparr>" unfolding y by simp
    then show ?thesis using root_atI [OF y [unfolded root(1)]] f(1) root by simp
  qed
  moreover have "ready_at ?w p ps ks (g r)" if "k = user_k g" for g
    using stack that f ok(2) by (simp add: ready_at_def)
  ultimately show ?thesis using step ok(2,3) by (cases k) auto
qed


lemma ready_update:
  assumes "ready_at w c ps ks b0" "sy_frames w c = Some f" "sy_frames w' = (sy_frames w)(c \<mapsto> f\<lparr>fr_state := fs_ready b\<rparr>)"
    and "sy_next w' = sy_next w" "no_result_yet w'"
  shows "ready_at w' c ps ks b"
proof -
  have "linked (sy_frames w') c ps ks"
    using linked_head_cong [of "sy_frames w" c ps ks f] assms(1,2) by (simp add: assms(3) ready_at_def stack_ok_def)
  then show ?thesis using assms by (auto simp: ready_at_def stack_ok_def)
qed

lemma root_stack: "root_at w s \<Longrightarrow> stack_ok w 0 [] []"
  by (auto simp: root_at_def stack_ok_def split: if_splits)

text \<open>The step of a body that is running.\<close>

lemma schedule_ready:
  assumes "ready_at w c ps ks (co_await_schedule g)" "running_at w c" "running th w = Some c"
  shows "\<exists>w'. co_step acc th w = Done w' \<and> ready_at w' c ps ks (g (if acc (sy_posts w) then None else Some ScheduleRejected)) \<and>
    sy_posts w' = sy_posts w + 1 \<and> (running_at w' c \<or> posted w' c)"
proof -
  obtain f where f: "sy_frames w c = Some f" "fr_state f = fs_ready (co_await_schedule g)" and fresh: "no_result_yet w"
    using assms(1) by (auto simp: ready_at_def)
  let ?r = "\<lambda>x. w\<lparr>sy_posts := sy_posts w + 1, sy_frames := (sy_frames w)(c \<mapsto> f\<lparr>fr_state := fs_ready (g x)\<rparr>)\<rparr>"
  let ?q = "transfer th None ((?r None)\<lparr>sy_queue := sy_queue w @ [c]\<rparr>)" and ?w = "?r (Some ScheduleRejected)"
  have "ready_at ?q c ps ks (g None)" using ready_update [OF assms(1) f(1), of ?q "g None"] fresh by simp
  moreover have "posted ?q c" using transfer_running(3) [of "?r None" c th c] assms(2,3) by simp
  moreover have "ready_at ?w c ps ks (g (Some ScheduleRejected))" using ready_update [OF assms(1) f(1), of ?w] fresh by simp
  moreover have "running_at ?w c" using assms(2) by simp
  ultimately show ?thesis using assms(3) f by (cases "acc (sy_posts w)") (simp_all add: co_step_def)
qed

lemma worker_ready:
  assumes "ready_at w c ps ks b" "posted w c"
  shows "\<exists>w'. worker_picks w = Done w' \<and> ready_at w' c ps ks b \<and> running_at w' c \<and> sy_posts w' = sy_posts w"
proof -
  obtain f where "sy_frames w c = Some f" "fr_state f = fs_ready b" using assms(1) by (auto simp: ready_at_def)
  then have "worker_picks w = Done (w\<lparr>sy_queue := [], sy_worker := Some c\<rparr>)"
    using assms(2) by (simp add: posted_def worker_picks_def handle_done_def)
  moreover have "ready_at (w\<lparr>sy_queue := [], sy_worker := Some c\<rparr>) c ps ks b" using assms(1) by (simp add: ready_at_def stack_ok_def)
  ultimately show ?thesis using assms(2) by (simp add: posted_def running_at_def)
qed

lemma finish_step:
  assumes "ready_at w c ps ks b'" "running_at w c" "running th w = Some c" "sy_frames w c = Some f"
    and "fr_continuation f' = fr_continuation f" "resume_stack acc (sy_posts w) ks (promise_result f') = R"
  shows "sync_inv acc b R (co_finish th c f' w)"
  using inv_final [OF finish_final [OF assms(1-5)]] assms(6) by (simp add: co_finish_def)

lemma ready_step:
  assumes "ready_at w c ps ks b'" "running_at w c" "running th w = Some c" "eval_stack acc (sy_posts w) b' ks = R"
  shows "\<exists>w'. co_step acc th w = Done w' \<and> sync_inv acc b R w'"
proof -
  obtain f where f: "sy_frames w c = Some f" "fr_state f = fs_ready b'" "fr_exp f = None"
      and ok: "stack_ok w c ps ks" "ps \<noteq> []" "no_result_yet w"
    using assms(1) by (auto simp: ready_at_def)
  note finish = finish_step [OF assms(1-3) f(1), where acc = acc and R = R and b = b]
  show ?thesis
  proof (cases b')
    case (co_return v)
    then have "sync_inv acc b R (co_finish th c (return_value v f) w)"
      using finish [of "return_value v f"] f(3) assms(4) by (simp add: return_value_def promise_result_def eval_stack_def)
    then show ?thesis using co_return f assms(3) by (simp add: co_step_def)
  next
    case (co_throw e)
    then have "sync_inv acc b R (co_finish th c (unhandled_exception e f) w)"
      using finish [of "unhandled_exception e f"] assms(4) by (simp add: unhandled_exception_def promise_result_def eval_stack_def)
    then show ?thesis using co_throw f assms(3) by (simp add: co_step_def)
  next
    case (co_await_task b'' g)
    have "eval_stack acc (sy_posts w) b'' (user_k g # ks) = R"
      using assms(4) co_await_task by (simp add: eval_stack_def split: prod.splits)
    then have "sync_inv acc b R (await_child th c f b'' (user_k g) w)"
      using await_child_ready [OF ok(1) f(1,3) _ assms(2,3) ok(3), of "user_k g" b''] ok(2) inv_ready by fastforce
    then show ?thesis using co_await_task f assms(3) by (simp add: co_step_def)
  next
    case (co_await_schedule g)
    then obtain w' where w': "co_step acc th w = Done w'" "sy_posts w' = sy_posts w + 1" "running_at w' c \<or> posted w' c"
        "ready_at w' c ps ks (g (if acc (sy_posts w) then None else Some ScheduleRejected))"
      using schedule_ready [of w c ps ks g th acc] assms(1-3) by auto
    then show ?thesis using inv_ready [OF w'(4,3)] assms(4) co_await_schedule by (simp add: eval_stack_def)
  qed
qed

lemma final_step:
  assumes "final_at w c ps ks r" "running th w = Some h" "resume_stack acc (sy_posts w) ks r = R"
  shows "\<exists>w'. co_step acc th w = Done w' \<and> sync_inv acc b R w'"
proof -
  obtain p qs where ps: "ps = p # qs" using assms(1) by (auto simp: final_at_def neq_Nil_conv)
  moreover obtain k ls where ks: "ks = k # ls"
    using assms(1) ps linked_length [of "sy_frames w" c ps ks] by (cases ks) (auto simp: final_at_def stack_ok_def)
  ultimately obtain f where f: "sy_frames w p = Some f" "fr_state f = fs_awaiting c k"
    using assms(1) by (auto simp: final_at_def stack_ok_def)
  have h: "h = p" using assms(1,2) ps running_unique by (auto simp: final_at_def)
  obtain w' where w': "co_resumed p f c k w = Done w'" "sy_posts w' = sy_posts w" "running_at w' p" "no_result_yet w'"
      and next_phase: "case k of user_k g \<Rightarrow> ready_at w' p qs ls (g r) | runner_k \<Rightarrow> p = 0 \<and> root_at w' (fs_got r)"
    using resumed_ready [of w c p qs k ls r f] assms(1) f(1) ps ks by blast
  have "sync_inv acc b R w'"
  proof (cases k)
    case (user_k g)
    then have "eval_stack acc (sy_posts w') (g r) ls = R" using assms(3) ks w'(2) by (simp add: eval_stack_def)
    then show ?thesis using inv_ready [of w' p qs ls "g r"] w'(3) next_phase user_k by simp
  next
    case runner_k
    then show ?thesis using inv_got w'(3,4) next_phase assms(3) ks by auto
  qed
  then show ?thesis using w'(1) f assms(2) h by (auto simp: co_step_def)
qed


lemma root_frame: "root_at w s \<Longrightarrow> \<exists>f. sy_frames w = [0 \<mapsto> f] \<and> fr_state f = s \<and> fr_exp f = None \<and> fr_continuation f = None \<and> 0 < sy_next w"
  by (auto simp: root_at_def)

lemma start_step:
  assumes "root_at w (fs_start b)" "running_at w 0" "no_result_yet w" "sy_posts w = 0" "running th w = Some 0"
    and "R = fst (coro_eval b acc 0)"
  shows "\<exists>w'. co_step acc th w = Done w' \<and> sync_inv acc b R w'"
proof -
  obtain f where f: "sy_frames w 0 = Some f" "fr_state f = fs_start b" "fr_exp f = None" using root_frame [OF assms(1)] by auto
  have "eval_stack acc 0 b [runner_k] = R" using assms(6) by (simp add: eval_stack_def split: prod.split)
  then have "sync_inv acc b R (await_child th 0 f b runner_k w)"
    using await_child_ready [OF root_stack [OF assms(1)] f(1,3) _ assms(2,5,3), of runner_k b] inv_ready assms(4) by fastforce
  then show ?thesis using f assms(5) by (simp add: co_step_def)
qed

lemma got_step:
  assumes "root_at w (fs_got R)" "running_at w 0" "no_result_yet w" "running th w = Some 0"
  shows "\<exists>w'. co_step acc th w = Done w' \<and> root_at w' fs_signalled \<and> running_at w' 0 \<and> stored R w'"
proof -
  obtain f where f: "sy_frames w = [0 \<mapsto> f]" "fr_state f = fs_got R" "fr_exp f = None" "fr_continuation f = None" "0 < sy_next w"
    using root_frame [OF assms(1)] by auto
  let ?w = "(runner_stores R w)\<lparr>sy_frames := (sy_frames w)(0 \<mapsto> f\<lparr>fr_state := fs_signalled\<rparr>)\<rparr>"
  have "root_at ?w fs_signalled"
    by (rule root_atI [of _ "f\<lparr>fr_state := fs_signalled\<rparr>"]) (use f in \<open>simp_all add: runner_stores_def split: sum.split\<close>)
  moreover have "running_at ?w 0" "stored R ?w"
    using assms(2,3) by (simp_all add: running_at_def stored_def returned_def no_result_yet_def runner_stores_def split: sum.split)
  ultimately show ?thesis using f assms(4) by (intro exI [of _ ?w]) (simp add: co_step_def)
qed

lemma signalled_step:
  assumes "root_at w fs_signalled" "running_at w 0" "stored R w" "running th w = Some 0"
  shows "\<exists>w'. co_step acc th w = Done w' \<and> root_at w' fs_final \<and> idle w' \<and> stored R w'"
proof -
  obtain f where f: "sy_frames w = [0 \<mapsto> f]" "fr_state f = fs_signalled" "fr_exp f = None" "fr_continuation f = None" "0 < sy_next w"
    using root_frame [OF assms(1)] by auto
  have w': "co_finish th 0 f w = (transfer th None w)\<lparr>sy_frames := [0 \<mapsto> f\<lparr>fr_state := fs_final\<rparr>]\<rparr>"
    using f(1,4) by (simp add: co_finish_def final_await_suspend_def transfer_def split: co_thread.split)
  have "root_at (co_finish th 0 f w) fs_final"
    by (rule root_atI [of _ "f\<lparr>fr_state := fs_final\<rparr>"]) (use f in \<open>simp_all add: w'\<close>)
  moreover have "idle (co_finish th 0 f w)" "stored R (co_finish th 0 f w)"
    using transfer_running(2) [OF assms(2,4)] assms(3) by (simp_all add: w' idle_def)
  ultimately show ?thesis using f(1,2) assms(4) by (intro exI [of _ "co_finish th 0 f w"]) (simp add: co_step_def)
qed

lemma co_step_inv:
  assumes "sync_inv acc b R w" "R = fst (coro_eval b acc 0)" "running th w = Some h" "sy_frames w h \<noteq> None"
  shows "\<exists>w'. co_step acc th w = Done w' \<and> sync_inv acc b R w'"
  using assms(1)
proof cases
  case inv_start
  then show ?thesis using start_step [OF _ _ _ _ _ assms(2)] assms(3) running_unique [of w 0 th h] by simp
next
  case (inv_ready c ps ks b')
  then have "running_at w c" using assms(3) by (auto simp: posted_def running_def split: co_thread.splits)
  then show ?thesis using ready_step inv_ready running_unique [of w c th h] assms(3) by simp
next
  case (inv_final c ps ks r)
  then show ?thesis using final_step assms(3) by blast
next
  case inv_got
  then show ?thesis using got_step [of w R th acc] sync_inv.inv_signalled assms(3) running_unique [of w 0 th h] by blast
next
  case inv_signalled
  then show ?thesis using signalled_step [of w R th acc] sync_inv.inv_finished assms(3) running_unique [of w 0 th h] by blast
next
  case inv_finished
  then show ?thesis using assms(3) by (auto simp: idle_def running_def split: co_thread.splits)
next
  case inv_returned
  then show ?thesis using assms(4) by simp
qed


lemma worker_picks_inv:
  assumes "sync_inv acc b R w" "worker_picks w = Done w'"
  shows "sync_inv acc b R w'"
  using assms(1)
proof cases
  case (inv_ready c ps ks b')
  then have "posted w c" using assms(2) by (auto simp: running_at_def worker_picks_def)
  then show ?thesis
    using worker_ready [OF inv_ready(1)] assms(2) inv_ready(3) sync_inv.inv_ready [of w' c ps ks b' acc R b] by auto
qed (use assms(2) in \<open>auto simp: running_at_def idle_def final_at_def worker_picks_def\<close>)

lemma resume_returns_inv:
  assumes "sync_inv acc b R w" "resume_returns w = Done w'"
  shows "sync_inv acc b R w'"
proof -
  have w': "w' = w\<lparr>sy_pc := sy_waiting\<rparr>" and pc: "sy_pc w = sy_resuming" "sy_caller w = None"
    using assms(2) by (auto simp: resume_returns_def split: if_splits)
  have [simp]: "running_at w' h = running_at w h" "no_result_yet w' = no_result_yet w" "posted w' h = posted w h"
    "idle w' = idle w" "stored r w' = stored r w" "root_at w' s = root_at w s" "sy_posts w' = sy_posts w"
    "stack_ok w' h ps ks = stack_ok w h ps ks" "sy_frames w' = sy_frames w" for h r s ps ks
    using pc by (simp_all add: w' running_at_def no_result_yet_def returned_def posted_def idle_def stored_def root_at_def stack_ok_def
        split: sum.split)
  show ?thesis using assms(1)
  proof cases
    case (inv_ready c ps ks b')
    then show ?thesis using sync_inv.inv_ready [of w' c ps ks b'] by (simp add: ready_at_def)
  next
    case (inv_final c ps ks r)
    then show ?thesis using sync_inv.inv_final [of w' c ps ks r] by (simp add: final_at_def)
  qed (use pc in \<open>auto intro: sync_inv.intros\<close>)
qed

lemma stored_result:
  "stored R w \<Longrightarrow> (case sy_exception w of Some e \<Rightarrow> Inl e | None \<Rightarrow> (case sy_result w of None \<Rightarrow> Inl EmptyResult | Some v \<Rightarrow> Inr v)) = R"
  by (auto simp: stored_def split: sum.splits)

lemma sync_wait_returns_inv:
  assumes "sync_inv acc b R w" "sync_wait_returns w = Done w'"
  shows "sync_inv acc b R w'"
proof -
  have pc: "sy_pc w = sy_waiting" "sy_done w" using assms(2) by (auto simp: sync_wait_returns_def split: if_splits)
  have "stored R w \<and> (\<exists>f. sy_frames w = [0 \<mapsto> f]) \<and> sy_queue w = [] \<and> sy_caller w = None"
    using assms(1) pc
    by cases (auto simp: ready_at_def final_at_def no_result_yet_def root_at_def running_at_def idle_def)
  then show ?thesis
    using assms(2) pc stored_result [of R w] inv_returned [of w' R acc b]
    by (auto simp: sync_wait_returns_def handle_destroy_def Let_def)
qed

lemma sync_step_inv:
  assumes "sync_inv acc b (fst (coro_eval b acc 0)) w" "sync_step acc w w'"
  shows "sync_inv acc b (fst (coro_eval b acc 0)) w'"
  using assms(2)
proof cases
  case (step_coroutine th)
  then obtain h where "running th w = Some h" "sy_frames w h \<noteq> None" by (auto simp: co_step_def split: option.splits)
  then show ?thesis using co_step_inv [OF assms(1) refl, of th h] step_coroutine by auto
qed (rule worker_picks_inv [OF assms(1)] resume_returns_inv [OF assms(1)] sync_wait_returns_inv [OF assms(1)], assumption)+

lemma sync_start_inv: "sync_inv acc b R (sync_wait_start b)"
  by (rule inv_start) (auto simp: root_at_def sync_wait_start_def running_at_def no_result_yet_def returned_def new_frame_def)

interpretation sync: invariant_machine "\<lambda>w. w = sync_wait_start b" "sync_step acc" "sync_inv acc b (fst (coro_eval b acc 0))" for acc b
  by unfold_locales (auto intro: sync_start_inv sync_step_inv)


section \<open>A body runs to its end\<close>

lemma step_trans: "sync_step acc w w' \<Longrightarrow> (sync_step acc)\<^sup>*\<^sup>* w' w'' \<Longrightarrow> (sync_step acc)\<^sup>*\<^sup>* w w''"
  by (rule converse_rtranclp_into_rtranclp)

lemma posted_runs:
  assumes "ready_at w c ps ks b" "running_at w c \<or> posted w c"
  shows "\<exists>w'. (sync_step acc)\<^sup>*\<^sup>* w w' \<and> ready_at w' c ps ks b \<and> running_at w' c \<and> sy_posts w' = sy_posts w"
  using assms worker_ready [OF assms(1)] step_worker by blast

lemma ready_running:
  "ready_at w c ps ks b \<Longrightarrow> running_at w c \<Longrightarrow> \<exists>f th. sy_frames w c = Some f \<and> fr_state f = fs_ready b \<and> fr_exp f = None \<and>
     running th w = Some c \<and> stack_ok w c ps ks \<and> ps \<noteq> [] \<and> no_result_yet w"
  using running_thread [of w c] by (auto simp: ready_at_def)

lemma finish_runs:
  assumes "ready_at w c ps ks b" "running_at w c" "b = co_return v \<and> r = Inr v \<or> b = co_throw e \<and> r = Inl e"
  shows "\<exists>w'. sync_step acc w w' \<and> final_at w' c ps ks r \<and> sy_posts w' = sy_posts w"
proof -
  obtain f th where f: "sy_frames w c = Some f" "fr_state f = fs_ready b" "fr_exp f = None" "running th w = Some c"
    using ready_running [OF assms(1,2)] by blast
  let ?f = "if b = co_return v then return_value v f else unhandled_exception e f"
  have "promise_result ?f = r" "fr_continuation ?f = fr_continuation f"
    using assms(3) f(3) by (auto simp: return_value_def unhandled_exception_def promise_result_def)
  then have "final_at (co_finish th c ?f w) c ps ks r" using finish_final [OF assms(1,2) f(4,1), of ?f] by simp
  moreover have "co_step acc th w = Done (co_finish th c ?f w)" using f assms(3) by (auto simp: co_step_def)
  ultimately show ?thesis using step_coroutine [of acc th w] by (intro exI [of _ "co_finish th c ?f w"]) (simp add: co_finish_def)
qed

lemma await_runs:
  assumes "ready_at w c ps ks (co_await_task b g)" "running_at w c"
  shows "\<exists>w' n. sync_step acc w w' \<and> ready_at w' n (c # ps) (user_k g # ks) b \<and> running_at w' n \<and> sy_posts w' = sy_posts w"
proof -
  obtain f th where f: "sy_frames w c = Some f" "fr_state f = fs_ready (co_await_task b g)" "fr_exp f = None" "running th w = Some c"
      and ok: "stack_ok w c ps ks" "ps \<noteq> []" "no_result_yet w"
    using ready_running [OF assms] by blast
  have "sync_step acc w (await_child th c f b (user_k g) w)"
    by (rule step_coroutine [of acc th]) (use f in \<open>simp add: co_step_def\<close>)
  then show ?thesis
    using await_child_ready [OF ok(1) f(1,3) _ assms(2) f(4) ok(3), of "user_k g" b] ok(2) by blast
qed

lemma resumed_runs:
  assumes "final_at w n (c # ps) (k # ks) r"
  shows "\<exists>w'. sync_step acc w w' \<and> sy_posts w' = sy_posts w \<and> running_at w' c \<and> no_result_yet w' \<and>
    (case k of user_k g \<Rightarrow> ready_at w' c ps ks (g r) | runner_k \<Rightarrow> c = 0 \<and> root_at w' (fs_got r))"
proof -
  obtain h where h: "sy_frames w c = Some h" "fr_state h = fs_awaiting n k" using assms by (auto simp: final_at_def stack_ok_def)
  obtain th where th: "running th w = Some c" using assms running_thread [of w c] by (auto simp: final_at_def)
  obtain w' where w': "co_resumed c h n k w = Done w'" "sy_posts w' = sy_posts w" "running_at w' c" "no_result_yet w'"
      "case k of user_k g \<Rightarrow> ready_at w' c ps ks (g r) | runner_k \<Rightarrow> c = 0 \<and> root_at w' (fs_got r)"
    using resumed_ready [OF assms h(1)] by blast
  have "sync_step acc w w'" by (rule step_coroutine [of acc th]) (use h th w'(1) in \<open>simp add: co_step_def\<close>)
  then show ?thesis using w'(2-5) by blast
qed

lemma run_body:
  "ready_at w c ps ks b \<Longrightarrow> running_at w c \<Longrightarrow> \<exists>w'. (sync_step acc)\<^sup>*\<^sup>* w w' \<and>
     final_at w' c ps ks (fst (coro_eval b acc (sy_posts w))) \<and> sy_posts w' = snd (coro_eval b acc (sy_posts w))"
proof (induction b arbitrary: w c ps ks)
  case (co_return v)
  then show ?case using finish_runs [OF co_return, of v "Inr v"] by auto
next
  case (co_throw e)
  then show ?case using finish_runs [OF co_throw, where r = "Inl e" and e = e] by auto
next
  case (co_await_task b g)
  obtain u n where u: "sync_step acc w u" "ready_at u n (c # ps) (user_k g # ks) b" "running_at u n" "sy_posts u = sy_posts w"
    using await_runs [OF co_await_task.prems] by blast
  obtain r m where r: "coro_eval b acc (sy_posts w) = (r, m)" by fastforce
  obtain v where v: "(sync_step acc)\<^sup>*\<^sup>* u v" "final_at v n (c # ps) (user_k g # ks) r" "sy_posts v = m"
    using co_await_task.IH(1) [OF u(2,3)] u(4) r by auto
  obtain x where x: "sync_step acc v x" "sy_posts x = m" "running_at x c" "ready_at x c ps ks (g r)"
    using resumed_runs [OF v(2), of acc] v(3) by auto
  obtain t where t: "(sync_step acc)\<^sup>*\<^sup>* x t" "final_at t c ps ks (fst (coro_eval (g r) acc m))" "sy_posts t = snd (coro_eval (g r) acc m)"
    using co_await_task.IH(2) [OF _ x(4,3)] x(2) by auto
  have "(sync_step acc)\<^sup>*\<^sup>* w t"
    by (rule step_trans [OF u(1) rtranclp_trans [OF v(1) step_trans [OF x(1) t(1)]]])
  then show ?case using t(2,3) r by auto
next
  case (co_await_schedule g)
  let ?b = "g (if acc (sy_posts w) then None else Some ScheduleRejected)"
  obtain th where "running th w = Some c" using running_thread [OF co_await_schedule.prems(2)] by blast
  then obtain u where u: "sync_step acc w u" "ready_at u c ps ks ?b" "sy_posts u = sy_posts w + 1" "running_at u c \<or> posted u c"
    using schedule_ready [OF co_await_schedule.prems, of th acc] step_coroutine by blast
  obtain v where v: "(sync_step acc)\<^sup>*\<^sup>* u v" "ready_at v c ps ks ?b" "running_at v c" "sy_posts v = sy_posts w + 1"
    using posted_runs [OF u(2,4), of acc] u(3) by auto
  obtain t where t: "(sync_step acc)\<^sup>*\<^sup>* v t" "final_at t c ps ks (fst (coro_eval ?b acc (sy_posts v)))"
      "sy_posts t = snd (coro_eval ?b acc (sy_posts v))"
    using co_await_schedule.IH [OF _ v(2,3)] by blast
  have "(sync_step acc)\<^sup>*\<^sup>* w t" by (rule step_trans [OF u(1) rtranclp_trans [OF v(1) t(1)]])
  then show ?case using t(2,3) v(4) by (intro exI [of _ t]) simp
qed


lemma start_runs:
  "\<exists>w. (sync_step acc)\<^sup>*\<^sup>* (sync_wait_start b) w \<and> root_at w (fs_got (fst (coro_eval b acc 0))) \<and> running_at w 0 \<and> no_result_yet w"
proof -
  let ?s = "sync_wait_start b" and ?f = "new_frame (fs_start b)"
  have s: "root_at ?s (fs_start b)" "running_at ?s 0" "no_result_yet ?s" "running on_caller ?s = Some 0" "sy_frames ?s 0 = Some ?f" "sy_posts ?s = 0"
    by (auto simp: root_at_def sync_wait_start_def running_at_def running_def no_result_yet_def returned_def new_frame_def)
  let ?w = "await_child on_caller 0 ?f b runner_k ?s"
  have "sync_step acc ?s ?w" by (rule step_coroutine [of acc on_caller]) (use s(4,5) in \<open>simp add: co_step_def new_frame_def\<close>)
  moreover have child: "ready_at ?w (sy_next ?s) [0] [runner_k] b" "running_at ?w (sy_next ?s)" "sy_posts ?w = 0"
    using await_child_ready [OF root_stack [OF s(1)] s(5) _ _ s(2,4,3), of runner_k b] s(6) by (simp_all add: new_frame_def)
  moreover obtain u where u: "(sync_step acc)\<^sup>*\<^sup>* ?w u" "final_at u (sy_next ?s) [0] [runner_k] (fst (coro_eval b acc 0))"
    using run_body [OF child(1,2), of acc] child(3) by auto
  moreover obtain v where "sync_step acc u v" "running_at v 0" "no_result_yet v" "root_at v (fs_got (fst (coro_eval b acc 0)))"
    using resumed_runs [OF u(2), of acc] by auto
  ultimately show ?thesis using step_trans rtranclp.rtrancl_into_rtrancl [of "sync_step acc"] by meson
qed

lemma finished_returns:
  assumes "root_at w fs_final" "idle w" "stored R w"
  shows "\<exists>w'. (sync_step acc)\<^sup>*\<^sup>* w w' \<and> sy_pc w' = sy_returned R"
proof -
  let ?u = "w\<lparr>sy_pc := sy_waiting\<rparr>"
  have "sy_pc w = sy_resuming \<or> sy_pc w = sy_waiting" using assms(3) by (cases "sy_pc w") (simp_all add: stored_def returned_def)
  moreover have "w = ?u" if "sy_pc w = sy_waiting" using that by (cases w) simp
  moreover have "sync_step acc w ?u" if "sy_pc w = sy_resuming"
    by (rule step_resumed) (use that assms(2) in \<open>simp add: resume_returns_def idle_def\<close>)
  ultimately have u: "(sync_step acc)\<^sup>*\<^sup>* w ?u" by (metis r_into_rtranclp rtranclp.rtrancl_refl)
  obtain f where f: "sy_frames w = [0 \<mapsto> f]" using assms(1) by (auto simp: root_at_def)
  have "stored R ?u" using assms(3) by (auto simp: stored_def returned_def split: sum.splits)
  then have "sync_wait_returns ?u = Done (?u\<lparr>sy_frames := Map.empty, sy_pc := sy_returned R\<rparr>)"
    using stored_result [of R ?u] f assms(3) by (simp add: sync_wait_returns_def handle_destroy_def stored_def)
  then have "sync_step acc ?u (?u\<lparr>sy_frames := Map.empty, sy_pc := sy_returned R\<rparr>)" by (rule step_returns)
  then show ?thesis using u by (intro exI [of _ "?u\<lparr>sy_frames := Map.empty, sy_pc := sy_returned R\<rparr>"]) simp
qed

lemma sync_wait_reaches:
  "\<exists>w. (sync_step acc)\<^sup>*\<^sup>* (sync_wait_start b) w \<and> sy_pc w = sy_returned (fst (coro_eval b acc 0))"
proof -
  let ?R = "fst (coro_eval b acc 0)"
  obtain w where w: "(sync_step acc)\<^sup>*\<^sup>* (sync_wait_start b) w" "root_at w (fs_got ?R)" "running_at w 0" "no_result_yet w"
    using start_runs by blast
  obtain u where u: "sync_step acc w u" "root_at u fs_signalled" "running_at u 0" "stored ?R u"
    using running_thread [OF w(3)] got_step [OF w(2-4)] step_coroutine by blast
  obtain v where v: "sync_step acc u v" "root_at v fs_final" "idle v" "stored ?R v"
    using running_thread [OF u(3)] signalled_step [OF u(2-4)] step_coroutine by blast
  obtain t where t: "(sync_step acc)\<^sup>*\<^sup>* v t" "sy_pc t = sy_returned ?R" using finished_returns [OF v(2-4)] by blast
  have "(sync_step acc)\<^sup>*\<^sup>* (sync_wait_start b) t"
    by (rule rtranclp_trans [OF w(1) step_trans [OF u(1) step_trans [OF v(1) t(1)]]])
  then show ?thesis using t(2) by blast
qed

text \<open>Until \<open>sync_wait\<close> returns, whatever runs has a frame.\<close>

lemma running_frame:
  assumes "sync_inv acc b R w" "\<not> returned w" "running th w = Some h"
  shows "sy_frames w h \<noteq> None"
  using assms(1)
proof cases
  case (inv_ready c ps ks b')
  then have "running_at w c" using assms(3) by (auto simp: posted_def running_def split: co_thread.splits)
  then have "h = c" using assms(3) running_unique by blast
  then show ?thesis using inv_ready(1) by (auto simp: ready_at_def)
next
  case (inv_final c ps ks r)
  then have "h \<in> set ps" using assms(3) running_unique [of w "hd ps" th h] by (auto simp: final_at_def)
  then show ?thesis using inv_final(1) by (auto simp: final_at_def stack_ok_def)
next
  case inv_finished
  then show ?thesis using assms(3) by (auto simp: idle_def running_def split: co_thread.splits)
qed (use assms(2,3) running_unique [of w 0 th h] in \<open>auto simp: root_at_def returned_def\<close>)

lemma sync_wait_value:
  assumes "sync_inv acc b R w" "sy_pc w = sy_returned r"
  shows "r = R \<and> sy_frames w = Map.empty"
  using assms by cases (auto simp: ready_at_def final_at_def no_result_yet_def stored_def returned_def)



definition sample_body :: "int body" where
  "sample_body = co_await_task (co_await_schedule (\<lambda>x. co_return 20))
     (\<lambda>r. case r of Inr v \<Rightarrow> co_return (v + 22) | Inl e \<Rightarrow> co_throw e)"


section \<open>The end of sync_wait\<close>

text \<open>The moves of the threads, by name.\<close>

datatype sync_move = mv_coroutine co_thread | mv_worker_picks | mv_resume_returns | mv_sync_wait_returns

fun sync_moves :: "(nat \<Rightarrow> bool) \<Rightarrow> sync_move list \<Rightarrow> 'v sync_world \<Rightarrow> 'v sync_world locked_section" where
  "sync_moves acc [] w = Done w"
| "sync_moves acc (m # ms) w =
     (case (case m of mv_coroutine th \<Rightarrow> co_step acc th w | mv_worker_picks \<Rightarrow> worker_picks w
              | mv_resume_returns \<Rightarrow> resume_returns w | mv_sync_wait_returns \<Rightarrow> sync_wait_returns w) of
        Done w' \<Rightarrow> sync_moves acc ms w' | Wait \<Rightarrow> Wait | Undef \<Rightarrow> Undef)"

text \<open>Between the unlock and \<open>notify_one\<close> the runner still uses the shared state and its own frame, but the caller may
  already have seen \<open>done\<close>, returned and destroyed both: the next step of the worker is undefined.\<close>

lemma sync_wait_returns_too_early:
  "\<exists>w. sync_moves (\<lambda>n. True) [mv_coroutine on_caller, mv_coroutine on_caller, mv_resume_returns, mv_worker_picks,
        mv_coroutine on_worker, mv_coroutine on_worker, mv_coroutine on_worker, mv_sync_wait_returns]
      (sync_wait_start (co_await_schedule (\<lambda>x. co_return (1 :: int)))) = Done w \<and>
     sy_pc w = sy_returned (Inr 1) \<and> sy_worker w = Some 0 \<and> co_step (\<lambda>n. True) on_worker w = Undef"
  by (simp add: sync_wait_start_def co_step_def running_def await_child_def await_ready_def handle_done_def await_suspend_def
      new_frame_def transfer_def resume_returns_def worker_picks_def co_finish_def final_await_suspend_def return_value_def
      co_resumed_def await_resume_def promise_result_def handle_destroy_def runner_stores_def sync_wait_returns_def Let_def)

end
