(* ===== verification/Coro_Schedule.thy ===== *)
theory Coro_Schedule
  imports Coro_Task Executor
begin

text \<open>
  Scheduling of a coroutine on an executor: \<^verbatim>\<open>coro/ExecutorScheduler.cpp\<close> and \<^verbatim>\<open>coro/Schedule.cpp\<close>.  The
  scheduler is a client of the executor interface.
\<close>

section \<open>Scheduling on an executor\<close>

text \<open>The task given to the executor resumes the coroutine, so it is named by its handle.\<close>

definition scheduler_post ::
  "('s, 'h) post_fun \<Rightarrow> 's option \<Rightarrow> 'h option \<Rightarrow> ('s option \<times> bool) locked_section" where
  "scheduler_post post ex handle =
     (case ex of
        None \<Rightarrow> Done (ex, False)
      | Some s \<Rightarrow>
         (case handle of
            None \<Rightarrow> Done (ex, False)
          | Some h \<Rightarrow>
             (case submit_fire_and_forget post s (Some h) of
                Done (s', b) \<Rightarrow> Done (Some s', b) | Wait \<Rightarrow> Wait | Undef \<Rightarrow> Undef)))"

definition schedule_await_suspend ::
  "('s, 'h) post_fun \<Rightarrow> 's option \<Rightarrow> 'h option \<Rightarrow> ('s option \<times> coro_exn option) locked_section" where
  "schedule_await_suspend post ex handle =
     (if handle = None then Done (ex, Some InvalidTask)
      else case scheduler_post post ex handle of
        Done (ex', post_result) \<Rightarrow> Done (ex', if \<not> post_result then Some ScheduleRejected else None)
      | Wait \<Rightarrow> Wait | Undef \<Rightarrow> Undef)"

text \<open>For any executor: the coroutine is resumed later exactly when \<open>co_await\<close> of the scheduler does not throw.\<close>

context executor
begin

lemma schedule_taken:
  assumes "schedule_await_suspend post (Some s) (Some h) = Done (ex, e)"
  shows "\<exists>s'. ex = Some s' \<and> (e = None \<and> taken s' = add_mset h (taken s) \<or> e = Some ScheduleRejected \<and> taken s' = taken s)"
  using assms fire_and_forget_taken [of s "Some h"]
  by (auto simp: schedule_await_suspend_def scheduler_post_def split: locked_section.splits if_splits)

end

text \<open>On a thread pool: the pool holds the coroutine, or the awaiting body gets \<open>ScheduleRejected\<close>.\<close>

lemma schedule_on_pool:
  assumes "schedule_await_suspend tp_post (Some (Some p)) (Some h) = Done (ex, e)"
  shows "\<exists>ex'. ex = Some ex' \<and> (e = None \<and> tp_taken ex' = add_mset h (tp_taken (Some p)) \<or>
    e = Some ScheduleRejected \<and> tp_taken ex' = tp_taken (Some p))"
  by (rule tp.schedule_taken [OF assms])

lemma schedule_without_executor:
  "schedule_await_suspend post None (Some h) = Done (None, Some ScheduleRejected)"
  "schedule_await_suspend post ex None = Done (ex, Some InvalidTask)"
  by (simp_all add: schedule_await_suspend_def scheduler_post_def)

end
