(* ===== verification/Coro_Example.thy ===== *)
theory Coro_Example
  imports Coro_Task
begin

text \<open>
  The specialisations of \<^verbatim>\<open>coro/SyncWait.hpp\<close> for \<open>Task<void>\<close>, which store no result, and the program \<^verbatim>\<open>coro/examples/main.cpp\<close>
  on top of the coroutine machine: what it prints does not depend on how its coroutines are scheduled.
\<close>

section \<open>Waiting for a task without a value\<close>

definition runner_stores_void :: "coro_exn + unit \<Rightarrow> unit sync_world \<Rightarrow> unit sync_world" where
  "runner_stores_void r w =
     (case r of Inr _ \<Rightarrow> w\<lparr>sy_done := True\<rparr> | Inl e \<Rightarrow> w\<lparr>sy_exception := Some e, sy_done := True\<rparr>)"

definition sync_wait_returns_void :: "unit sync_world \<Rightarrow> unit sync_world locked_section" where
  "sync_wait_returns_void w =
     (if sy_pc w = sy_waiting \<and> sy_done w then
        (let r = (case sy_exception w of Some e \<Rightarrow> Inl e | None \<Rightarrow> Inr ())
         in case handle_destroy 0 (sy_frames w) of
              Done F \<Rightarrow> Done (w\<lparr>sy_frames := F, sy_pc := sy_returned r\<rparr>) | Wait \<Rightarrow> Wait | Undef \<Rightarrow> Undef)
      else Wait)"

text \<open>The specialisation does what the general template does with the value \<open>()\<close>, but for the result it does not store.\<close>

lemma sync_wait_void_agrees:
  "sync_wait_returns (runner_stores r w) = Done w' \<Longrightarrow>
   sync_wait_returns_void (runner_stores_void r w) = Done (w'\<lparr>sy_result := sy_result w\<rparr>)"
  "sync_wait_returns (runner_stores r w) = Undef \<longleftrightarrow> sync_wait_returns_void (runner_stores_void r w) = Undef"
  by (auto simp: sync_wait_returns_def runner_stores_def sync_wait_returns_void_def runner_stores_void_def
      split: sum.splits option.splits if_splits locked_section.splits)

section \<open>The example program\<close>

text \<open>The values of its tasks.\<close>

datatype ex_value = ex_void | ex_int int | ex_unique_ptr int

definition read_value :: "ex_value body" where
  "read_value = co_return (ex_int 40)"

definition prepare_value :: "ex_value body" where
  "prepare_value = co_return ex_void"

text \<open>An exception of an awaited task leaves the body that awaits it.\<close>

definition co_await_value :: "ex_value body \<Rightarrow> (ex_value \<Rightarrow> ex_value body) \<Rightarrow> ex_value body" where
  "co_await_value b f = co_await_task b (\<lambda>r. case r of Inl e \<Rightarrow> co_throw e | Inr v \<Rightarrow> f v)"

definition compute_value :: "ex_value body" where
  "compute_value =
     co_await_value prepare_value (\<lambda>_. co_await_value read_value
       (\<lambda>v. case v of ex_int value \<Rightarrow> co_return (ex_int (value + 2)) | _ \<Rightarrow> co_return v))"

definition make_unique_value :: "ex_value body" where
  "make_unique_value = co_return (ex_unique_ptr 7)"

definition fail_value :: "ex_value body" where
  "fail_value = co_throw (user_exception ''example failure'')"

text \<open>\<open>operator<<\<close> of the values that are printed, and \<open>what()\<close> of an exception; the messages of the library's own
  exceptions are a parameter.\<close>

fun ex_print :: "ex_value \<Rightarrow> string" where
  "ex_print (ex_int i) = int_dec i"
| "ex_print (ex_unique_ptr i) = int_dec i"
| "ex_print ex_void = []"

definition ex_what :: "(coro_exn \<Rightarrow> string) \<Rightarrow> coro_exn \<Rightarrow> string" where
  "ex_what message e = (case e of user_exception m \<Rightarrow> m | _ \<Rightarrow> message e)"

text \<open>\<open>main\<close>, over what \<open>sync_wait\<close> returns: the lines written and the exit code.\<close>

definition coro_main :: "(coro_exn \<Rightarrow> string) \<Rightarrow> (ex_value body \<Rightarrow> coro_exn + ex_value) \<Rightarrow> string list \<times> nat" where
  "coro_main message sync_wait =
     (case sync_wait compute_value of
        Inl e \<Rightarrow> ([''coro example failed: '' @ ex_what message e], 1)
      | Inr v \<Rightarrow>
         (let out = [''computed value: '' @ ex_print v] in
          case sync_wait make_unique_value of
            Inl e \<Rightarrow> (out @ [''coro example failed: '' @ ex_what message e], 1)
          | Inr u \<Rightarrow>
             (let out = out @ [''move-only value: '' @ ex_print u] in
              case sync_wait fail_value of
                Inl e \<Rightarrow> (out @ [''caught coroutine exception: '' @ ex_what message e], 0)
              | Inr _ \<Rightarrow> (out, 0))))"

text \<open>Whatever interleaving of caller and worker each \<open>sync_wait\<close> goes through, the program prints the same three lines.\<close>

lemma coro_main_prints:
  assumes "\<And>b. \<exists>w. reach (\<lambda>w. w = sync_wait_start b) (sync_step acc) w \<and> sy_pc w = sy_returned (sync_wait b)"
  shows "coro_main message sync_wait =
    ([''computed value: 42'', ''move-only value: 7'', ''caught coroutine exception: example failure''], 0)"
proof -
  have "sync_wait b = fst (coro_eval b acc 0)" for b
    using assms [of b] sync_wait_value [OF sync.reach_inv] by blast
  then show ?thesis
    by (simp add: coro_main_def compute_value_def prepare_value_def read_value_def make_unique_value_def fail_value_def
        co_await_value_def ex_what_def int_dec_def nat_dec.simps digit_char_def char_of_def bit_0)
qed

text \<open>Such returns exist for every body.\<close>

lemma sync_wait_has_results:
  "\<exists>sync_wait. \<forall>b. \<exists>w. reach (\<lambda>w. w = sync_wait_start b) (sync_step acc) w \<and> sy_pc w = sy_returned (sync_wait b)"
proof -
  have "\<exists>r w. reach (\<lambda>w. w = sync_wait_start b) (sync_step acc) w \<and> sy_pc w = sy_returned r" for b :: "'a body"
    using sync_wait_reaches reach_steps [OF reach_start [of "\<lambda>w. w = sync_wait_start b", OF refl]] by blast
  then show ?thesis by metis
qed

end
