(* ===== verification/Static_Pool.thy ===== *)
theory Static_Pool
  imports Rtl_Prelude
begin

text \<open>
  The deprecated pair \<^verbatim>\<open>stp/UnboundedMPMCQueue.h\<close> and \<^verbatim>\<open>stp/StaticThreadPool.h\<close>, \<^verbatim>\<open>stp/StaticThreadPool.cpp\<close>: an unbounded
  queue and a pool of a fixed number of workers that block in \<open>take\<close>.  The queue's operations are sections under
  \<open>m_mutex\<close>; in the pool, submitters, workers and the thread in \<open>joinAll\<close> interleave.  Task bodies are opaque and
  return; an empty \<open>std::function\<close> is \<open>None\<close>.
\<close>

section \<open>The queue\<close>

record 'a legacy_queue =
  lq_stopRequested :: bool
  lq_buffer :: "'a list"

definition new_legacy_queue :: "'a legacy_queue" where
  "new_legacy_queue = \<lparr>lq_stopRequested = False, lq_buffer = []\<rparr>"

definition lq_put :: "'a \<Rightarrow> 'a legacy_queue \<Rightarrow> 'a legacy_queue" where
  "lq_put x q = q\<lparr>lq_buffer := lq_buffer q @ [x]\<rparr>"

text \<open>\<open>take\<close>, from its start and again after every wake-up.\<close>

definition lq_take :: "'a legacy_queue \<Rightarrow> ('a \<times> 'a legacy_queue) locked_section" where
  "lq_take q = (case lq_buffer q of [] \<Rightarrow> Wait | x # xs \<Rightarrow> Done (x, q\<lparr>lq_buffer := xs\<rparr>))"

text \<open>\<open>tryTake\<close>: what follows the wait, and the wait with or without the end of its time.\<close>

definition lq_tryTake_end :: "'a legacy_queue \<Rightarrow> 'a option \<times> 'a legacy_queue" where
  "lq_tryTake_end q =
     (if lq_stopRequested q then (None, q)
      else case lq_buffer q of [] \<Rightarrow> (None, q) | x # xs \<Rightarrow> (Some x, q\<lparr>lq_buffer := xs\<rparr>))"

definition lq_tryTake :: "bool \<Rightarrow> 'a legacy_queue \<Rightarrow> ('a option \<times> 'a legacy_queue) locked_section" where
  "lq_tryTake timed_out q =
     (if \<not> (lq_stopRequested q \<or> lq_buffer q \<noteq> []) then (if timed_out then Done (None, q) else Wait)
      else Done (lq_tryTake_end q))"

definition lq_request_stop :: "'a legacy_queue \<Rightarrow> 'a legacy_queue" where
  "lq_request_stop q = q\<lparr>lq_stopRequested := True\<rparr>"

definition lq_clear :: "'a legacy_queue \<Rightarrow> 'a legacy_queue" where
  "lq_clear q = q\<lparr>lq_buffer := []\<rparr>"

lemma legacy_take_fifo: "lq_buffer q = [] \<Longrightarrow> lq_take (lq_put x q) = Done (x, q)"
  "lq_buffer q = y # ys \<Longrightarrow> lq_take (lq_put x q) = Done (y, q\<lparr>lq_buffer := ys @ [x]\<rparr>)"
  by (simp_all add: lq_take_def lq_put_def)

section \<open>The pool\<close>

text \<open>A worker in \<open>runWorker\<close>: at the loop test, at the test inside the loop, before \<open>take\<close>, asleep in it, notified,
  running a task, or returned.\<close>

datatype 't static_worker = wk_head | wk_check | wk_taking | wk_asleep | wk_woken | wk_running 't | wk_exited

text \<open>The thread in \<open>joinAll\<close>: so many empty tasks left to put, and then the joins.  One thread calls it, once.  The
  thread count is the value of the \<open>uint16_t\<close>, which is only counted up to.\<close>

datatype static_join = jn_none | jn_putting nat | jn_joined

record 't static_pool =
  sp_threadCount :: nat
  sp_workers :: "'t static_worker list"
  sp_taskQueue :: "'t option legacy_queue"
  sp_releaseAllWorkers :: bool
  sp_isJoined :: bool
  sp_join :: static_join
  sp_submitted :: "'t list"
  sp_executed :: "'t list"

definition initAll :: "nat \<Rightarrow> 't static_pool" where
  "initAll threadCount = \<lparr>sp_threadCount = threadCount, sp_workers = replicate threadCount wk_head,
     sp_taskQueue = new_legacy_queue, sp_releaseAllWorkers = False, sp_isJoined = False, sp_join = jn_none,
     sp_submitted = [], sp_executed = []\<rparr>"

text \<open>\<open>put\<close> and its \<open>notify_one\<close>, which wakes the sleeping worker \<open>i\<close>, or nobody when none sleeps.\<close>

definition sp_put :: "nat \<Rightarrow> 't option \<Rightarrow> 't static_pool \<Rightarrow> 't static_pool" where
  "sp_put i x s = s\<lparr>sp_taskQueue := lq_put x (sp_taskQueue s),
     sp_workers := (if i < length (sp_workers s) \<and> sp_workers s ! i = wk_asleep then (sp_workers s)[i := wk_woken]
                    else sp_workers s)\<rparr>"

definition sp_putTask :: "nat \<Rightarrow> 't option \<Rightarrow> 't static_pool \<Rightarrow> 't static_pool" where
  "sp_putTask i x s = sp_put i x (s\<lparr>sp_submitted := sp_submitted s @ (case x of None \<Rightarrow> [] | Some t \<Rightarrow> [t])\<rparr>)"

text \<open>\<open>addTask\<close> wraps a packaged task, so what it puts is never empty.\<close>

definition sp_addTask :: "nat \<Rightarrow> 't \<Rightarrow> 't static_pool \<Rightarrow> 't static_pool" where
  "sp_addTask i t s = sp_putTask i (Some t) s"

text \<open>One move of a worker.  The test inside the loop reads the flag and then the queue; since the flag is only ever set,
  it is the same as reading both at the later moment.\<close>

definition runWorker_take :: "nat \<Rightarrow> 't static_pool \<Rightarrow> 't static_pool" where
  "runWorker_take i s =
     (case lq_take (sp_taskQueue s) of
        Done (x, q) \<Rightarrow> s\<lparr>sp_taskQueue := q,
          sp_workers := (sp_workers s)[i := (case x of None \<Rightarrow> wk_exited | Some t \<Rightarrow> wk_running t)]\<rparr>
      | _ \<Rightarrow> s\<lparr>sp_workers := (sp_workers s)[i := wk_asleep]\<rparr>)"

definition runWorker :: "nat \<Rightarrow> 't static_pool \<Rightarrow> 't static_pool" where
  "runWorker i s =
     (case sp_workers s ! i of
        wk_head \<Rightarrow> s\<lparr>sp_workers := (sp_workers s)[i := if sp_releaseAllWorkers s then wk_exited else wk_check]\<rparr>
      | wk_check \<Rightarrow> s\<lparr>sp_workers := (sp_workers s)[i :=
          if sp_releaseAllWorkers s \<and> lq_buffer (sp_taskQueue s) = [] then wk_exited else wk_taking]\<rparr>
      | wk_taking \<Rightarrow> runWorker_take i s
      | wk_woken \<Rightarrow> runWorker_take i s
      | wk_running t \<Rightarrow> s\<lparr>sp_executed := sp_executed s @ [t], sp_workers := (sp_workers s)[i := wk_head]\<rparr>
      | _ \<Rightarrow> s)"

definition joinAll_begin :: "'t static_pool \<Rightarrow> 't static_pool" where
  "joinAll_begin s = s\<lparr>sp_releaseAllWorkers := True, sp_join := jn_putting (sp_threadCount s)\<rparr>"

text \<open>The loops of \<open>joinAll\<close>: an empty task is put, and after the last the workers are joined, which waits until all
  have returned.\<close>

definition joinAll_next :: "nat \<Rightarrow> 't static_pool \<Rightarrow> 't static_pool locked_section" where
  "joinAll_next i s =
     (case sp_join s of
        jn_putting (Suc n) \<Rightarrow> Done (sp_put i None (s\<lparr>sp_join := jn_putting n\<rparr>))
      | jn_putting 0 \<Rightarrow>
          if list_all (\<lambda>w. w = wk_exited) (sp_workers s)
          then Done (s\<lparr>sp_workers := [], sp_isJoined := True, sp_join := jn_joined\<rparr>) else Wait
      | _ \<Rightarrow> Wait)"

definition static_pool_destroy :: "'t static_pool \<Rightarrow> 't static_pool" where
  "static_pool_destroy s = (if \<not> sp_isJoined s then joinAll_begin s else s)"

text \<open>\<open>notify_one\<close> wakes somebody if somebody sleeps.\<close>

definition notifies :: "nat \<Rightarrow> 't static_pool \<Rightarrow> bool" where
  "notifies i s \<longleftrightarrow> (wk_asleep \<in> set (sp_workers s) \<longrightarrow> i < length (sp_workers s) \<and> sp_workers s ! i = wk_asleep)"

inductive static_step :: "'t static_pool \<Rightarrow> 't static_pool \<Rightarrow> bool" where
  static_put: "notifies i s \<Longrightarrow> static_step s (sp_putTask i x s)"
| static_worker: "i < length (sp_workers s) \<Longrightarrow> static_step s (runWorker i s)"
| static_spurious: "i < length (sp_workers s) \<Longrightarrow> sp_workers s ! i = wk_asleep \<Longrightarrow>
    static_step s (s\<lparr>sp_workers := (sp_workers s)[i := wk_woken]\<rparr>)"
| static_join_begins: "sp_join s = jn_none \<Longrightarrow> static_step s (joinAll_begin s)"
| static_join_next: "notifies i s \<Longrightarrow> joinAll_next i s = Done s' \<Longrightarrow> static_step s s'"

inductive_cases static_stepE: "static_step s s'"

section \<open>The invariant\<close>

text \<open>A worker that will still take an element from the queue, and the task a worker holds.\<close>

fun wk_takes :: "'t static_worker \<Rightarrow> nat" where
  "wk_takes wk_check = 1" | "wk_takes wk_taking = 1" | "wk_takes wk_asleep = 1" | "wk_takes wk_woken = 1" | "wk_takes _ = 0"

fun wk_task :: "'t static_worker \<Rightarrow> 't multiset" where
  "wk_task (wk_running t) = {#t#}" | "wk_task _ = {#}"

definition still_to_put :: "'t static_pool \<Rightarrow> nat" where
  "still_to_put s = (case sp_join s of jn_putting n \<Rightarrow> n | _ \<Rightarrow> 0)"

abbreviation takers :: "'t static_pool \<Rightarrow> nat" where
  "takers s \<equiv> sum_list (map wk_takes (sp_workers s))"

abbreviation woken :: "'t static_pool \<Rightarrow> nat" where
  "woken s \<equiv> sum_list (map (\<lambda>w. of_bool (w = wk_woken)) (sp_workers s))"

definition queued_tasks :: "'t option list \<Rightarrow> 't multiset" where
  "queued_tasks xs = mset (List.map_filter id xs)"

definition static_inv :: "'t static_pool \<Rightarrow> bool" where
  "static_inv s \<longleftrightarrow>
     (sp_releaseAllWorkers s \<longleftrightarrow> sp_join s \<noteq> jn_none) \<and>
     (sp_releaseAllWorkers s \<longrightarrow> takers s \<le> length (lq_buffer (sp_taskQueue s)) + still_to_put s) \<and>
     (wk_asleep \<in> set (sp_workers s) \<longrightarrow> length (lq_buffer (sp_taskQueue s)) \<le> woken s) \<and>
     mset (sp_submitted s) = mset (sp_executed s) + sum_list (map wk_task (sp_workers s)) + queued_tasks (lq_buffer (sp_taskQueue s)) \<and>
     length (sp_workers s) = (if sp_join s = jn_joined then 0 else sp_threadCount s) \<and>
     (sp_isJoined s \<longleftrightarrow> sp_join s = jn_joined)"

lemma worker_sums:
  assumes "i < length ws" "ws ! i = a"
  shows "sum_list (map wk_takes (ws[i := b])) + wk_takes a = sum_list (map wk_takes ws) + wk_takes b"
    "sum_list (map (\<lambda>w. of_bool (w = wk_woken)) (ws[i := b])) + of_bool (a = wk_woken) =
       sum_list (map (\<lambda>w. of_bool (w = wk_woken)) ws) + (of_bool (b = wk_woken) :: nat)"
    "sum_list (map wk_task (ws[i := b])) + wk_task a = sum_list (map wk_task ws) + wk_task b"
    "wk_asleep \<in> set (ws[i := b]) \<Longrightarrow> b = wk_asleep \<or> wk_asleep \<in> set ws"
  using assms sum_list_map_update [of i ws wk_takes b] sum_list_map_update [of i ws "\<lambda>w. of_bool (w = wk_woken)" b]
    sum_list_map_update [of i ws wk_task b] set_update_subset_insert [of ws i b] by auto

lemma queued_tasks_simps [simp]:
  "queued_tasks [] = {#}" "queued_tasks (None # xs) = queued_tasks xs" "queued_tasks (Some t # xs) = add_mset t (queued_tasks xs)"
  "queued_tasks (xs @ ys) = queued_tasks xs + queued_tasks ys"
  by (simp_all add: queued_tasks_def List.map_filter_def)

lemma worker_move_inv:
  assumes "static_inv s" "i < length (sp_workers s)" "sp_workers s ! i = a" "wk_takes b \<le> wk_takes a" "wk_task b = wk_task a"
    and "a = wk_woken \<Longrightarrow> b = wk_woken" "b \<noteq> wk_asleep"
  shows "static_inv (s\<lparr>sp_workers := (sp_workers s)[i := b]\<rparr>)"
  using assms worker_sums [OF assms(2,3), of b] by (auto simp: static_inv_def still_to_put_def of_bool_def split: if_splits)

lemma take_inv:
  assumes "static_inv s" "i < length (sp_workers s)" "sp_workers s ! i = wk_taking \<or> sp_workers s ! i = wk_woken"
  shows "static_inv (runWorker_take i s)"
proof (cases "lq_buffer (sp_taskQueue s)")
  case Nil
  then show ?thesis
    using assms worker_sums [OF assms(2) refl, of wk_asleep]
    by (auto simp: runWorker_take_def lq_take_def static_inv_def still_to_put_def)
next
  case (Cons x xs)
  let ?b = "case x of None \<Rightarrow> wk_exited | Some t \<Rightarrow> wk_running t"
  have "wk_takes ?b = 0" "?b \<noteq> wk_woken" "?b \<noteq> wk_asleep" by (simp_all split: option.split)
  then show ?thesis
    using assms Cons worker_sums [OF assms(2) refl, of ?b]
    by (cases x) (auto simp: runWorker_take_def lq_take_def static_inv_def still_to_put_def)
qed

lemma runWorker_inv:
  assumes "static_inv s" "i < length (sp_workers s)"
  shows "static_inv (runWorker i s)"
proof (cases "sp_workers s ! i")
  case wk_head
  then show ?thesis
    using assms worker_move_inv [OF assms wk_head, of wk_exited] worker_sums [OF assms(2) wk_head, of wk_check]
    by (cases "sp_releaseAllWorkers s") (auto simp: runWorker_def static_inv_def still_to_put_def)
next
  case wk_check
  then show ?thesis using assms worker_move_inv [OF assms wk_check] by (simp add: runWorker_def)
next
  case (wk_running t)
  then show ?thesis
    using assms worker_sums [OF assms(2) wk_running, of wk_head]
    by (auto simp: runWorker_def static_inv_def still_to_put_def)
qed (use assms take_inv [OF assms] in \<open>simp_all add: runWorker_def\<close>)

lemma put_inv:
  assumes "static_inv s" "notifies i s"
  shows "static_inv (sp_putTask i x s)" "sp_join s = jn_putting (Suc n) \<Longrightarrow> static_inv (sp_put i None (s\<lparr>sp_join := jn_putting n\<rparr>))"
proof -
  have w: "i < length (sp_workers s)" "sp_workers s ! i = wk_asleep" if "wk_asleep \<in> set (sp_workers s)"
    using that assms(2) by (auto simp: notifies_def)
  have none: "\<not> (i < length (sp_workers s) \<and> sp_workers s ! i = wk_asleep)" if "wk_asleep \<notin> set (sp_workers s)"
    using that nth_mem [of i "sp_workers s"] by metis
  show "static_inv (sp_putTask i x s)"
  proof (cases "wk_asleep \<in> set (sp_workers s)")
    case True
    then show ?thesis using assms(1) w worker_sums [OF w [OF True], of wk_woken]
      by (cases x) (auto simp: sp_putTask_def sp_put_def lq_put_def static_inv_def still_to_put_def)
  next
    case False
    then show ?thesis using assms(1) none
      by (cases x) (auto simp: sp_putTask_def sp_put_def lq_put_def static_inv_def still_to_put_def)
  qed
  show "static_inv (sp_put i None (s\<lparr>sp_join := jn_putting n\<rparr>))" if "sp_join s = jn_putting (Suc n)"
  proof (cases "wk_asleep \<in> set (sp_workers s)")
    case True
    then show ?thesis using assms(1) that w worker_sums [OF w [OF True], of wk_woken]
      by (auto simp: sp_put_def lq_put_def static_inv_def still_to_put_def)
  next
    case False
    then show ?thesis using assms(1) that none by (auto simp: sp_put_def lq_put_def static_inv_def still_to_put_def)
  qed
qed

lemma takers_bound: "sum_list (map wk_takes ws) \<le> length ws"
proof (induction ws)
  case (Cons w ws)
  moreover have "wk_takes w \<le> 1" by (cases w) simp_all
  ultimately show ?case by simp
qed simp

lemma idle_no_task: "\<forall>w \<in> set ws. wk_task w = {#} \<Longrightarrow> sum_list (map wk_task ws) = {#}"
  by (induction ws) simp_all

lemma join_begin_inv:
  assumes "static_inv s" "sp_join s = jn_none"
  shows "static_inv (joinAll_begin s)"
  using assms takers_bound [of "sp_workers s"] by (auto simp: static_inv_def joinAll_begin_def still_to_put_def)

lemma join_next_inv:
  assumes "static_inv s" "notifies i s" "joinAll_next i s = Done s'"
  shows "static_inv s'"
proof (cases "sp_join s")
  case (jn_putting n)
  show ?thesis
  proof (cases n)
    case 0
    then have "s' = s\<lparr>sp_workers := [], sp_isJoined := True, sp_join := jn_joined\<rparr>" and ex: "list_all (\<lambda>w. w = wk_exited) (sp_workers s)"
      using assms(3) jn_putting by (auto simp: joinAll_next_def split: if_splits)
    moreover have "sum_list (map wk_task (sp_workers s)) = {#}" using ex by (intro idle_no_task) (auto simp: list_all_iff)
    ultimately show ?thesis using assms(1) jn_putting by (auto simp: static_inv_def)
  next
    case (Suc m)
    then show ?thesis using put_inv(2) [OF assms(1,2)] assms(3) jn_putting by (simp add: joinAll_next_def)
  qed
qed (use assms(3) in \<open>simp_all add: joinAll_next_def\<close>)

lemma static_inv_step: "static_inv s \<Longrightarrow> static_step s s' \<Longrightarrow> static_inv s'"
  by (erule static_stepE) (auto intro: put_inv(1) runWorker_inv worker_move_inv join_begin_inv join_next_inv)

lemma static_inv_init: "static_inv (initAll n)"
  by (simp add: static_inv_def initAll_def new_legacy_queue_def still_to_put_def idle_no_task [of "replicate n wk_head", simplified])

interpretation static: invariant_machine "\<lambda>s. s = initAll n" static_step static_inv for n
  by unfold_locales (auto intro: static_inv_init static_inv_step)

section \<open>joinAll ends\<close>

fun wk_weight :: "'t static_worker \<Rightarrow> nat" where
  "wk_weight wk_exited = 0" | "wk_weight wk_head = 1" | "wk_weight (wk_running t) = 2" | "wk_weight wk_woken = 3"
| "wk_weight wk_taking = 3" | "wk_weight wk_asleep = 4" | "wk_weight wk_check = 4"

definition join_work :: "'t static_pool \<Rightarrow> nat" where
  "join_work s = still_to_put s + sum_list (map wk_weight (sp_workers s))"

lemma weight_update:
  "i < length ws \<Longrightarrow> wk_weight b < wk_weight (ws ! i) \<Longrightarrow> sum_list (map wk_weight (ws[i := b])) < sum_list (map wk_weight ws)"
  using sum_list_map_update [of i ws wk_weight b] by linarith

lemma put_progress:
  assumes "sp_join s = jn_putting (Suc n)"
  shows "\<exists>s'. static_step s s' \<and> sp_join s' = jn_putting n \<and> join_work s' < join_work s"
proof -
  obtain i where i: "notifies i s"
    by (cases "wk_asleep \<in> set (sp_workers s)") (auto simp: notifies_def in_set_conv_nth)
  let ?s = "sp_put i None (s\<lparr>sp_join := jn_putting n\<rparr>)"
  have "static_step s ?s" by (rule static_join_next [OF i]) (use assms in \<open>simp add: joinAll_next_def\<close>)
  moreover have "sum_list (map wk_weight (sp_workers ?s)) \<le> sum_list (map wk_weight (sp_workers s))"
    using weight_update [of i "sp_workers s" wk_woken] by (auto simp: sp_put_def)
  ultimately show ?thesis using assms by (intro exI [of _ ?s]) (simp add: join_work_def still_to_put_def sp_put_def)
qed

lemma asleep_only:
  assumes "static_inv s" "sp_join s = jn_putting 0" "\<forall>w \<in> set (sp_workers s). w = wk_asleep \<or> w = wk_exited"
  shows "\<forall>w \<in> set (sp_workers s). w = wk_exited"
proof (rule ccontr)
  assume "\<not> ?thesis"
  then have asleep: "wk_asleep \<in> set (sp_workers s)" using assms(3) by auto
  have "length (lq_buffer (sp_taskQueue s)) \<le> woken s" using assms(1) asleep by (simp only: static_inv_def simp_thms)
  moreover have "woken s = 0" using assms(3) by auto
  ultimately have "lq_buffer (sp_taskQueue s) = []" by (metis le_zero_eq length_0_conv)
  then have "takers s = 0" using assms(1,2) by (auto simp: static_inv_def still_to_put_def)
  then show False using asleep by force
qed

lemma worker_progress:
  assumes "static_inv s" "sp_join s = jn_putting 0" "i < length (sp_workers s)" "sp_workers s ! i \<notin> {wk_asleep, wk_exited}"
  shows "sp_join (runWorker i s) = jn_putting 0 \<and> join_work (runWorker i s) < join_work s"
proof -
  have rel: "sp_releaseAllWorkers s" "takers s \<le> length (lq_buffer (sp_taskQueue s))"
    using assms(1,2) by (auto simp: static_inv_def still_to_put_def)
  have "lq_buffer (sp_taskQueue s) \<noteq> []" if "wk_takes (sp_workers s ! i) = 1"
    using that rel(2) nth_mem [OF assms(3)] by (metis (no_types, lifting) image_eqI le_zero_eq list.set_map list.size(3) sum_list_eq_0_iff zero_neq_one)
  then show ?thesis
    using assms(2-4) rel(1) weight_update [OF assms(3)]
    by (cases "sp_workers s ! i")
      (auto simp: runWorker_def runWorker_take_def lq_take_def join_work_def still_to_put_def split: list.split option.split)
qed

lemma join_progress:
  assumes "static_inv s" "sp_join s = jn_putting n"
  shows "\<exists>s'. static_step s s' \<and> (sp_isJoined s' \<or> (\<exists>m. sp_join s' = jn_putting m) \<and> join_work s' < join_work s)"
proof (cases n)
  case 0
  show ?thesis
  proof (cases "\<forall>w \<in> set (sp_workers s). w = wk_asleep \<or> w = wk_exited")
    case True
    then have "list_all (\<lambda>w. w = wk_exited) (sp_workers s)" using asleep_only assms 0 by (auto simp: list_all_iff)
    moreover have "notifies 0 s" using calculation by (auto simp: notifies_def list_all_iff)
    ultimately show ?thesis
      using static_join_next [of 0 s] assms(2) 0 by (fastforce simp: joinAll_next_def)
  next
    case False
    then obtain i where "i < length (sp_workers s)" "sp_workers s ! i \<notin> {wk_asleep, wk_exited}" by (auto simp: in_set_conv_nth)
    then show ?thesis using worker_progress [OF assms(1)] assms(2) 0 static_worker by blast
  qed
next
  case (Suc m)
  then show ?thesis using put_progress assms(2) by blast
qed

lemma join_finishes:
  "static_inv s \<Longrightarrow> sp_join s = jn_putting n \<Longrightarrow> \<exists>t. static_step\<^sup>*\<^sup>* s t \<and> sp_isJoined t"
proof (induction "join_work s" arbitrary: s n rule: less_induct)
  case less
  obtain s' where s': "static_step s s'" "sp_isJoined s' \<or> (\<exists>m. sp_join s' = jn_putting m) \<and> join_work s' < join_work s"
    using join_progress [OF less.prems] by blast
  then show ?case
    using less.hyps [of s'] static_inv_step [OF less.prems(1)] converse_rtranclp_into_rtranclp [of static_step s s'] by blast
qed

text \<open>C29: \<open>joinAll\<close> of the deprecated pool can always come to its end: the empty tasks it puts are enough to release every
  worker, whatever was queued, whoever sleeps and whatever is submitted meanwhile; and at every moment each
  submitted task is executed, held by one worker, or still in the queue.\<close>

theorem static_pool_join_ends:
  assumes "reach (\<lambda>s. s = initAll n) static_step s"
  shows "(sp_join s \<noteq> jn_none \<longrightarrow> (\<exists>t. static_step\<^sup>*\<^sup>* s t \<and> sp_isJoined t \<and> sp_workers t = [])) \<and>
    mset (sp_submitted s) = mset (sp_executed s) + sum_list (map wk_task (sp_workers s)) + queued_tasks (lq_buffer (sp_taskQueue s))"
proof -
  have inv: "static_inv s" by (rule static.reach_inv [OF assms])
  have "\<exists>t. static_step\<^sup>*\<^sup>* s t \<and> sp_isJoined t" if "sp_join s \<noteq> jn_none"
  proof (cases "sp_join s")
    case jn_joined
    then show ?thesis using inv by (auto simp: static_inv_def)
  qed (use that inv join_finishes in blast)+
  moreover have "sp_workers t = []" if "static_step\<^sup>*\<^sup>* s t" "sp_isJoined t" for t
    using static.steps_inv [OF that(1) inv] that(2) by (auto simp: static_inv_def)
  ultimately show ?thesis using inv unfolding static_inv_def by blast
qed

theorem static_pool_join_ends_witness:
  "\<exists>t. static_step\<^sup>*\<^sup>* (joinAll_begin (initAll 2 :: nat static_pool)) t \<and> sp_isJoined t \<and> sp_workers t = []"
proof -
  have "reach (\<lambda>s. s = initAll 2) static_step (joinAll_begin (initAll 2 :: nat static_pool))"
    by (rule reach_step [where s = "initAll 2"]) (auto intro: reach_start static_join_begins simp: initAll_def)
  then show ?thesis using static_pool_join_ends [of 2 "joinAll_begin (initAll 2 :: nat static_pool)"] by (simp add: joinAll_begin_def)
qed

section \<open>Tasks that joinAll leaves behind\<close>

datatype 't static_event = se_add 't | se_worker nat | se_join_begins | se_join_next

fun static_exec :: "'t static_event \<Rightarrow> 't static_pool \<Rightarrow> 't static_pool option" where
  "static_exec (se_add t) s = (if notifies 0 s then Some (sp_addTask 0 t s) else None)"
| "static_exec (se_worker i) s = (if i < length (sp_workers s) then Some (runWorker i s) else None)"
| "static_exec se_join_begins s = (if sp_join s = jn_none then Some (joinAll_begin s) else None)"
| "static_exec se_join_next s = (if notifies 0 s then (case joinAll_next 0 s of Done s' \<Rightarrow> Some s' | _ \<Rightarrow> None) else None)"

fun static_run :: "'t static_event list \<Rightarrow> 't static_pool \<Rightarrow> 't static_pool option" where
  "static_run [] s = Some s"
| "static_run (e # es) s = (case static_exec e s of None \<Rightarrow> None | Some s' \<Rightarrow> static_run es s')"

lemma static_exec_step: "static_exec e s = Some s' \<Longrightarrow> static_step s s'"
  by (cases e) (auto simp: sp_addTask_def intro: static_step.intros split: if_splits locked_section.splits)

lemma static_run_steps: "static_run es s = Some t \<Longrightarrow> static_step\<^sup>*\<^sup>* s t"
proof (induction es arbitrary: s)
  case (Cons e es)
  then show ?case
    using static_exec_step [of e s] converse_rtranclp_into_rtranclp [of static_step s] by (auto split: option.splits)
qed simp

text \<open>A task that was queued before \<open>joinAll\<close> is not run: the workers leave their loop at its test.\<close>

lemma static_join_drops_tasks:
  "\<exists>t. static_step\<^sup>*\<^sup>* (initAll 1) t \<and> sp_isJoined t \<and> sp_submitted t = [1, 2 :: nat] \<and> sp_executed t = [1]"
proof -
  have "\<exists>t. static_run [se_add 1, se_add 2, se_worker 0, se_worker 0, se_worker 0, se_join_begins, se_join_next, se_worker 0,
      se_worker 0, se_join_next] (initAll 1) = Some t \<and> sp_isJoined t \<and> sp_submitted t = [1, 2 :: nat] \<and> sp_executed t = [1]"
    by (simp add: initAll_def new_legacy_queue_def notifies_def sp_addTask_def sp_putTask_def sp_put_def lq_put_def runWorker_def
        runWorker_take_def lq_take_def joinAll_begin_def joinAll_next_def)
  then show ?thesis using static_run_steps by blast
qed

end
