(* ===== verification/Lockfree_Queue.thy ===== *)
theory Lockfree_Queue
  imports Rtl_Prelude
begin

text \<open>
  \<^verbatim>\<open>stp/LockFreeQueue.hpp\<close>: a Michael-Scott queue whose \<open>pop\<close> deletes the node it unlinks.  Every atomic access of \<open>push\<close>
  and \<open>pop\<close> is one move of a thread, so that any number of threads interleave at the granularity of the code; the
  atomics are sequentially consistent.  A node is an entry of a heap, and an access to a node that is no longer
  there is \<open>Undef\<close>.  A machine of threads is shown to refine an atomic queue as long as no address is handed
  out twice and nothing undefined has happened; that it can happen is shown as well.
\<close>

section \<open>The queue\<close>

record 'v lf_node =
  n_value :: "'v option"
  n_next :: "nat option"

text \<open>The last two fields are history: the nodes that were ever linked, in their order, and every address that
  was handed out, with the value its node was made with.\<close>

record 'v lf_queue =
  lf_heap :: "nat \<Rightarrow> 'v lf_node option"
  m_head :: nat
  m_tail :: nat
  lf_linked :: "nat list"
  lf_news :: "(nat \<times> 'v option) list"

definition lf_new :: "nat \<Rightarrow> 'v option \<Rightarrow> 'v lf_queue \<Rightarrow> 'v lf_queue" where
  "lf_new a v q = q\<lparr>lf_heap := (lf_heap q)(a \<mapsto> \<lparr>n_value = v, n_next = None\<rparr>), lf_news := (a, v) # lf_news q\<rparr>"

definition new_lf_queue :: "nat \<Rightarrow> 'v lf_queue" where
  "new_lf_queue a = lf_new a None \<lparr>lf_heap = Map.empty, m_head = a, m_tail = a, lf_linked = [a], lf_news = []\<rparr>"

text \<open>Where a thread is, with the locals it still needs: before the accesses of \<open>push\<close> in their order, then of \<open>pop\<close>.
  \<open>push_swing\<close> is after the link, \<open>pop_read\<close> after \<open>m_head\<close> was moved.\<close>

datatype 'v lf_result = res_push | res_pop "'v option"

datatype 'v lf_pc = lf_idle | lf_ret "'v lf_result"
  | push_start nat | push_tail nat nat | push_next nat nat "nat option" | push_link nat nat | push_help nat nat nat
  | push_swing nat nat
  | pop_start | pop_head nat | pop_tail nat nat | pop_help nat nat | pop_cas nat "nat option" | pop_read nat nat
  | pop_delete nat "'v option"

text \<open>\<open>compare_exchange_weak\<close> on \<open>m_tail\<close>; without \<open>ok\<close> it fails for no reason.\<close>

definition cas_tail :: "bool \<Rightarrow> nat \<Rightarrow> nat \<Rightarrow> 'v lf_queue \<Rightarrow> 'v lf_queue" where
  "cas_tail ok t n q = (if m_tail q = t \<and> ok then q\<lparr>m_tail := n\<rparr> else q)"

fun push_move :: "bool \<Rightarrow> 'v lf_pc \<Rightarrow> 'v lf_queue \<Rightarrow> ('v lf_pc \<times> 'v lf_queue) locked_section" where
  "push_move ok (push_start new_node) q = Done (push_tail new_node (m_tail q), q)"
| "push_move ok (push_tail new_node cur_tail) q =
     (case lf_heap q cur_tail of None \<Rightarrow> Undef | Some nd \<Rightarrow> Done (push_next new_node cur_tail (n_next nd), q))"
| "push_move ok (push_next new_node cur_tail cur_tail_next) q =
     Done (if cur_tail \<noteq> m_tail q then push_start new_node
           else case cur_tail_next of None \<Rightarrow> push_link new_node cur_tail | Some n \<Rightarrow> push_help new_node cur_tail n, q)"
| "push_move ok (push_link new_node cur_tail) q =
     (case lf_heap q cur_tail of None \<Rightarrow> Undef
      | Some nd \<Rightarrow>
          if n_next nd = None \<and> ok
          then Done (push_swing new_node cur_tail, q\<lparr>lf_heap := (lf_heap q)(cur_tail \<mapsto> nd\<lparr>n_next := Some new_node\<rparr>),
                 lf_linked := lf_linked q @ [new_node]\<rparr>)
          else Done (push_start new_node, q))"
| "push_move ok (push_help new_node cur_tail n) q = Done (push_start new_node, cas_tail ok cur_tail n q)"
| "push_move ok (push_swing new_node cur_tail) q = Done (lf_ret res_push, cas_tail ok cur_tail new_node q)"
| "push_move ok _ q = Wait"

text \<open>With a null \<open>head_next\<close> the exchange on \<open>m_head\<close> would be followed by an access through the null pointer.\<close>

fun pop_move :: "bool \<Rightarrow> 'v lf_pc \<Rightarrow> 'v lf_queue \<Rightarrow> ('v lf_pc \<times> 'v lf_queue) locked_section" where
  "pop_move ok pop_start q = Done (pop_head (m_head q), q)"
| "pop_move ok (pop_head cur_head) q = Done (pop_tail cur_head (m_tail q), q)"
| "pop_move ok (pop_tail cur_head cur_tail) q =
     (case lf_heap q cur_head of None \<Rightarrow> Undef
      | Some nd \<Rightarrow> Done (if cur_head = cur_tail
                        then (case n_next nd of None \<Rightarrow> lf_ret (res_pop None) | Some n \<Rightarrow> pop_help cur_tail n)
                        else pop_cas cur_head (n_next nd), q))"
| "pop_move ok (pop_help cur_tail head_next) q = Done (pop_start, cas_tail ok cur_tail head_next q)"
| "pop_move ok (pop_cas cur_head head_next) q =
     (if m_head q = cur_head \<and> ok
      then (case head_next of None \<Rightarrow> Undef | Some n \<Rightarrow> Done (pop_read cur_head n, q\<lparr>m_head := n\<rparr>))
      else Done (pop_start, q))"
| "pop_move ok (pop_read cur_head head_next) q =
     (case lf_heap q head_next of None \<Rightarrow> Undef | Some nd \<Rightarrow> Done (pop_delete cur_head (n_value nd), q))"
| "pop_move ok (pop_delete cur_head data) q =
     (case lf_heap q cur_head of None \<Rightarrow> Undef
      | Some nd \<Rightarrow> Done (lf_ret (res_pop data), q\<lparr>lf_heap := (lf_heap q)(cur_head := None)\<rparr>))"
| "pop_move ok _ q = Wait"

definition lf_move :: "bool \<Rightarrow> 'v lf_pc \<Rightarrow> 'v lf_queue \<Rightarrow> ('v lf_pc \<times> 'v lf_queue) locked_section" where
  "lf_move ok pc q = (case push_move ok pc q of Wait \<Rightarrow> pop_move ok pc q | r \<Rightarrow> r)"

text \<open>The destructor: the nodes from \<open>m_head\<close> on are deleted.  It would not end on a cyclic chain.\<close>

partial_function (option) lf_delete_from ::
  "nat option \<Rightarrow> (nat \<Rightarrow> 'v lf_node option) \<Rightarrow> (nat \<Rightarrow> 'v lf_node option) locked_section option" where
  "lf_delete_from head H =
     (case head of None \<Rightarrow> Some (Done H)
      | Some a \<Rightarrow> (case H a of None \<Rightarrow> Some Undef | Some nd \<Rightarrow> lf_delete_from (n_next nd) (H(a := None))))"

definition lf_destroy :: "'v lf_queue \<Rightarrow> (nat \<Rightarrow> 'v lf_node option) locked_section option" where
  "lf_destroy q = lf_delete_from (Some (m_head q)) (lf_heap q)"

section \<open>Threads\<close>

datatype 'v lf_op = op_push 'v | op_pop

datatype 'v lf_event = ev_call nat "'v lf_op" | ev_ret nat "'v lf_result"

record 'v lf_sys =
  lfs_q :: "'v lf_queue"
  lfs_pc :: "nat \<Rightarrow> 'v lf_pc"

abbreviation lf_goto :: "nat \<Rightarrow> 'v lf_pc \<Rightarrow> 'v lf_queue \<Rightarrow> 'v lf_sys \<Rightarrow> 'v lf_sys" where
  "lf_goto t pc q s \<equiv> \<lparr>lfs_q = q, lfs_pc = (lfs_pc s)(t := pc)\<rparr>"

definition lf_init :: "nat \<Rightarrow> 'v lf_sys" where
  "lf_init a = \<lparr>lfs_q = new_lf_queue a, lfs_pc = \<lambda>_. lf_idle\<rparr>"

text \<open>\<open>new Node(value)\<close> returns any address at which there is no node.\<close>

inductive lf_step :: "'v lf_sys \<Rightarrow> 'v lf_event list \<Rightarrow> 'v lf_sys \<Rightarrow> bool" where
  lf_call_push: "lfs_pc s t = lf_idle \<Longrightarrow> lf_heap (lfs_q s) a = None \<Longrightarrow>
    lf_step s [ev_call t (op_push v)] (lf_goto t (push_start a) (lf_new a (Some v) (lfs_q s)) s)"
| lf_call_pop: "lfs_pc s t = lf_idle \<Longrightarrow> lf_step s [ev_call t op_pop] (lf_goto t pop_start (lfs_q s) s)"
| lf_internal: "lf_move ok (lfs_pc s t) (lfs_q s) = Done (pc, q) \<Longrightarrow> lf_step s [] (lf_goto t pc q s)"
| lf_return: "lfs_pc s t = lf_ret r \<Longrightarrow> lf_step s [ev_ret t r] (lf_goto t lf_idle (lfs_q s) s)"

inductive_cases lf_stepE: "lf_step s es s'"

section \<open>The atomic queue\<close>

datatype 'v aq_pc = aq_idle | aq_called "'v lf_op" | aq_done "'v lf_result"

record 'v atomic_queue =
  aq_items :: "'v list"
  aq_pc :: "nat \<Rightarrow> 'v aq_pc"

fun aq_apply :: "'v lf_op \<Rightarrow> 'v list \<Rightarrow> 'v lf_result \<times> 'v list" where
  "aq_apply (op_push v) xs = (res_push, xs @ [v])"
| "aq_apply op_pop [] = (res_pop None, [])"
| "aq_apply op_pop (x # xs) = (res_pop (Some x), xs)"

definition aq_init :: "'v atomic_queue" where
  "aq_init = \<lparr>aq_items = [], aq_pc = \<lambda>_. aq_idle\<rparr>"

inductive aq_step :: "'v atomic_queue \<Rightarrow> 'v lf_event list \<Rightarrow> 'v atomic_queue \<Rightarrow> bool" where
  aq_call: "aq_pc s t = aq_idle \<Longrightarrow> aq_step s [ev_call t oper] (s\<lparr>aq_pc := (aq_pc s)(t := aq_called oper)\<rparr>)"
| aq_do: "aq_pc s t = aq_called oper \<Longrightarrow> aq_apply oper (aq_items s) = (r, xs) \<Longrightarrow>
    aq_step s [] \<lparr>aq_items = xs, aq_pc = (aq_pc s)(t := aq_done r)\<rparr>"
| aq_return: "aq_pc s t = aq_done r \<Longrightarrow> aq_step s [ev_ret t r] (s\<lparr>aq_pc := (aq_pc s)(t := aq_idle)\<rparr>)"
| aq_stutter: "aq_step s [] s"

section \<open>Positions in the chain of nodes\<close>

definition lf_pos :: "nat list \<Rightarrow> nat \<Rightarrow> nat" where
  "lf_pos xs a = length (takeWhile (\<lambda>x. x \<noteq> a) xs)"

definition lf_succ :: "nat list \<Rightarrow> nat \<Rightarrow> nat option" where
  "lf_succ xs a = (if Suc (lf_pos xs a) < length xs then Some (xs ! Suc (lf_pos xs a)) else None)"

lemma lf_pos_less [simp]: "a \<in> set xs \<Longrightarrow> lf_pos xs a < length xs"
  unfolding lf_pos_def by (induction xs) auto

lemma nth_lf_pos [simp]: "a \<in> set xs \<Longrightarrow> xs ! lf_pos xs a = a"
  unfolding lf_pos_def by (induction xs) auto

lemma lf_pos_nth: "distinct xs \<Longrightarrow> i < length xs \<Longrightarrow> lf_pos xs (xs ! i) = i"
  by (metis lf_pos_less nth_eq_iff_index_eq nth_lf_pos nth_mem)

lemma lf_pos_inj: "a \<in> set xs \<Longrightarrow> b \<in> set xs \<Longrightarrow> lf_pos xs a = lf_pos xs b \<Longrightarrow> a = b"
  by (metis nth_lf_pos)

lemma lf_pos_append [simp]: "a \<in> set xs \<Longrightarrow> lf_pos (xs @ ys) a = lf_pos xs a"
  unfolding lf_pos_def by (simp add: takeWhile_append1)

lemma lf_pos_last [simp]: "a \<notin> set xs \<Longrightarrow> lf_pos (xs @ [a]) a = length xs"
proof -
  assume "a \<notin> set xs"
  then have "takeWhile (\<lambda>x. x \<noteq> a) xs = xs" by auto
  then show ?thesis using \<open>a \<notin> set xs\<close> unfolding lf_pos_def by (subst takeWhile_append2) auto
qed

lemma lf_succD:
  assumes "lf_succ xs a = Some b" "distinct xs"
  shows "b \<in> set xs" "lf_pos xs b = Suc (lf_pos xs a)" "b \<noteq> hd xs"
proof -
  have l: "Suc (lf_pos xs a) < length xs" "b = xs ! Suc (lf_pos xs a)"
    using assms(1) by (auto simp: lf_succ_def split: if_splits)
  then show "b \<in> set xs" "lf_pos xs b = Suc (lf_pos xs a)" using lf_pos_nth [OF assms(2)] by auto
  then show "b \<noteq> hd xs" using l(1) by (cases xs) (auto simp: lf_pos_def)
qed

lemma lf_succ_append [simp]:
  "a \<in> set xs \<Longrightarrow> lf_succ (xs @ [b]) a = (case lf_succ xs a of None \<Rightarrow> Some b | Some c \<Rightarrow> Some c)"
  by (auto simp: lf_succ_def nth_append less_Suc_eq dest: lf_pos_less)

lemma lf_succ_last [simp]: "b \<notin> set xs \<Longrightarrow> lf_succ (xs @ [b]) b = None"
  by (simp add: lf_succ_def)

lemma lf_succ_None: "a \<in> set xs \<Longrightarrow> lf_succ xs a = None \<longleftrightarrow> Suc (lf_pos xs a) = length xs"
  by (auto simp: lf_succ_def dest: lf_pos_less)

lemma lf_succ_before:
  assumes "a \<in> set xs" "b \<in> set xs" "lf_pos xs a \<le> lf_pos xs b" "a \<noteq> b"
  shows "lf_pos xs a < lf_pos xs b" "lf_succ xs a \<noteq> None"
proof -
  have "lf_pos xs a \<noteq> lf_pos xs b" using lf_pos_inj [OF assms(1,2)] assms(4) by blast
  then show less: "lf_pos xs a < lf_pos xs b" using assms(3) by linarith
  have "lf_pos xs b < length xs" using assms(2) by (rule lf_pos_less)
  then show "lf_succ xs a \<noteq> None" using less assms(1) by (simp add: lf_succ_None)
qed

section \<open>The invariant\<close>

text \<open>The node only this thread may free or link.\<close>

fun lf_owned :: "'v lf_pc \<Rightarrow> nat option" where
  "lf_owned (push_start a) = Some a" | "lf_owned (push_tail a t) = Some a" | "lf_owned (push_next a t nx) = Some a"
| "lf_owned (push_link a t) = Some a" | "lf_owned (push_help a t n) = Some a" | "lf_owned (pop_read h n) = Some h"
| "lf_owned (pop_delete h v) = Some h" | "lf_owned _ = None"

text \<open>What the locals of a thread say, given the chain and the positions of \<open>m_head\<close> and \<open>m_tail\<close> in it.\<close>

fun lf_pc_ok :: "nat list \<Rightarrow> nat \<Rightarrow> nat \<Rightarrow> 'v lf_pc \<Rightarrow> bool" where
  "lf_pc_ok L hp tp (push_start a) \<longleftrightarrow> a \<notin> set L"
| "lf_pc_ok L hp tp (push_tail a t) \<longleftrightarrow> a \<notin> set L \<and> t \<in> set L \<and> lf_pos L t \<le> tp"
| "lf_pc_ok L hp tp (push_next a t nx) \<longleftrightarrow> a \<notin> set L \<and> t \<in> set L \<and> lf_pos L t \<le> tp \<and> (nx \<noteq> None \<longrightarrow> lf_succ L t = nx)"
| "lf_pc_ok L hp tp (push_link a t) \<longleftrightarrow> a \<notin> set L \<and> t \<in> set L \<and> lf_pos L t \<le> tp"
| "lf_pc_ok L hp tp (push_help a t n) \<longleftrightarrow> a \<notin> set L \<and> t \<in> set L \<and> lf_succ L t = Some n"
| "lf_pc_ok L hp tp (push_swing a t) \<longleftrightarrow> t \<in> set L \<and> lf_succ L t = Some a"
| "lf_pc_ok L hp tp (pop_head h) \<longleftrightarrow> h \<in> set L \<and> lf_pos L h \<le> hp"
| "lf_pc_ok L hp tp (pop_tail h t) \<longleftrightarrow> h \<in> set L \<and> t \<in> set L \<and> lf_pos L h \<le> hp \<and> lf_pos L h \<le> lf_pos L t \<and> lf_pos L t \<le> tp"
| "lf_pc_ok L hp tp (pop_help t n) \<longleftrightarrow> t \<in> set L \<and> lf_succ L t = Some n"
| "lf_pc_ok L hp tp (pop_cas h nx) \<longleftrightarrow> h \<in> set L \<and> lf_pos L h < tp \<and> nx \<noteq> None \<and> lf_succ L h = nx"
| "lf_pc_ok L hp tp (pop_read h n) \<longleftrightarrow> h \<in> set L \<and> lf_pos L h < hp \<and> lf_succ L h = Some n"
| "lf_pc_ok L hp tp (pop_delete h v) \<longleftrightarrow> h \<in> set L \<and> lf_pos L h < hp"
| "lf_pc_ok L hp tp _ \<longleftrightarrow> True"

abbreviation head_pos :: "'v lf_queue \<Rightarrow> nat" where
  "head_pos q \<equiv> lf_pos (lf_linked q) (m_head q)"

abbreviation tail_pos :: "'v lf_queue \<Rightarrow> nat" where
  "tail_pos q \<equiv> lf_pos (lf_linked q) (m_tail q)"

definition lf_chain :: "'v lf_queue \<Rightarrow> bool" where
  "lf_chain q \<longleftrightarrow> distinct (lf_linked q) \<and> m_head q \<in> set (lf_linked q) \<and> m_tail q \<in> set (lf_linked q) \<and>
     head_pos q \<le> tail_pos q \<and> length (lf_linked q) \<le> tail_pos q + 2"

text \<open>The nodes carry their value and the link of the chain; the addresses were handed out; only the first node, made
  by the constructor, has no value.\<close>

definition lf_nodes :: "'v lf_queue \<Rightarrow> bool" where
  "lf_nodes q \<longleftrightarrow>
     (\<forall>a nd. lf_heap q a = Some nd \<longrightarrow> map_of (lf_news q) a = Some (n_value nd) \<and>
        n_next nd = (if a \<in> set (lf_linked q) then lf_succ (lf_linked q) a else None)) \<and>
     set (lf_linked q) \<subseteq> fst ` set (lf_news q) \<and>
     (\<forall>a. a \<noteq> hd (lf_linked q) \<longrightarrow> map_of (lf_news q) a \<noteq> Some None)"

text \<open>Every node has one owner: the queue from \<open>m_head\<close> on, or one thread.\<close>

definition lf_owns :: "(nat \<Rightarrow> 'v lf_node option) \<Rightarrow> nat list \<Rightarrow> nat \<Rightarrow> (nat \<Rightarrow> nat option) \<Rightarrow> bool" where
  "lf_owns H L hp own \<longleftrightarrow>
     (\<forall>a. H a \<noteq> None \<longleftrightarrow> a \<in> set L \<and> hp \<le> lf_pos L a \<or> (\<exists>t. own t = Some a)) \<and>
     (\<forall>t u a. own t = Some a \<longrightarrow> own u = Some a \<longrightarrow> t = u)"

definition lf_owners :: "'v lf_sys \<Rightarrow> bool" where
  "lf_owners s \<longleftrightarrow> lf_owns (lf_heap (lfs_q s)) (lf_linked (lfs_q s)) (head_pos (lfs_q s)) (lf_owned \<circ> lfs_pc s)"

definition lf_locals :: "'v lf_sys \<Rightarrow> bool" where
  "lf_locals s \<longleftrightarrow> (\<forall>t. lf_pc_ok (lf_linked (lfs_q s)) (head_pos (lfs_q s)) (tail_pos (lfs_q s)) (lfs_pc s t))"

definition lf_inv :: "'v lf_sys \<Rightarrow> bool" where
  "lf_inv s \<longleftrightarrow> lf_chain (lfs_q s) \<and> lf_nodes (lfs_q s) \<and> lf_owners s \<and> lf_locals s"

lemma lf_invD:
  assumes "lf_inv s"
  shows "lf_chain (lfs_q s)" "lf_nodes (lfs_q s)" "lf_owners s" "lf_locals s"
    "lf_pc_ok (lf_linked (lfs_q s)) (head_pos (lfs_q s)) (tail_pos (lfs_q s)) (lfs_pc s t)"
  using assms by (simp_all add: lf_inv_def lf_locals_def)

lemma lf_chainD:
  assumes "lf_chain q"
  shows "distinct (lf_linked q)" "m_head q \<in> set (lf_linked q)" "m_tail q \<in> set (lf_linked q)" "head_pos q \<le> tail_pos q"
    "length (lf_linked q) \<le> tail_pos q + 2"
  using assms by (simp_all add: lf_chain_def)

lemma lf_inv_init: "lf_inv (lf_init a)"
  by (auto simp: lf_inv_def lf_init_def new_lf_queue_def lf_new_def lf_chain_def lf_nodes_def lf_owners_def lf_owns_def lf_locals_def
      lf_pos_def lf_succ_def split: if_splits)

section \<open>Every move keeps the invariant\<close>

text \<open>The locals of a thread stay right when \<open>m_head\<close> and \<open>m_tail\<close> move on and when another node is linked.\<close>

lemma lf_pc_ok_mono: "lf_pc_ok L hp tp pc \<Longrightarrow> hp \<le> hp' \<Longrightarrow> tp \<le> tp' \<Longrightarrow> lf_pc_ok L hp' tp' pc"
  by (cases pc) auto

lemma lf_pc_ok_append:
  "lf_pc_ok L hp tp pc \<Longrightarrow> lf_owned pc \<noteq> Some a \<Longrightarrow> lf_pc_ok (L @ [a]) hp tp pc"
  by (cases pc) auto

text \<open>A move that only changes where one thread is.\<close>

lemma owned_upd: "lf_owned \<circ> f(t := pc) = (lf_owned \<circ> f)(t := lf_owned pc)"
  by auto

lemma lf_quiet:
  assumes "lf_inv s" "lf_owned pc = lf_owned (lfs_pc s t)"
    and "lf_pc_ok (lf_linked (lfs_q s)) (head_pos (lfs_q s)) (tail_pos (lfs_q s)) pc"
  shows "lf_inv (lf_goto t pc (lfs_q s) s)"
proof -
  have "(lf_owned \<circ> lfs_pc s)(t := lf_owned pc) = lf_owned \<circ> lfs_pc s" using assms(2) by auto
  then show ?thesis using assms(1,3) by (simp add: lf_inv_def lf_owners_def lf_locals_def owned_upd)
qed

lemma lf_cas_tail:
  assumes "lf_inv s" "lf_owned pc = lf_owned (lfs_pc s t)" "lf_succ (lf_linked (lfs_q s)) u = Some n"
    and "\<And>tp. lf_pc_ok (lf_linked (lfs_q s)) (head_pos (lfs_q s)) tp pc"
  shows "lf_inv (lf_goto t pc (cas_tail ok u n (lfs_q s)) s)"
proof (cases "m_tail (lfs_q s) = u \<and> ok")
  case True
  let ?q = "(lfs_q s)\<lparr>m_tail := n\<rparr>"
  note ch = lf_chainD [OF lf_invD(1) [OF assms(1)]]
  note n = lf_succD [OF assms(3) ch(1)]
  have "tail_pos ?q = Suc (tail_pos (lfs_q s))" using n(2) True by simp
  then have "lf_inv (s\<lparr>lfs_q := ?q\<rparr>)"
    using assms(1) n(1) ch unfolding lf_inv_def
    by (auto simp: lf_chain_def lf_nodes_def lf_owners_def lf_locals_def intro: lf_pc_ok_mono)
  from lf_quiet [OF this, of pc t] show ?thesis using True assms(2,4) by (simp add: cas_tail_def)
next
  case False
  have "cas_tail ok u n (lfs_q s) = lfs_q s" using False by (auto simp: cas_tail_def)
  then show ?thesis using lf_quiet [OF assms(1,2,4)] by simp
qed

lemma lf_owned_behind:
  "lf_pc_ok L hp tp pc \<Longrightarrow> lf_owned pc = Some a \<Longrightarrow> a \<in> set L \<Longrightarrow> lf_pos L a < hp"
  by (cases pc) auto

lemma lf_owned_alive: "lf_owners s \<Longrightarrow> lf_owned (lfs_pc s t) = Some a \<Longrightarrow> \<exists>nd. lf_heap (lfs_q s) a = Some nd"
  unfolding lf_owners_def lf_owns_def by (metis comp_apply not_None_eq)

lemma lf_owned_once:
  "lf_owners s \<Longrightarrow> lf_owned (lfs_pc s t) = Some a \<Longrightarrow> u \<noteq> t \<Longrightarrow> lf_owned (lfs_pc s u) \<noteq> Some a"
  unfolding lf_owners_def lf_owns_def by (metis comp_apply)

text \<open>Ownership with one thread set apart.\<close>

definition lf_others :: "(nat \<Rightarrow> nat option) \<Rightarrow> nat \<Rightarrow> nat \<Rightarrow> bool" where
  "lf_others own t a \<longleftrightarrow> (\<exists>u. u \<noteq> t \<and> own u = Some a)"

definition lf_others_once :: "(nat \<Rightarrow> nat option) \<Rightarrow> nat \<Rightarrow> bool" where
  "lf_others_once own t \<longleftrightarrow> (\<forall>u v a. u \<noteq> t \<longrightarrow> v \<noteq> t \<longrightarrow> own u = Some a \<longrightarrow> own v = Some a \<longrightarrow> u = v)"

lemma lf_owns_upd:
  "lf_owns H L hp (own(t := y)) \<longleftrightarrow>
     (\<forall>b. H b \<noteq> None \<longleftrightarrow> b \<in> set L \<and> hp \<le> lf_pos L b \<or> y = Some b \<or> lf_others own t b) \<and>
     (\<forall>b. y = Some b \<longrightarrow> \<not> lf_others own t b) \<and> lf_others_once own t"
  (is "?l \<longleftrightarrow> ?a \<and> ?b \<and> ?c")
proof -
  have "(\<exists>u. (own(t := y)) u = Some b) \<longleftrightarrow> y = Some b \<or> lf_others own t b" for b
    unfolding lf_others_def by (metis fun_upd_apply)
  moreover have "(\<forall>u v a. (own(t := y)) u = Some a \<longrightarrow> (own(t := y)) v = Some a \<longrightarrow> u = v) \<longleftrightarrow> ?b \<and> ?c" (is "?i \<longleftrightarrow> _")
  proof
    assume i: ?i
    then have ?c unfolding lf_others_once_def by (metis fun_upd_other)
    moreover have ?b unfolding lf_others_def using i by (metis fun_upd_other fun_upd_same)
    ultimately show "?b \<and> ?c" by simp
  next
    assume bc: "?b \<and> ?c"
    show ?i
    proof (intro allI impI)
      fix u v a
      assume "(own(t := y)) u = Some a" "(own(t := y)) v = Some a"
      then show "u = v"
        using bc unfolding lf_others_def lf_others_once_def by (cases "u = t"; cases "v = t") auto
    qed
  qed
  ultimately show ?thesis unfolding lf_owns_def by simp
qed

lemma lf_owns_split:
  "lf_owns H L hp own \<longleftrightarrow>
     (\<forall>b. H b \<noteq> None \<longleftrightarrow> b \<in> set L \<and> hp \<le> lf_pos L b \<or> own t = Some b \<or> lf_others own t b) \<and>
     (\<forall>b. own t = Some b \<longrightarrow> \<not> lf_others own t b) \<and> lf_others_once own t"
  using lf_owns_upd [of H L hp own t "own t"] by simp

lemma owns_link:
  assumes "lf_owns H L hp own" "own t = Some a" "a \<notin> set L" "H u \<noteq> None" "hp < length L"
  shows "lf_owns (H(u \<mapsto> nd)) (L @ [a]) hp (own(t := None))"
proof -
  have "(b \<in> set (L @ [a]) \<and> hp \<le> lf_pos (L @ [a]) b) \<longleftrightarrow> b \<in> set L \<and> hp \<le> lf_pos L b \<or> b = a" for b
    using assms(3,5) by auto
  then show ?thesis
    using assms(1,2,4) unfolding lf_owns_upd lf_owns_split [of H L hp own t] by (metis fun_upd_apply option.distinct(1) option.inject)
qed

lemma owns_unlink:
  assumes "lf_owns H L hp own" "own t = None" "h \<in> set L" "lf_pos L h = hp" "\<And>u. own u \<noteq> Some h"
  shows "lf_owns H L (Suc hp) (own(t := Some h))"
proof -
  have "(b \<in> set L \<and> hp \<le> lf_pos L b) \<longleftrightarrow> b \<in> set L \<and> Suc hp \<le> lf_pos L b \<or> b = h" for b
    using assms(3,4) lf_pos_inj [of b L h] by (auto simp: Suc_le_eq order_le_less)
  moreover have "\<not> lf_others own t h" using assms(5) by (simp add: lf_others_def)
  ultimately show ?thesis
    using assms(1,2) unfolding lf_owns_upd lf_owns_split [of H L hp own t] by (metis option.distinct(1) option.inject)
qed

lemma owns_delete:
  assumes "lf_owns H L hp own" "own t = Some h" "lf_pos L h < hp"
  shows "lf_owns (H(h := None)) L hp (own(t := None))"
  using assms unfolding lf_owns_upd lf_owns_split [of H L hp own t]
  by (metis fun_upd_apply linorder_not_less option.distinct(1) option.inject)

lemma owns_new:
  assumes "lf_owns H L hp own" "own t = None" "H a = None"
  shows "lf_owns (H(a \<mapsto> nd)) L hp (own(t := Some a))"
  using assms unfolding lf_owns_upd lf_owns_split [of H L hp own t] by (metis fun_upd_apply option.distinct(1) option.inject)

text \<open>The link of a new node.  A node without successor is the last, and \<open>m_tail\<close> points to it.\<close>

lemma lf_last_node:
  assumes "lf_chain q" "lf_nodes q" "u \<in> set (lf_linked q)" "lf_heap q u = Some nd" "n_next nd = None"
  shows "Suc (lf_pos (lf_linked q) u) = length (lf_linked q)"
    "b \<in> set (lf_linked q) \<Longrightarrow> lf_succ (lf_linked q) b = None \<Longrightarrow> b = u"
proof -
  have "lf_succ (lf_linked q) u = None" using assms(2-5) unfolding lf_nodes_def by metis
  then show l: "Suc (lf_pos (lf_linked q) u) = length (lf_linked q)" using assms(3) by (simp add: lf_succ_None)
  show "b = u" if "b \<in> set (lf_linked q)" "lf_succ (lf_linked q) b = None"
    using that l lf_succ_None lf_pos_inj [OF that(1) assms(3)] by auto
qed

lemma lf_link_nodes:
  assumes "lf_chain q" "lf_nodes q" "u \<in> set (lf_linked q)" "lf_heap q u = Some nd" "n_next nd = None"
    and "a \<notin> set (lf_linked q)" "lf_heap q a = Some na"
  shows "lf_nodes (q\<lparr>lf_heap := (lf_heap q)(u \<mapsto> nd\<lparr>n_next := Some a\<rparr>), lf_linked := lf_linked q @ [a]\<rparr>)"
proof -
  let ?L = "lf_linked q"
  have node: "map_of (lf_news q) b = Some (n_value x)" "n_next x = (if b \<in> set ?L then lf_succ ?L b else None)"
    if "lf_heap q b = Some x" for b x
    using assms(2) that by (simp_all add: lf_nodes_def)
  have a: "a \<in> fst ` set (lf_news q)" using node(1) [OF assms(7)] by (metis domI dom_map_of_conv_image_fst)
  have u: "lf_succ ?L u = None" using node(2) [OF assms(4)] assms(3,5) by simp
  have next': "lf_succ (?L @ [a]) b = lf_succ ?L b" if "b \<in> set ?L" "b \<noteq> u" for b
    using that lf_last_node(2) [OF assms(1-5) that(1)] by (auto split: option.split)
  have "map_of (lf_news q) b = Some (n_value x) \<and> n_next x = (if b \<in> set (?L @ [a]) then lf_succ (?L @ [a]) b else None)"
    if "((lf_heap q)(u \<mapsto> nd\<lparr>n_next := Some a\<rparr>)) b = Some x" for b x
  proof (cases "b = u")
    case True
    then show ?thesis using that node(1) [OF assms(4)] assms(3) u by auto
  next
    case False
    then have "lf_heap q b = Some x" using that by simp
    from node [OF this] show ?thesis using next' [OF _ False] assms(6) by auto
  qed
  moreover have "hd (?L @ [a]) = hd ?L" using assms(3) by (cases ?L) auto
  ultimately show ?thesis using assms(2) a by (simp add: lf_nodes_def)
qed

lemma lf_link:
  assumes "lf_inv s" "lfs_pc s t = push_link a u" "lf_heap (lfs_q s) u = Some nd" "n_next nd = None"
  shows "lf_inv (lf_goto t (push_swing a u) ((lfs_q s)\<lparr>lf_heap := (lf_heap (lfs_q s))(u \<mapsto> nd\<lparr>n_next := Some a\<rparr>),
    lf_linked := lf_linked (lfs_q s) @ [a]\<rparr>) s)" (is "lf_inv (lf_goto t _ ?q s)")
proof -
  let ?L = "lf_linked (lfs_q s)"
  note ch = lf_chainD [OF lf_invD(1) [OF assms(1)]] and own = lf_invD(3) [OF assms(1)]
  have pc: "a \<notin> set ?L" "u \<in> set ?L" "lf_pos ?L u \<le> tail_pos (lfs_q s)" using lf_invD(5) [OF assms(1), of t] assms(2) by simp_all
  note last = lf_last_node(1) [OF lf_invD(1,2) [OF assms(1)] pc(2) assms(3,4)]
  have succ: "lf_succ ?L u = None" using last pc(2) by (simp add: lf_succ_None)
  have others: "lf_owned (lfs_pc s v) \<noteq> Some a" if "v \<noteq> t" for v
    using lf_owned_once [OF own _ that] assms(2) by simp
  have pos: "head_pos ?q = head_pos (lfs_q s)" "tail_pos ?q = tail_pos (lfs_q s)" using ch(2,3) by simp_all
  have "lf_chain ?q" using ch pc last pos by (simp add: lf_chain_def)
  moreover have "lf_nodes ?q"
    using lf_link_nodes [OF lf_invD(1,2) [OF assms(1)] pc(2) assms(3,4) pc(1)] lf_owned_alive [OF own, of t a] assms(2) by auto
  moreover have "lf_locals (lf_goto t (push_swing a u) ?q s)"
    using lf_pc_ok_append [OF lf_invD(5) [OF assms(1)]] others pc(2) succ pos by (simp add: lf_locals_def)
  moreover have "lf_owners (lf_goto t (push_swing a u) ?q s)"
    using owns_link [OF own [unfolded lf_owners_def], of t a u] assms(2,3) pc(1) ch(2)
    by (simp add: lf_owners_def owned_upd pos)
  ultimately show ?thesis by (simp add: lf_inv_def)
qed

lemma lf_unlink:
  assumes "lf_inv s" "lfs_pc s t = pop_cas (m_head (lfs_q s)) (Some n)"
  shows "lf_inv (lf_goto t (pop_read (m_head (lfs_q s)) n) ((lfs_q s)\<lparr>m_head := n\<rparr>) s)" (is "lf_inv (lf_goto t ?pc ?q s)")
proof -
  let ?L = "lf_linked (lfs_q s)" and ?h = "m_head (lfs_q s)"
  note ch = lf_chainD [OF lf_invD(1) [OF assms(1)]]
  have pc: "lf_pos ?L ?h < tail_pos (lfs_q s)" "lf_succ ?L ?h = Some n" using lf_invD(5) [OF assms(1), of t] assms(2) by simp_all
  note n = lf_succD [OF pc(2) ch(1)]
  have pos: "head_pos ?q = Suc (head_pos (lfs_q s))" using n(2) by simp
  have "lf_owned (lfs_pc s u) \<noteq> Some ?h" for u
    using lf_owned_behind [OF lf_invD(5) [OF assms(1)], of u ?h] ch(2) by auto
  then have "lf_owners (lf_goto t ?pc ?q s)"
    using owns_unlink [OF lf_invD(3) [OF assms(1), unfolded lf_owners_def], of t ?h] assms(2) ch(2)
    by (simp add: lf_owners_def owned_upd n(2))
  moreover have "lf_chain ?q" using ch n pc(1) by (simp add: lf_chain_def)
  moreover have "lf_nodes ?q" using lf_invD(2) [OF assms(1)] by (simp add: lf_nodes_def)
  moreover have "lf_locals (lf_goto t ?pc ?q s)"
    using lf_pc_ok_mono [OF lf_invD(5) [OF assms(1)] _ order_refl] ch(2) pc(2) by (simp add: lf_locals_def n(2))
  ultimately show ?thesis by (simp add: lf_inv_def)
qed

lemma lf_delete:
  assumes "lf_inv s" "lfs_pc s t = pop_delete h v"
  shows "lf_inv (lf_goto t (lf_ret r) ((lfs_q s)\<lparr>lf_heap := (lf_heap (lfs_q s))(h := None)\<rparr>) s)" (is "lf_inv (lf_goto t _ ?q s)")
proof -
  have "lf_pos (lf_linked (lfs_q s)) h < head_pos (lfs_q s)" using lf_invD(5) [OF assms(1), of t] assms(2) by simp
  then have "lf_owners (lf_goto t (lf_ret r) ?q s)"
    using owns_delete [OF lf_invD(3) [OF assms(1), unfolded lf_owners_def], of t h] assms(2) by (simp add: lf_owners_def owned_upd)
  then show ?thesis using lf_invD(1,2,4) [OF assms(1)] by (simp add: lf_inv_def lf_chain_def lf_nodes_def lf_locals_def)
qed

lemma lf_alloc:
  assumes "lf_inv s" "lfs_pc s t = lf_idle" "lf_heap (lfs_q s) a = None" "a \<notin> fst ` set (lf_news (lfs_q s))"
  shows "lf_inv (lf_goto t (push_start a) (lf_new a (Some v) (lfs_q s)) s)"
proof -
  have "a \<notin> set (lf_linked (lfs_q s))" using lf_invD(2) [OF assms(1)] assms(4) by (auto simp: lf_nodes_def)
  moreover have "lf_owners (lf_goto t (push_start a) (lf_new a (Some v) (lfs_q s)) s)"
    using owns_new [OF lf_invD(3) [OF assms(1), unfolded lf_owners_def], of t a] assms(2,3) by (simp add: lf_owners_def owned_upd lf_new_def)
  moreover have "lf_nodes (lf_new a (Some v) (lfs_q s))"
    using lf_invD(2) [OF assms(1)] calculation(1) unfolding lf_nodes_def lf_new_def by auto
  ultimately show ?thesis using lf_invD(1,4) [OF assms(1)] by (simp add: lf_inv_def lf_chain_def lf_locals_def lf_new_def)
qed

lemma push_move_inv:
  assumes "lf_inv s" "push_move ok (lfs_pc s t) (lfs_q s) = Done (pc, q)"
  shows "lf_inv (lf_goto t pc q s)"
proof -
  note ch = lf_chainD [OF lf_invD(1) [OF assms(1)]]
  have node: "n_next nd = lf_succ (lf_linked (lfs_q s)) u" if "lf_heap (lfs_q s) u = Some nd" "u \<in> set (lf_linked (lfs_q s))" for u nd
    using lf_invD(2) [OF assms(1)] that by (simp add: lf_nodes_def)
  note ok = lf_invD(5) [OF assms(1), of t]
  show ?thesis
  proof (cases "lfs_pc s t")
    case (push_start a)
    then show ?thesis using assms ok ch(3) by (auto intro: lf_quiet)
  next
    case (push_tail a u)
    then show ?thesis using assms ok node by (auto intro!: lf_quiet split: option.splits)
  next
    case (push_next a u nx)
    then show ?thesis using assms ok by (auto intro!: lf_quiet split: option.splits)
  next
    case (push_link a u)
    then show ?thesis using assms ok by (auto intro: lf_quiet intro!: lf_link split: option.splits if_splits)
  next
    case (push_help a u n)
    then show ?thesis using assms ok by (auto intro!: lf_cas_tail)
  next
    case (push_swing a u)
    then show ?thesis using assms ok by (auto intro!: lf_cas_tail)
  qed (use assms(2) in simp_all)
qed

lemma pop_move_inv:
  assumes "lf_inv s" "pop_move ok (lfs_pc s t) (lfs_q s) = Done (pc, q)"
  shows "lf_inv (lf_goto t pc q s)"
proof -
  let ?L = "lf_linked (lfs_q s)"
  note ch = lf_chainD [OF lf_invD(1) [OF assms(1)]]
  have node: "n_next nd = lf_succ ?L u" if "lf_heap (lfs_q s) u = Some nd" "u \<in> set ?L" for u nd
    using lf_invD(2) [OF assms(1)] that by (simp add: lf_nodes_def)
  note ok = lf_invD(5) [OF assms(1), of t]
  show ?thesis
  proof (cases "lfs_pc s t")
    case pop_start
    then show ?thesis using assms ok ch(2) by (auto intro!: lf_quiet)
  next
    case (pop_head h)
    then show ?thesis using assms ok ch(3,4) by (auto intro!: lf_quiet)
  next
    case (pop_tail h u)
    have "lf_pos ?L h < lf_pos ?L u \<and> lf_succ ?L h \<noteq> None" if "h \<noteq> u"
      using ok pop_tail lf_succ_before [of h ?L u] that by simp
    then show ?thesis using assms ok pop_tail node [of h] by (auto intro!: lf_quiet split: option.splits if_splits)
  next
    case (pop_help u n)
    then show ?thesis using assms ok by (auto intro!: lf_cas_tail)
  next
    case (pop_cas h nx)
    then show ?thesis using assms ok lf_unlink [OF assms(1)] by (auto intro: lf_quiet split: option.splits if_splits)
  next
    case (pop_read h n)
    then show ?thesis using assms ok by (auto intro!: lf_quiet split: option.splits)
  next
    case (pop_delete h v)
    then show ?thesis using assms ok lf_delete [OF assms(1)] by (auto split: option.splits)
  qed (use assms(2) in simp_all)
qed

lemma lf_move_cases:
  "lf_move ok pc q = Done r \<Longrightarrow> push_move ok pc q = Done r \<or> pop_move ok pc q = Done r"
  by (auto simp: lf_move_def split: locked_section.splits)

lemma lf_move_inv:
  "lf_inv s \<Longrightarrow> lf_move ok (lfs_pc s t) (lfs_q s) = Done (pc, q) \<Longrightarrow> lf_inv (lf_goto t pc q s)"
  using lf_move_cases push_move_inv pop_move_inv by blast

lemma lf_inv_step:
  assumes "lf_inv s" "lf_step s es s'" "distinct (map fst (lf_news (lfs_q s')))"
  shows "lf_inv s'"
  using assms(2)
proof cases
  case (lf_call_push t a v)
  then show ?thesis using lf_alloc [OF assms(1)] assms(3) by (auto simp: lf_new_def)
qed (use assms(1) in \<open>auto intro: lf_move_inv lf_quiet\<close>)

section \<open>The refinement\<close>

definition lf_val :: "'v lf_queue \<Rightarrow> nat \<Rightarrow> 'v option" where
  "lf_val q a = (case map_of (lf_news q) a of None \<Rightarrow> None | Some v \<Rightarrow> v)"

definition lf_items :: "'v lf_queue \<Rightarrow> 'v list" where
  "lf_items q = map (\<lambda>a. the (lf_val q a)) (drop (Suc (head_pos q)) (lf_linked q))"

text \<open>A thread has done its operation once its node is linked, once it has moved \<open>m_head\<close>, or once it has seen that the
  first node has no successor.\<close>

fun lf_abs_pc :: "'v lf_queue \<Rightarrow> 'v lf_pc \<Rightarrow> 'v aq_pc" where
  "lf_abs_pc q lf_idle = aq_idle" | "lf_abs_pc q (lf_ret r) = aq_done r"
| "lf_abs_pc q (push_start a) = aq_called (op_push (the (lf_val q a)))"
| "lf_abs_pc q (push_tail a t) = aq_called (op_push (the (lf_val q a)))"
| "lf_abs_pc q (push_next a t nx) = aq_called (op_push (the (lf_val q a)))"
| "lf_abs_pc q (push_link a t) = aq_called (op_push (the (lf_val q a)))"
| "lf_abs_pc q (push_help a t n) = aq_called (op_push (the (lf_val q a)))"
| "lf_abs_pc q (push_swing a t) = aq_done res_push"
| "lf_abs_pc q (pop_read h n) = aq_done (res_pop (lf_val q n))"
| "lf_abs_pc q (pop_delete h v) = aq_done (res_pop v)"
| "lf_abs_pc q _ = aq_called op_pop"

definition lf_abs :: "'v lf_sys \<Rightarrow> 'v atomic_queue" where
  "lf_abs s = \<lparr>aq_items = lf_items (lfs_q s), aq_pc = lf_abs_pc (lfs_q s) \<circ> lfs_pc s\<rparr>"

lemma lf_abs_pc_news: "lf_news q' = lf_news q \<Longrightarrow> lf_abs_pc q' = lf_abs_pc q"
proof
  show "lf_abs_pc q' pc = lf_abs_pc q pc" if "lf_news q' = lf_news q" for pc
    using that by (cases pc) (simp_all add: lf_val_def)
qed

lemma lf_move_news: "lf_move ok pc q = Done (pc', q') \<Longrightarrow> lf_news q' = lf_news q"
  by (cases pc) (auto simp: lf_move_def cas_tail_def split: option.splits if_splits)

lemma lf_abs_goto:
  "lf_news q = lf_news (lfs_q s) \<Longrightarrow>
   lf_abs (lf_goto t pc q s) = \<lparr>aq_items = lf_items q, aq_pc = (aq_pc (lf_abs s))(t := lf_abs_pc (lfs_q s) pc)\<rparr>"
  using lf_abs_pc_news [of q "lfs_q s"] by (auto simp: lf_abs_def)

lemma lf_stutters:
  assumes "lf_news q = lf_news (lfs_q s)" "lf_abs_pc (lfs_q s) pc = lf_abs_pc (lfs_q s) (lfs_pc s t)" "lf_items q = lf_items (lfs_q s)"
  shows "aq_step (lf_abs s) [] (lf_abs (lf_goto t pc q s))"
proof -
  have "lf_abs (lf_goto t pc q s) = lf_abs s"
    unfolding lf_abs_goto [OF assms(1)] using assms(2,3) by (auto simp: lf_abs_def)
  then show ?thesis by (simp add: aq_stutter)
qed

lemma lf_does:
  assumes "lf_news q = lf_news (lfs_q s)" "lf_abs_pc (lfs_q s) (lfs_pc s t) = aq_called oper"
    and "aq_apply oper (lf_items (lfs_q s)) = (r, lf_items q)" "lf_abs_pc (lfs_q s) pc = aq_done r"
  shows "aq_step (lf_abs s) [] (lf_abs (lf_goto t pc q s))"
  unfolding lf_abs_goto [OF assms(1)] assms(4)
  by (rule aq_do [where oper = oper]) (use assms(2,3) in \<open>simp_all add: lf_abs_def\<close>)

lemma lf_items_cas_tail [simp]: "lf_items (cas_tail ok t n q) = lf_items q"
  by (simp add: cas_tail_def lf_items_def lf_val_def)

lemma lf_value_some:
  assumes "lf_inv s" "n \<in> set (lf_linked (lfs_q s))" "n \<noteq> hd (lf_linked (lfs_q s))"
  shows "lf_val (lfs_q s) n = Some (the (lf_val (lfs_q s) n))"
proof -
  have "n \<in> fst ` set (lf_news (lfs_q s))" "map_of (lf_news (lfs_q s)) n \<noteq> Some None"
    using lf_invD(2) [OF assms(1)] assms(2,3) by (auto simp: lf_nodes_def)
  then show ?thesis by (auto simp: lf_val_def dom_map_of_conv_image_fst [symmetric])
qed

lemma lf_link_items:
  assumes "lf_chain q"
  shows "lf_items (q\<lparr>lf_heap := H, lf_linked := lf_linked q @ [a]\<rparr>) = lf_items q @ [the (lf_val q a)]"
  using lf_chainD(2) [OF assms] lf_pos_less [OF lf_chainD(2) [OF assms]] by (simp add: lf_items_def lf_val_def Suc_le_eq)

lemma lf_unlink_items:
  assumes "lf_chain q" "lf_succ (lf_linked q) (m_head q) = Some n"
  shows "lf_items q = the (lf_val q n) # lf_items (q\<lparr>m_head := n\<rparr>)"
proof -
  note n = lf_succD [OF assms(2) lf_chainD(1) [OF assms(1)]]
  have "drop (Suc (head_pos q)) (lf_linked q) = n # drop (Suc (Suc (head_pos q))) (lf_linked q)"
    using assms(2) by (auto simp: lf_succ_def Cons_nth_drop_Suc split: if_splits)
  then show ?thesis using n(2) by (simp add: lf_items_def lf_val_def)
qed

lemma lf_empty_items:
  assumes "lf_chain q" "h \<in> set (lf_linked q)" "lf_pos (lf_linked q) h \<le> head_pos q" "lf_succ (lf_linked q) h = None"
  shows "lf_items q = []"
  using assms(2-4) by (simp add: lf_items_def lf_succ_None)

lemma push_move_refines:
  assumes "lf_inv s" "push_move ok (lfs_pc s t) (lfs_q s) = Done (pc, q)"
  shows "aq_step (lf_abs s) [] (lf_abs (lf_goto t pc q s))"
proof (cases "lfs_pc s t")
  case (push_link a u)
  then obtain nd where nd: "lf_heap (lfs_q s) u = Some nd" using assms(2) by (auto split: option.splits)
  show ?thesis
  proof (cases "n_next nd = None \<and> ok")
    case True
    then show ?thesis
      using assms(2) push_link nd by (auto intro!: lf_does simp: lf_link_items [OF lf_invD(1) [OF assms(1)]])
  next
    case False
    then show ?thesis using assms(2) push_link nd by (auto intro!: lf_stutters)
  qed
qed (use assms(2) in \<open>auto intro!: lf_stutters simp: cas_tail_def lf_items_def lf_val_def split: option.splits\<close>)

lemma pop_move_refines:
  assumes "lf_inv s" "pop_move ok (lfs_pc s t) (lfs_q s) = Done (pc, q)"
  shows "aq_step (lf_abs s) [] (lf_abs (lf_goto t pc q s))"
proof (cases "lfs_pc s t")
  case (pop_tail h u)
  then obtain nd where nd: "lf_heap (lfs_q s) h = Some nd" using assms(2) by (auto split: option.splits)
  have h: "h \<in> set (lf_linked (lfs_q s))" "lf_pos (lf_linked (lfs_q s)) h \<le> head_pos (lfs_q s)"
    using lf_invD(5) [OF assms(1), of t] pop_tail by simp_all
  have nx: "n_next nd = lf_succ (lf_linked (lfs_q s)) h" using lf_invD(2) [OF assms(1)] nd h(1) by (simp add: lf_nodes_def)
  show ?thesis
  proof (cases "h = u \<and> n_next nd = None")
    case True
    then have "lf_items (lfs_q s) = []" using lf_empty_items [OF lf_invD(1) [OF assms(1)] h] nx by auto
    then show ?thesis using True assms(2) pop_tail nd by (auto intro!: lf_does [where oper = op_pop])
  next
    case False
    then show ?thesis using assms(2) pop_tail nd by (auto intro!: lf_stutters)
  qed
next
  case (pop_cas h nx)
  show ?thesis
  proof (cases "m_head (lfs_q s) = h \<and> ok")
    case True
    obtain n where n: "nx = Some n" "lf_succ (lf_linked (lfs_q s)) h = Some n"
      using lf_invD(5) [OF assms(1), of t] pop_cas by auto
    note v = lf_value_some [OF assms(1) lf_succD(1,3) [OF n(2) lf_chainD(1) [OF lf_invD(1) [OF assms(1)]]]]
    have "pc = pop_read h n" "q = (lfs_q s)\<lparr>m_head := n\<rparr>" using assms(2) pop_cas True n(1) by auto
    then show ?thesis
      using lf_unlink_items [OF lf_invD(1) [OF assms(1)], of n] True n pop_cas v
      by (auto intro!: lf_does [where oper = op_pop])
  next
    case False
    then show ?thesis using assms(2) pop_cas by (auto intro!: lf_stutters)
  qed
next
  case (pop_read h n)
  then obtain nd where nd: "lf_heap (lfs_q s) n = Some nd" using assms(2) by (auto split: option.splits)
  then have "lf_val (lfs_q s) n = n_value nd" using lf_invD(2) [OF assms(1)] by (simp add: lf_nodes_def lf_val_def)
  then show ?thesis using assms(2) pop_read nd by (auto intro!: lf_stutters)
qed (use assms(2) in \<open>auto intro!: lf_stutters simp: cas_tail_def lf_items_def lf_val_def split: option.splits\<close>)

lemma lf_abs_pc_new:
  assumes "lf_pc_ok L hp tp pc" "distinct L" "a \<notin> set L" "lf_owned pc \<noteq> Some a"
  shows "lf_abs_pc (lf_new a v q) pc = lf_abs_pc q pc"
proof (cases pc)
  case (pop_read h n)
  then have "n \<noteq> a" using assms(1-3) lf_succD(1) [of L h n] by auto
  then show ?thesis using pop_read by (simp add: lf_val_def lf_new_def)
qed (use assms(4) in \<open>simp_all add: lf_val_def lf_new_def\<close>)

lemma lf_alloc_refines:
  assumes "lf_inv s" "lfs_pc s t = lf_idle" "lf_heap (lfs_q s) a = None" "a \<notin> fst ` set (lf_news (lfs_q s))"
  shows "aq_step (lf_abs s) [ev_call t (op_push v)] (lf_abs (lf_goto t (push_start a) (lf_new a (Some v) (lfs_q s)) s))"
proof -
  let ?q = "lf_new a (Some v) (lfs_q s)"
  have a: "a \<notin> set (lf_linked (lfs_q s))" using lf_invD(2) [OF assms(1)] assms(4) by (auto simp: lf_nodes_def)
  have "lf_owned (lfs_pc s u) \<noteq> Some a" for u using lf_owned_alive [OF lf_invD(3) [OF assms(1)], of u a] assms(3) by auto
  then have pcs: "lf_abs_pc ?q (lfs_pc s u) = lf_abs_pc (lfs_q s) (lfs_pc s u)" for u
    using lf_abs_pc_new [OF lf_invD(5) [OF assms(1)] lf_chainD(1) [OF lf_invD(1) [OF assms(1)]] a] by blast
  have "lf_items ?q = lf_items (lfs_q s)"
    using a in_set_dropD [of _ _ "lf_linked (lfs_q s)"] by (auto simp: lf_items_def lf_new_def lf_val_def)
  moreover have "lf_abs_pc ?q (push_start a) = aq_called (op_push v)" by (simp add: lf_val_def lf_new_def)
  ultimately have "lf_abs (lf_goto t (push_start a) ?q s) = (lf_abs s)\<lparr>aq_pc := (aq_pc (lf_abs s))(t := aq_called (op_push v))\<rparr>"
    using pcs by (auto simp: lf_abs_def simp del: lf_abs_pc.simps)
  moreover have "aq_pc (lf_abs s) t = aq_idle" using assms(2) by (simp add: lf_abs_def)
  ultimately show ?thesis by (simp add: aq_call)
qed

lemma lf_step_refines:
  assumes "lf_inv s" "lf_step s es s'" "distinct (map fst (lf_news (lfs_q s')))"
  shows "aq_step (lf_abs s) es (lf_abs s')"
  using assms(2)
proof cases
  case (lf_call_push t a v)
  then show ?thesis using lf_alloc_refines [OF assms(1)] assms(3) by (auto simp: lf_new_def)
next
  case (lf_call_pop t)
  then show ?thesis using aq_call [of "lf_abs s" t op_pop] by (simp add: lf_abs_goto) (simp add: lf_abs_def)
next
  case (lf_internal ok t pc q)
  then show ?thesis using lf_move_cases push_move_refines [OF assms(1)] pop_move_refines [OF assms(1)] by blast
next
  case (lf_return t r)
  then show ?thesis using aq_return [of "lf_abs s" t r] by (simp add: lf_abs_goto) (simp add: lf_abs_def)
qed

lemma lf_step_news: "lf_step s es s' \<Longrightarrow> \<exists>ns. lf_news (lfs_q s') = ns @ lf_news (lfs_q s)"
  by (erule lf_stepE) (auto simp: lf_new_def dest: lf_move_news)

lemma lf_abs_init: "lf_abs (lf_init a) = aq_init"
  by (auto simp: lf_abs_def lf_init_def new_lf_queue_def lf_new_def aq_init_def lf_items_def lf_pos_def)

abbreviation no_reuse :: "'v lf_sys \<Rightarrow> bool" where
  "no_reuse s \<equiv> distinct (map fst (lf_news (lfs_q s)))"

interpretation lockfree: refinement_map "\<lambda>s. s = lf_init a" lf_step "\<lambda>s. s = aq_init" aq_step no_reuse lf_inv lf_abs for a
proof unfold_locales
  show "no_reuse s" if "lf_step s es s'" "no_reuse s'" for s es and s' :: "'b lf_sys"
    using lf_step_news [OF that(1)] that(2) by auto
qed (auto simp: lf_inv_init lf_abs_init intro: lf_inv_step lf_step_refines)

section \<open>Runs\<close>

datatype 'v lf_cmd = do_push nat nat 'v | do_pop nat | do_move nat | do_return nat

fun lf_exec :: "'v lf_cmd \<Rightarrow> 'v lf_sys \<Rightarrow> ('v lf_event list \<times> 'v lf_sys) option" where
  "lf_exec (do_push t a v) s =
     (if lfs_pc s t = lf_idle \<and> lf_heap (lfs_q s) a = None
      then Some ([ev_call t (op_push v)], lf_goto t (push_start a) (lf_new a (Some v) (lfs_q s)) s) else None)"
| "lf_exec (do_pop t) s =
     (if lfs_pc s t = lf_idle then Some ([ev_call t op_pop], lf_goto t pop_start (lfs_q s) s) else None)"
| "lf_exec (do_move t) s = (case lf_move True (lfs_pc s t) (lfs_q s) of Done (pc, q) \<Rightarrow> Some ([], lf_goto t pc q s) | _ \<Rightarrow> None)"
| "lf_exec (do_return t) s =
     (case lfs_pc s t of lf_ret r \<Rightarrow> Some ([ev_ret t r], lf_goto t lf_idle (lfs_q s) s) | _ \<Rightarrow> None)"

fun lf_exec_all :: "'v lf_cmd list \<Rightarrow> 'v lf_sys \<Rightarrow> ('v lf_event list \<times> 'v lf_sys) option" where
  "lf_exec_all [] s = Some ([], s)"
| "lf_exec_all (c # cs) s =
     (case lf_exec c s of None \<Rightarrow> None
      | Some (es, s') \<Rightarrow> (case lf_exec_all cs s' of None \<Rightarrow> None | Some (fs, s'') \<Rightarrow> Some (es @ fs, s'')))"

lemma lf_exec_step: "lf_exec c s = Some (es, s') \<Longrightarrow> lf_step s es s'"
  by (cases c) (auto intro: lf_step.intros split: if_splits locked_section.splits lf_pc.splits)

lemma lf_exec_all_shows:
  "lf_exec_all cs s = Some (fs, s') \<Longrightarrow> shows_events start lf_step es s \<Longrightarrow> shows_events start lf_step (es @ fs) s'"
proof (induction cs arbitrary: s es fs)
  case (Cons c cs)
  then obtain gs u hs where "lf_exec c s = Some (gs, u)" "lf_exec_all cs u = Some (hs, s')" "fs = gs @ hs"
    by (auto split: option.splits)
  then show ?case using Cons.IH [of u hs "es @ gs"] shows_step [OF Cons.prems(2) lf_exec_step] by simp
qed simp

lemma lf_exec_from_init: "lf_exec_all cs (lf_init a) = Some (es, s) \<Longrightarrow> shows_events (\<lambda>s. s = lf_init a) lf_step es s"
  using lf_exec_all_shows [of cs "lf_init a" es s "\<lambda>s. s = lf_init a" "[]"] by (simp add: shows_start)

text \<open>One complete \<open>push\<close>, used in examples.\<close>

abbreviation run_push :: "nat \<Rightarrow> nat \<Rightarrow> 'v \<Rightarrow> 'v lf_cmd list" where
  "run_push t a v \<equiv> do_push t a v # replicate 5 (do_move t) @ [do_return t]"

lemmas lf_run_simps = lf_init_def new_lf_queue_def lf_new_def lf_move_def cas_tail_def eval_nat_numeral

lemma example_push:
  "\<exists>s. lf_exec_all (run_push 0 1 (7 :: nat)) (lf_init 0) = Some ([ev_call 0 (op_push 7), ev_ret 0 res_push], s) \<and>
     no_reuse s \<and> (\<forall>t. lfs_pc s t = lf_idle)"
  by (simp add: lf_run_simps)

text \<open>\<open>pop\<close> deletes a node that another \<open>pop\<close> still reads: after one has loaded \<open>m_head\<close>, another removes and deletes that node.\<close>

lemma lockfree_reads_deleted_node:
  "\<exists>es s. shows_events (\<lambda>s. s = lf_init 0) lf_step es s \<and> no_reuse s \<and> lf_move True (lfs_pc s 1) (lfs_q s) = (Undef :: (nat lf_pc \<times> _) locked_section)"
proof -
  have "\<exists>es s. lf_exec_all (run_push 0 1 (7 :: nat) @ [do_pop 1, do_move 1, do_move 1, do_pop 0] @ replicate 6 (do_move 0)) (lf_init 0) =
      Some (es, s) \<and> no_reuse s \<and> lf_move True (lfs_pc s 1) (lfs_q s) = Undef"
    by (simp add: lf_run_simps)
  then show ?thesis using lf_exec_from_init by blast
qed

section \<open>A thread on its own\<close>

fun lf_solo :: "nat \<Rightarrow> 'v lf_pc \<Rightarrow> 'v lf_queue \<Rightarrow> ('v lf_pc \<times> 'v lf_queue) locked_section" where
  "lf_solo 0 pc q = Done (pc, q)"
| "lf_solo (Suc n) pc q = (case lf_move True pc q of Done (pc', q') \<Rightarrow> lf_solo n pc' q' | r \<Rightarrow> r)"

lemma solo_push_last:
  assumes "lf_heap q (m_tail q) = Some nd" "n_next nd = None"
  shows "lf_solo 5 (push_start a) q = Done (lf_ret res_push, q\<lparr>lf_heap := (lf_heap q)(m_tail q \<mapsto> nd\<lparr>n_next := Some a\<rparr>),
    lf_linked := lf_linked q @ [a], m_tail := a\<rparr>)"
  using assms by (simp add: eval_nat_numeral lf_move_def cas_tail_def)

lemma solo_push_behind:
  assumes "lf_heap q (m_tail q) = Some nd" "n_next nd = Some n"
  shows "lf_solo 9 (push_start a) q = lf_solo 5 (push_start a) (q\<lparr>m_tail := n\<rparr>)"
  using assms by (simp add: eval_nat_numeral lf_move_def cas_tail_def)

lemma solo_pop_empty:
  assumes "lf_heap q (m_head q) = Some nd" "n_next nd = None" "m_head q = m_tail q"
  shows "lf_solo 3 pop_start q = Done (lf_ret (res_pop None), q)"
  using assms by (simp add: eval_nat_numeral lf_move_def)

lemma solo_pop_first:
  assumes "lf_heap q (m_head q) = Some nd" "n_next nd = Some n" "m_head q \<noteq> m_tail q" "lf_heap q n = Some nn"
  shows "lf_solo 6 pop_start q = Done (lf_ret (res_pop (n_value nn)), q\<lparr>m_head := n, lf_heap := (lf_heap q)(m_head q := None)\<rparr>)"
  using assms by (simp add: eval_nat_numeral lf_move_def)

lemma solo_pop_behind:
  assumes "lf_heap q (m_head q) = Some nd" "n_next nd = Some n" "m_head q = m_tail q"
  shows "lf_solo 10 pop_start q = lf_solo 6 pop_start (q\<lparr>m_tail := n\<rparr>)"
  using assms by (simp add: eval_nat_numeral lf_move_def cas_tail_def)

lemma lf_alive:
  assumes "lf_inv s" "b \<in> set (lf_linked (lfs_q s))" "head_pos (lfs_q s) \<le> lf_pos (lf_linked (lfs_q s)) b"
  obtains nd where "lf_heap (lfs_q s) b = Some nd" "n_next nd = lf_succ (lf_linked (lfs_q s)) b" "n_value nd = lf_val (lfs_q s) b"
proof -
  obtain nd where nd: "lf_heap (lfs_q s) b = Some nd"
    using lf_invD(3) [OF assms(1)] assms(2,3) unfolding lf_owners_def lf_owns_def by blast
  then have "n_next nd = lf_succ (lf_linked (lfs_q s)) b" "n_value nd = lf_val (lfs_q s) b"
    using lf_invD(2) [OF assms(1)] assms(2) by (simp_all add: lf_nodes_def lf_val_def)
  then show thesis using that nd by blast
qed

lemma solo_push:
  assumes "lf_inv s"
  shows "\<exists>n q. n \<le> 9 \<and> lf_solo n (push_start a) (lfs_q s) = Done (lf_ret res_push, q) \<and>
    lf_items q = lf_items (lfs_q s) @ [the (lf_val (lfs_q s) a)]"
proof -
  let ?q = "lfs_q s" and ?L = "lf_linked (lfs_q s)"
  note ch = lf_chainD [OF lf_invD(1) [OF assms]]
  have items: "lf_items (q\<lparr>lf_heap := H, lf_linked := ?L @ [a], m_tail := u\<rparr>) = lf_items ?q @ [the (lf_val ?q a)]"
    if "q = ?q \<or> (\<exists>n. q = ?q\<lparr>m_tail := n\<rparr>)" for H u and q
    using lf_link_items [OF lf_invD(1) [OF assms], of a H] that by (auto simp: lf_items_def lf_val_def)
  obtain nd where nd: "lf_heap ?q (m_tail ?q) = Some nd" "n_next nd = lf_succ ?L (m_tail ?q)"
    using lf_alive [OF assms ch(3,4)] by blast
  show ?thesis
  proof (cases "lf_succ ?L (m_tail ?q)")
    case None
    then show ?thesis using solo_push_last [OF nd(1), of a] nd(2) items by (intro exI [of _ 5]) auto
  next
    case (Some n)
    note n = lf_succD [OF Some ch(1)]
    have "lf_succ ?L n = None" using n ch(5) lf_pos_less [OF n(1)] unfolding lf_succ_None [OF n(1)] by linarith
    then obtain nn where nn: "lf_heap ?q n = Some nn" "n_next nn = None" using lf_alive [OF assms n(1)] n(2) ch(4) by auto
    then show ?thesis
      using solo_push_behind [OF nd(1), of n a] solo_push_last [of "?q\<lparr>m_tail := n\<rparr>" nn a] nd(2) Some items
      by (intro exI [of _ 9]) auto
  qed
qed

lemma solo_pop:
  assumes "lf_inv s"
  shows "\<exists>n q r. n \<le> 10 \<and> lf_solo n pop_start (lfs_q s) = Done (lf_ret r, q) \<and> aq_apply op_pop (lf_items (lfs_q s)) = (r, lf_items q)"
proof -
  let ?q = "lfs_q s" and ?L = "lf_linked (lfs_q s)"
  note ch = lf_chainD [OF lf_invD(1) [OF assms]]
  obtain nd where nd: "lf_heap ?q (m_head ?q) = Some nd" "n_next nd = lf_succ ?L (m_head ?q)"
    using lf_alive [OF assms ch(2)] by blast
  show ?thesis
  proof (cases "lf_succ ?L (m_head ?q)")
    case None
    have "m_head ?q = m_tail ?q" using lf_succ_before(2) [OF ch(2,3,4)] None by blast
    moreover have "lf_items ?q = []" by (rule lf_empty_items [OF lf_invD(1) [OF assms] ch(2) order_refl None])
    ultimately show ?thesis using solo_pop_empty [OF nd(1)] nd(2) None by (intro exI [of _ 3]) auto
  next
    case (Some n)
    note n = lf_succD [OF Some ch(1)]
    have "lf_val ?q n = Some (the (lf_val ?q n))" by (rule lf_value_some [OF assms n(1,3)])
    moreover obtain nn where nn: "lf_heap ?q n = Some nn" "n_value nn = lf_val ?q n" using lf_alive [OF assms n(1)] n(2) by auto
    moreover have "lf_items (q\<lparr>m_head := n, lf_heap := H\<rparr>) = lf_items (?q\<lparr>m_head := n\<rparr>)" if "q = ?q \<or> q = ?q\<lparr>m_tail := n\<rparr>" for q H
      using that by (auto simp: lf_items_def lf_val_def)
    ultimately have rest: "aq_apply op_pop (lf_items ?q) = (res_pop (n_value nn), lf_items (q\<lparr>m_head := n, lf_heap := H\<rparr>))"
      if "q = ?q \<or> q = ?q\<lparr>m_tail := n\<rparr>" for q H
      using that lf_unlink_items [OF lf_invD(1) [OF assms] Some] by simp
    have "m_head ?q \<noteq> n" using n(2) by auto
    then show ?thesis
      using solo_pop_behind [OF nd(1), of n] solo_pop_first [of "?q\<lparr>m_tail := n\<rparr>" nd n nn] solo_pop_first [OF nd(1), of n nn] nd Some nn(1)
        rest [of ?q] rest [of "?q\<lparr>m_tail := n\<rparr>"]
      by (cases "m_head ?q = m_tail ?q") (auto intro: exI [of _ 6] exI [of _ 10])
  qed
qed



section \<open>The destructor\<close>

fun chain_from :: "(nat \<Rightarrow> 'v lf_node option) \<Rightarrow> nat list \<Rightarrow> nat option \<Rightarrow> bool" where
  "chain_from H [] p \<longleftrightarrow> p = None"
| "chain_from H (x # xs) p \<longleftrightarrow> p = Some x \<and> (case H x of None \<Rightarrow> False | Some nd \<Rightarrow> chain_from H xs (n_next nd))"

lemma chain_from_upd: "x \<notin> set xs \<Longrightarrow> chain_from (H(x := y)) xs p = chain_from H xs p"
  by (induction xs arbitrary: p) (auto split: option.split)

lemma delete_chain:
  "chain_from H xs p \<Longrightarrow> distinct xs \<Longrightarrow> lf_delete_from p H = Some (Done (\<lambda>a. if a \<in> set xs then None else H a))"
proof (induction xs arbitrary: p H)
  case Nil
  then show ?case by (simp add: lf_delete_from.simps)
next
  case (Cons x xs)
  then obtain nd where nd: "p = Some x" "H x = Some nd" "chain_from H xs (n_next nd)" by (auto split: option.splits)
  then have "chain_from (H(x := None)) xs (n_next nd)" using Cons.prems(2) chain_from_upd [of x xs H None] by simp
  from Cons.IH [OF this] show ?case using nd(1,2) Cons.prems(2) by (subst lf_delete_from.simps) (auto simp: fun_upd_def fun_eq_iff)
qed

lemma chain_of_queue:
  assumes "lf_inv s" "head_pos (lfs_q s) \<le> i" "i < length (lf_linked (lfs_q s))"
  shows "chain_from (lf_heap (lfs_q s)) (drop i (lf_linked (lfs_q s))) (Some (lf_linked (lfs_q s) ! i))"
  using assms(2,3)
proof (induction i rule: measure_induct_rule [where f = "\<lambda>i. length (lf_linked (lfs_q s)) - i"])
  case (less i)
  let ?L = "lf_linked (lfs_q s)"
  have i: "lf_pos ?L (?L ! i) = i" using lf_pos_nth [OF lf_chainD(1) [OF lf_invD(1) [OF assms(1)]]] less.prems(2) by blast
  obtain nd where "lf_heap (lfs_q s) (?L ! i) = Some nd" "n_next nd = lf_succ ?L (?L ! i)"
    using lf_alive [OF assms(1), of "?L ! i"] less.prems i by auto
  moreover have "drop i ?L = ?L ! i # drop (Suc i) ?L" using less.prems(2) by (simp add: Cons_nth_drop_Suc)
  ultimately show ?case using less.IH [of "Suc i"] less.prems i by (auto simp: lf_succ_def)
qed

lemma set_drop_pos:
  assumes "distinct xs"
  shows "b \<in> set (drop i xs) \<longleftrightarrow> b \<in> set xs \<and> i \<le> lf_pos xs b"
proof
  assume "b \<in> set (drop i xs)"
  then obtain j where "j < length xs - i" "b = xs ! (i + j)" by (auto simp: in_set_conv_nth)
  then show "b \<in> set xs \<and> i \<le> lf_pos xs b" using lf_pos_nth [OF assms, of "i + j"] by simp
next
  assume b: "b \<in> set xs \<and> i \<le> lf_pos xs b"
  then have "lf_pos xs b < length xs" by simp
  moreover have "i \<le> length xs" using b calculation by linarith
  ultimately have "drop i xs ! (lf_pos xs b - i) = b" "lf_pos xs b - i < length (drop i xs)" using b by (auto intro: diff_less_mono)
  then show "b \<in> set (drop i xs)" by (metis nth_mem)
qed

lemma lf_destroy_all:
  assumes inv: "lf_inv s" and idle: "\<And>t. lfs_pc s t = lf_idle"
  shows "lf_destroy (lfs_q s) = Some (Done Map.empty)"
proof -
  let ?L = "lf_linked (lfs_q s)" and ?i = "head_pos (lfs_q s)"
  note ch = lf_chainD [OF lf_invD(1) [OF inv]]
  have "chain_from (lf_heap (lfs_q s)) (drop ?i ?L) (Some (m_head (lfs_q s)))" using chain_of_queue [OF inv order_refl] ch(2) by simp
  from delete_chain [OF this] have "lf_destroy (lfs_q s) = Some (Done (\<lambda>b. if b \<in> set (drop ?i ?L) then None else lf_heap (lfs_q s) b))"
    using ch(1) by (simp add: lf_destroy_def)
  moreover have "lf_heap (lfs_q s) b = None" if "b \<notin> set (drop ?i ?L)" for b
    using lf_invD(3) [OF inv] that idle unfolding lf_owners_def lf_owns_def set_drop_pos [OF ch(1)] by auto
  ultimately show ?thesis by (auto simp: fun_eq_iff)
qed

section \<open>Linearizability\<close>

text \<open>C6: The lock-free queue refines an atomic queue: whatever the threads do and wherever a weak exchange fails
  for no reason, the calls and returns they see are those of a queue on which every \<open>push\<close> and \<open>pop\<close> takes effect at one
  moment between its call and its return; every node belongs either to the queue or to exactly one thread; and
  when no operation is under way the destructor ends and deletes every node there is, each once.  This holds
  provided no address is handed out twice, and up to the first access to a deleted node.\<close>

theorem lockfree_refines_atomic:
  assumes "shows_events (\<lambda>s. s = lf_init d) lf_step es s" "no_reuse s"
  shows "shows_events (\<lambda>s. s = aq_init) aq_step es (lf_abs s) \<and> lf_owners s \<and>
    ((\<forall>t. lfs_pc s t = lf_idle) \<longrightarrow> lf_destroy (lfs_q s) = Some (Done Map.empty))"
  using lockfree.refined [OF assms] lf_invD(3) lf_destroy_all by blast

theorem lockfree_refines_atomic_witness:
  "\<exists>s :: nat lf_sys. shows_events (\<lambda>s. s = lf_init 0) lf_step [ev_call 0 (op_push 7), ev_ret 0 res_push] s \<and> no_reuse s \<and>
     shows_events (\<lambda>s. s = aq_init) aq_step [ev_call 0 (op_push 7), ev_ret 0 res_push] (lf_abs s) \<and> lf_owners s \<and>
     lf_destroy (lfs_q s) = Some (Done Map.empty)"
  using example_push lf_exec_from_init lockfree_refines_atomic by blast

end
