(* ===== verification/Spec2Isabelle.thy ===== *)
theory Spec2Isabelle
  imports Rtl_Timer Db_Tx Db_Result Ws_App Ws_Client Allocators Device_Protocol Coro_Schedule Coro_Example Static_Pool Lockfree_Queue
begin

text \<open>
  Verification of \<^verbatim>\<open>rtl\<close>, a C++20 library of infrastructure modules.  All paths below are relative to
  \<^verbatim>\<open>src/\<close>.

  \<^bold>\<open>The program.\<close>  The modules build on each other.  \<^verbatim>\<open>stp/\<close> has a bounded queue for many producers and
  consumers, a thread pool on top of it, the executor interface with the pool behind it, and a one-shot
  timer that runs on an executor.  \<^verbatim>\<open>coro/\<close> has lazy coroutine tasks, their scheduling on an executor and a
  blocking wait for them.  \<^verbatim>\<open>db/\<close> wraps libpqxx: connections and transactions, a connection pool, transactions on
  pooled connections with savepoints and retries, and access to results.  \<^verbatim>\<open>core/config\<close> and \<^verbatim>\<open>json/\<close> read the
  configuration.  \<^verbatim>\<open>ws/server/\<close> is a WebSocket server of layers (the message envelope, the router, one session per
  connection, the acceptor with its I/O threads, the server with its registry of sessions, the application
  with endpoints and authentication through \<^verbatim>\<open>middleware/Auth\<close>) and a client.  \<^verbatim>\<open>protocol/\<close> speaks to a measuring
  device over a serial channel.  \<^verbatim>\<open>allocators/\<close> and \<^verbatim>\<open>collectors/\<close> stand alone.

  \<^bold>\<open>How the code is modelled.\<close>  A class is a record of its members, an enum a datatype, a \<open>size_t\<close> a 64-bit word
  whose arithmetic wraps; an exception is the left value of a sum.  A section under a mutex is one function
  of the state.  Its result is \<open>Done\<close>, \<open>Wait\<close> when it reaches a wait that does not end yet, or \<open>Undef\<close> where C++
  leaves the behaviour undefined (a pop of an empty container, a destroyed frame, a dangling context).  A
  blocking operation is cut at its waits.  Threads are the steps of an inductive relation, or of a relation
  given by an executable function of events; \<open>reach\<close> of \<^verbatim>\<open>Rtl_Prelude\<close> is the set of reachable states, and every
  invariant is an interpretation of the locale \<open>invariant_machine\<close> there.  An asynchronous class is its members
  together with the operations that are outstanding in the network library; each completion handler is one
  function, and the environment chooses what completes next and with which error.  Histories (what was
  accepted, taken, written, called) are extra fields that no function of the code reads.

  \<^bold>\<open>Theories, sources and what is shown.\<close>

  \<^item> \<^verbatim>\<open>Containers\<close> (\<^verbatim>\<open>stp/UnbMpMcTemplateQueue.hpp\<close>, lines 22 to 210): the heap of \<open>MovablePriorityQueue\<close> and the traits
    struct \<open>ContainerOps\<close>.  The traits contract is the locale \<open>container\<close> with \<open>fifo_container\<close> and
    \<open>priority_container\<close>, interpreted on all five specialisations; popping the heap gives a greatest element.
  \<^item> \<^verbatim>\<open>Mpmc_Queue\<close> (the rest of that file): each operation of the queue, and a machine of any number of submitters
    and takers.  The queue is first-in first-out and bounded, no wake-up is lost, a closing queue drains; the
    deprecated \<open>take\<close> does lose wake-ups.
  \<^item> \<^verbatim>\<open>Thread_Pool\<close> (\<^verbatim>\<open>stp/RtlThreadPool.hpp\<close>): submission under every rejection policy, workers, periodic workers,
    \<open>shutdown_graceful\<close> and \<open>join\<close> in one machine built on that of the queue.  Every accepted task runs exactly once,
    shutdown always reaches the stopped state and leaves nothing behind.
  \<^item> \<^verbatim>\<open>Static_Pool\<close> (\<^verbatim>\<open>stp/StaticThreadPool.*\<close>, \<^verbatim>\<open>stp/UnboundedMPMCQueue.h\<close>): their deprecated predecessors; \<open>joinAll\<close> ends and no
    task is lost or run twice, but it leaves queued tasks behind.
  \<^item> \<^verbatim>\<open>Lockfree_Queue\<close> (\<^verbatim>\<open>stp/LockFreeQueue.hpp\<close>): each atomic access is a move of a thread; the queue refines an atomic one
    through the locale \<open>refinement_map\<close> of \<^verbatim>\<open>Rtl_Prelude\<close>, a thread alone completes, the destructor frees every node.
    Addresses are not reused in these claims, and a run ends where a deleted node is accessed, which can happen.
  \<^item> \<^verbatim>\<open>Executor\<close> (\<^verbatim>\<open>stp/IExecutor.hpp\<close>, \<^verbatim>\<open>stp/ThreadPoolExecutor.*\<close>): the locale \<open>executor\<close>, interpreted on the pool; what a
    returned future says about the task.  Its clients are \<^verbatim>\<open>Rtl_Timer\<close> (\<^verbatim>\<open>stp/RtlTimer.hpp\<close>: a handler is dispatched at
    most once, not before its time, with the right result) and \<^verbatim>\<open>Coro_Schedule\<close> (\<^verbatim>\<open>coro/Schedule.cpp\<close>,
    \<^verbatim>\<open>coro/ExecutorScheduler.cpp\<close>).
  \<^item> \<^verbatim>\<open>Coro_Task\<close> (\<^verbatim>\<open>coro/Task.hpp\<close>, \<^verbatim>\<open>coro/SyncWait.hpp\<close>): every frame has one owner and is destroyed once; \<open>sync_wait\<close>, through
    frames, continuations, workers and the wait, refines the direct evaluation of the coroutine body.
    \<^verbatim>\<open>Coro_Example\<close> has the overloads for \<open>Task<void>\<close> and the program \<^verbatim>\<open>coro/examples/main.cpp\<close> on top of it.
  \<^item> \<^verbatim>\<open>Db_Core\<close>, \<^verbatim>\<open>Db_Pool\<close>, \<^verbatim>\<open>Db_Tx\<close>, \<^verbatim>\<open>Db_Result\<close> (\<^verbatim>\<open>db/core\<close>, \<^verbatim>\<open>db/pool\<close>, \<^verbatim>\<open>db/tx\<close>): autocommit runs one transaction whatever
    fails, driver exceptions are translated by their most specific class, the pool's counters are exact and
    no wake-up is lost while the driver connects, \<open>with_retry\<close> commits once or not at all and gives every
    connection back, savepoints nest, results are read inside their bounds.
  \<^item> \<^verbatim>\<open>Json_Value\<close>, \<^verbatim>\<open>Core_Config\<close> (\<^verbatim>\<open>json/\<close>, \<^verbatim>\<open>core/config/Config.hpp\<close>, \<^verbatim>\<open>ws/server/WsConfig.hpp\<close>): what was set is read back and
    other keys are kept; loading never yields an unusable server port and reports success exactly
    when the file could be read and parsed.
  \<^item> \<^verbatim>\<open>Ws_Protocol\<close> (\<^verbatim>\<open>ws/server/WsProtocol.hpp\<close>): messages survive the way through JSON, a file survives the way through
    chunks in any order, the checksum of a file is that of its bytes.
  \<^item> \<^verbatim>\<open>Ws_Router\<close>, \<^verbatim>\<open>Ws_Session\<close>, \<^verbatim>\<open>Ws_Session_Queue\<close>, \<^verbatim>\<open>Ws_Session_Life\<close> (\<^verbatim>\<open>ws/server/WsRouter.hpp\<close>, \<^verbatim>\<open>WsSession.hpp\<close>): the write queue
    of an open session is exact, bounded and in order, a shutdown flushes it, opening and closing are
    announced once.  The locale \<open>session_admission\<close> states what a router must decide for a session to open.
  \<^item> \<^verbatim>\<open>Ws_Engine\<close>, \<^verbatim>\<open>Ws_Server\<close>, \<^verbatim>\<open>Ws_App\<close> (\<^verbatim>\<open>WsEngine.hpp\<close>, \<^verbatim>\<open>WsServer.hpp\<close>, \<^verbatim>\<open>WsApp.hpp\<close>): one accept is outstanding until the stop,
    the wait of \<open>stop\<close> ends, a broadcast reaches the registered sessions, a message goes to the first handler
    registered for it; \<^verbatim>\<open>Ws_App\<close> interprets \<open>session_admission\<close>, so that a session that opens is authenticated and its
    endpoint known, from the handshake up through router, server and application.
  \<^item> \<^verbatim>\<open>Ws_Client\<close> (\<^verbatim>\<open>ws/server/WsClient.hpp\<close>): texts are written one at a time and in order, a closed client stays closed
    and \<open>close\<close> ends; a reconnect with a heartbeat never ends.
  \<^item> \<^verbatim>\<open>Device_Protocol\<close> (\<^verbatim>\<open>protocol/\<close>): the memory layout of the messages and the round trip over the wire.
  \<^item> \<^verbatim>\<open>Allocators\<close> (\<^verbatim>\<open>allocators/\<close>, \<^verbatim>\<open>collectors/\<close>): the linear allocator refines a bump allocator on naturals, the block
    allocator's blocks partition its buffer under allocations.

  \<^bold>\<open>Bounds and fuel.\<close>  No model uses fuel: loops are structural recursions, functions with a termination proof, or
  steps of a machine.  The destructor of the lock-free queue, which would follow a cyclic chain for ever, is a partial
  function that is shown to return; the nine and ten accesses of a thread on its own are counted along its
  longest path.  Where a claim says that something is reached (the stop of the pool, the end of \<open>close\<close>, of
  the server's wait and of \<open>sync_wait\<close>, the flush of a session) the run that reaches it is proved to exist.
  The counters of the connection pool and of the sessions are words; that they do not wrap follows from the
  configured limits.

  \<^bold>\<open>Assumptions.\<close>  The handlers of one session, and of one client, run one at a time, as they do with one I/O
  thread.  Atomic flags are sequentially consistent.  Memory allocation and the start of a thread may fail only
  where a parameter says so.  The libraries are parameters: libpqxx answers each call from the calls before
  it, the JSON parser and printer, zlib's \<open>crc32\<close>, the files and the serial channel are functions; what is
  used of them is a named hypothesis of the theorem, with a concrete instance in its witness.

  \<^bold>\<open>Not modelled.\<close>  \<^verbatim>\<open>core/logger\<close> sets up spdlog and every log line is left out; the programs of
  \<^verbatim>\<open>ws/examples\<close> and the tests only call the library.  \<^verbatim>\<open>protocol/Serializer.h\<close> names types that no longer exist and does not compile.  In
  the allocators the sequences with \<open>deallocate\<close> are defined but have no invariant: \<open>deallocate\<close> leaves stale entries
  behind, which is one of the defects noted beside the theories.
\<close>

end
